(* ===== verification/Prelude.thy ===== *)
theory Prelude
  imports Main "HOL-Library.Word" "HOL-Library.Signed_Division"
begin

unbundle bit_operations_syntax

section \<open>Machine types, Go integers and shared list lemmas\<close>

text \<open>
  This theory holds what every component shares: the names of Go's fixed-width types, Go's
  64-bit \<open>int\<close> with its wrap-around and truncating division, little-endian byte lists, and the
  validation loop that nearly every \<open>validate\<close> method of config.go is an instance of.
  A Go \<open>error\<close> result is an \<open>option\<close> (None is nil); a call that may panic returns an
  \<open>option\<close> whose None is the panic.
\<close>

type_synonym u8 = "8 word"
type_synonym u16 = "16 word"
type_synonym u32 = "32 word"
type_synonym u64 = "64 word"
type_synonym bytes = "u8 list"

named_theorems observe_simps "equations of the SDO observer"
named_theorems sniff_simps "equations of the sniffer's handlers"
named_theorems frame_keep "which parts of a state an operation leaves alone"

subsection \<open>Go's int and int64\<close>

text \<open>Two's-complement wrap-around of a 64-bit signed value.\<close>

definition wrap64 :: "int \<Rightarrow> int" where
  "wrap64 i = (i + 2 ^ 63) mod 2 ^ 64 - 2 ^ 63"

lemma wrap64_id [simp]: "- (2 ^ 63) \<le> i \<Longrightarrow> i < 2 ^ 63 \<Longrightarrow> wrap64 i = i"
  by (simp add: wrap64_def)

lemma wrap64_range: "- (2 ^ 63) \<le> wrap64 i \<and> wrap64 i < 2 ^ 63"
proof -
  have "0 \<le> (i + 2 ^ 63) mod 2 ^ 64 \<and> (i + 2 ^ 63) mod 2 ^ 64 < (2 ^ 64 :: int)"
    by simp
  then show ?thesis by (simp add: wrap64_def)
qed

lemma wrap64_overflow: "2 ^ 63 \<le> i \<Longrightarrow> i < 2 ^ 64 \<Longrightarrow> wrap64 i = i - 2 ^ 64"
proof -
  assume "2 ^ 63 \<le> i" "i < 2 ^ 64"
  have "i + 2 ^ 63 = (i - 2 ^ 63) + 1 * 2 ^ 64" by simp
  then have "(i + 2 ^ 63) mod 2 ^ 64 = (i - 2 ^ 63) mod (2 ^ 64 :: int)"
    by (metis mod_mult_self1)
  also have "\<dots> = i - 2 ^ 63"
    using \<open>2 ^ 63 \<le> i\<close> \<open>i < 2 ^ 64\<close> by (intro mod_pos_pos_trivial) auto
  finally show ?thesis by (simp add: wrap64_def)
qed

text \<open>Go's \<open>/\<close> and \<open>%\<close> truncate; on the non-negative values the code guards for they are
  the mathematical ones.\<close>

lemma sdiv_nonneg [simp]: "0 \<le> (a :: int) \<Longrightarrow> 0 < b \<Longrightarrow> a sdiv b = a div b"
  by (cases "a = 0") (simp_all add: signed_divide_int_def sgn_if)

lemma smod_nonneg [simp]: "0 \<le> (a :: int) \<Longrightarrow> 0 < b \<Longrightarrow> a smod b = a mod b"
  by (cases "a = 0") (simp_all add: signed_modulo_int_def sgn_if)

subsection \<open>Little-endian byte lists\<close>

text \<open>The number a byte list denotes, first byte least significant.\<close>

primrec le_nat :: "bytes \<Rightarrow> nat" where
  "le_nat [] = 0"
| "le_nat (b # bs) = unat b + 256 * le_nat bs"

lemma unat_u8_less [simp]: "unat (b :: u8) < 256"
  by (rule order_less_le_trans [OF unsigned_less]) simp

lemma le_nat_bound: "le_nat bs < 256 ^ length bs"
proof (induction bs)
  case (Cons b bs)
  have "unat b < 256" by simp
  moreover have "256 * Suc (le_nat bs) \<le> 256 * 256 ^ length bs"
    using Cons by (intro mult_le_mono2 Suc_leI)
  ultimately show ?case by (simp del: unat_u8_less)
qed simp

lemma le_nat_append: "le_nat (xs @ ys) = le_nat xs + 256 ^ length xs * le_nat ys"
  by (induction xs) (simp_all add: algebra_simps)

lemma le_nat_drop: "le_nat (drop n bs) = le_nat bs div 256 ^ n"
proof (cases "n \<le> length bs")
  case True
  have split: "le_nat bs = le_nat (take n bs) + 256 ^ n * le_nat (drop n bs)"
    using le_nat_append [of "take n bs" "drop n bs"] True by simp
  have "le_nat (take n bs) < 256 ^ n"
    using le_nat_bound [of "take n bs"] True by simp
  then show ?thesis by (simp add: split)
next
  case False
  then have "le_nat bs < 256 ^ n"
    using le_nat_bound [of bs] by (meson less_le_trans linear one_le_numeral power_increasing)
  with False show ?thesis by simp
qed

lemma le_nat_take: "le_nat (take n bs) = le_nat bs mod 256 ^ n"
proof (cases "n \<le> length bs")
  case True
  have split: "le_nat bs = le_nat (take n bs) + 256 ^ n * le_nat (drop n bs)"
    using le_nat_append [of "take n bs" "drop n bs"] True by simp
  have "le_nat (take n bs) < 256 ^ n"
    using le_nat_bound [of "take n bs"] True by simp
  then show ?thesis by (simp add: split)
next
  case False
  then have "le_nat bs < 256 ^ n"
    using le_nat_bound [of bs] by (meson less_le_trans linear one_le_numeral power_increasing)
  with False show ?thesis by simp
qed

lemma le_nat_inj: "length xs = length ys \<Longrightarrow> le_nat xs = le_nat ys \<Longrightarrow> xs = ys"
proof (induction xs ys rule: list_induct2)
  case (Cons x xs y ys)
  have "(unat x + 256 * le_nat xs) mod 256 = (unat y + 256 * le_nat ys) mod 256"
    using Cons.prems by simp
  then have "unat x = unat y" by simp
  with Cons show ?case by (simp add: word_unat_eq_iff)
qed simp

subsection \<open>The validation loop\<close>

text \<open>
  config.go repeats one loop: for every element, in order, run its \<open>validate\<close> and stop at
  the first error, then refuse an element whose key was already seen. \<open>scan_unique\<close> is that
  loop, with the position of the element passed to the check and to the duplicate error.
\<close>

primrec scan_unique ::
  "(nat \<Rightarrow> 'a \<Rightarrow> 'e option) \<Rightarrow> ('a \<Rightarrow> 'k) \<Rightarrow> ('a \<Rightarrow> 'e) \<Rightarrow> 'k set \<Rightarrow> nat \<Rightarrow> 'a list \<Rightarrow> 'e option" where
  "scan_unique chk key dup seen i [] = None"
| "scan_unique chk key dup seen i (x # xs) =
     (case chk i x of
        Some e \<Rightarrow> Some e
      | None \<Rightarrow>
          if key x \<in> seen then Some (dup x)
          else scan_unique chk key dup (insert (key x) seen) (Suc i) xs)"

lemma scan_unique_None:
  "scan_unique chk key dup seen i xs = None \<longleftrightarrow>
     (\<forall>j < length xs. chk (i + j) (xs ! j) = None) \<and>
     distinct (map key xs) \<and> key ` set xs \<inter> seen = {}"
proof (induction xs arbitrary: seen i)
  case (Cons x xs)
  have shift: "(\<forall>j < length (x # xs). chk (i + j) ((x # xs) ! j) = None) \<longleftrightarrow>
      chk i x = None \<and> (\<forall>j < length xs. chk (Suc i + j) (xs ! j) = None)"
    by (auto simp: less_Suc_eq_0_disj)
  show ?case
    unfolding shift by (auto simp: Cons.IH split: option.splits)
qed simp

lemma scan_unique_ok_checks:
  "scan_unique chk key dup seen i xs = None \<Longrightarrow> x \<in> set xs \<Longrightarrow> \<exists>j. chk j x = None"
  unfolding scan_unique_None in_set_conv_nth by auto

lemma scan_unique_ok_distinct:
  "scan_unique chk key dup seen i xs = None \<Longrightarrow> distinct (map key xs)"
  by (simp add: scan_unique_None)

text \<open>The first error of a list of checks, and its position-indexed form.\<close>

primrec first_error :: "('a \<Rightarrow> 'e option) \<Rightarrow> 'a list \<Rightarrow> 'e option" where
  "first_error chk [] = None"
| "first_error chk (x # xs) = (case chk x of Some e \<Rightarrow> Some e | None \<Rightarrow> first_error chk xs)"

primrec first_error_at :: "(nat \<Rightarrow> 'a \<Rightarrow> 'e option) \<Rightarrow> nat \<Rightarrow> 'a list \<Rightarrow> 'e option" where
  "first_error_at chk i [] = None"
| "first_error_at chk i (x # xs) =
     (case chk i x of Some e \<Rightarrow> Some e | None \<Rightarrow> first_error_at chk (Suc i) xs)"

lemma first_error_None: "first_error chk xs = None \<longleftrightarrow> (\<forall>x \<in> set xs. chk x = None)"
  by (induction xs) (auto split: option.splits)

lemma first_error_at_None:
  "first_error_at chk i xs = None \<longleftrightarrow> (\<forall>j < length xs. chk (i + j) (xs ! j) = None)"
  by (induction xs arbitrary: i) (auto split: option.splits simp: less_Suc_eq_0_disj)

subsection \<open>Sequencing checks that return a Go error\<close>

text \<open>\<open>if err := a; err != nil { return err }; return b\<close>\<close>

definition or_else :: "'e option \<Rightarrow> 'e option \<Rightarrow> 'e option" where
  "or_else a b = (case a of Some e \<Rightarrow> Some e | None \<Rightarrow> b)"

lemma or_else_None [simp]: "or_else a b = None \<longleftrightarrow> a = None \<and> b = None"
  by (simp add: or_else_def split: option.splits)

lemma or_else_simps [simp]: "or_else None b = b" "or_else (Some e) b = Some e"
  by (simp_all add: or_else_def)

text \<open>\<open>if cond { return err }\<close>\<close>

definition refuse :: "bool \<Rightarrow> 'e \<Rightarrow> 'e option" where
  "refuse c e = (if c then Some e else None)"

lemma refuse_None [simp]: "refuse c e = None \<longleftrightarrow> \<not> c"
  by (simp add: refuse_def)

lemma refuse_simps [simp]: "refuse True e = Some e" "refuse False e = None"
  by (simp_all add: refuse_def)

subsection \<open>Bounded words\<close>

lemma unat_and_mask: "unat ((w :: 'a :: len word) AND mask n) = unat w mod 2 ^ n"
  by (simp only: take_bit_eq_mask [symmetric] unsigned_take_bit_eq) (rule take_bit_eq_mod)

lemma word_less_unat: "(a :: 'a :: len word) < b \<longleftrightarrow> unat a < unat b"
  by (rule word_less_nat_alt)

lemma word_le_unat: "(a :: 'a :: len word) \<le> b \<longleftrightarrow> unat a \<le> unat b"
  by (rule word_le_nat_alt)

end
