(* ===== verification/GoFloat.thy ===== *)
theory GoFloat
  imports Prelude
begin

unbundle bit_operations_syntax

section \<open>Go's float64: IEEE 754 binary64, round to nearest even\<close>

text \<open>
  The decoder turns bytes into \<open>float64\<close> values and \<open>ApplyScale\<close> computes with them, so the
  model needs the arithmetic of the language. A finite value is
  \<open>(-1)^s * m * 2^e\<close> with the mantissa odd (or zero, with exponent 0), which makes the
  representation unique; the payload of a NaN is not kept. Every operation computes the exact
  result and rounds it once to 53 bits (denormals at \<open>2^-1074\<close>, overflow to infinity), as the
  amd64 code Go generates does; a fused multiply-add, which the language permits on other
  platforms, is not modelled.
\<close>

datatype float64 = NaN | Inf bool | Fin bool nat int

subsection \<open>Normal form and rounding\<close>

text \<open>The number of binary digits of a mantissa.\<close>

fun bitlen :: "nat \<Rightarrow> nat" where
  "bitlen m = (if m = 0 then 0 else Suc (bitlen (m div 2)))"

declare bitlen.simps [simp del]

text \<open>Strip factors of two, so that the mantissa is odd or zero.\<close>

fun strip2 :: "nat \<Rightarrow> int \<Rightarrow> nat \<times> int" where
  "strip2 m e = (if m = 0 then (0, 0) else if even m then strip2 (m div 2) (e + 1) else (m, e))"

declare strip2.simps [simp del]

definition f64_finish :: "bool \<Rightarrow> nat \<Rightarrow> int \<Rightarrow> float64" where
  "f64_finish s m e =
     (if m \<noteq> 0 \<and> int (bitlen m) + e > 1024 then Inf s
      else case strip2 m e of (m', e') \<Rightarrow> Fin s m' e')"

text \<open>Division by \<open>2^k\<close> rounded to nearest, ties to even.\<close>

definition round_shift :: "nat \<Rightarrow> nat \<Rightarrow> nat" where
  "round_shift m k =
     (let q = m div 2 ^ k; r = m mod 2 ^ k; half = 2 ^ (k - 1)
      in if half < r \<or> (r = half \<and> odd q) then Suc q else q)"

definition f64_round :: "bool \<Rightarrow> nat \<Rightarrow> int \<Rightarrow> float64" where
  "f64_round s m e =
     (let sh = max (int (bitlen m) - 53) (- 1074 - e)
      in if sh \<le> 0 then f64_finish s m e
         else f64_finish s (round_shift m (nat sh)) (e + sh))"

subsection \<open>Conversions\<close>

text \<open>\<open>float64(i)\<close> for an integer, \<open>math.Float64frombits\<close>, and
  \<open>float64(math.Float32frombits(b))\<close>.\<close>

definition f64_of_int :: "int \<Rightarrow> float64" where
  "f64_of_int i = f64_round (i < 0) (nat \<bar>i\<bar>) 0"

definition f64_of_bits :: "u64 \<Rightarrow> float64" where
  "f64_of_bits w =
     (let s = bit w 63;
          ex = unat (drop_bit 52 w AND 0x7FF);
          frac = unat (w AND 0xFFFFFFFFFFFFF)
      in if ex = 2047 then (if frac = 0 then Inf s else NaN)
         else if ex = 0 then f64_finish s frac (- 1074)
         else f64_finish s (2 ^ 52 + frac) (int ex - 1075))"

definition f64_of_f32_bits :: "u32 \<Rightarrow> float64" where
  "f64_of_f32_bits w =
     (let s = bit w 31;
          ex = unat (drop_bit 23 w AND 0xFF);
          frac = unat (w AND 0x7FFFFF)
      in if ex = 255 then (if frac = 0 then Inf s else NaN)
         else if ex = 0 then f64_finish s frac (- 149)
         else f64_finish s (2 ^ 23 + frac) (int ex - 150))"

subsection \<open>Arithmetic and comparison\<close>

fun f64_mul :: "float64 \<Rightarrow> float64 \<Rightarrow> float64" where
  "f64_mul NaN y = NaN"
| "f64_mul x NaN = NaN"
| "f64_mul (Inf s) (Inf t) = Inf (s \<noteq> t)"
| "f64_mul (Inf s) (Fin t m e) = (if m = 0 then NaN else Inf (s \<noteq> t))"
| "f64_mul (Fin s m e) (Inf t) = (if m = 0 then NaN else Inf (s \<noteq> t))"
| "f64_mul (Fin s m e) (Fin t n f) = f64_round (s \<noteq> t) (m * n) (e + f)"

text \<open>The signed mantissa of a finite value, scaled to a smaller exponent.\<close>

definition signed_at :: "bool \<Rightarrow> nat \<Rightarrow> int \<Rightarrow> int \<Rightarrow> int" where
  "signed_at s m e f = (if s then - 1 else 1) * int m * 2 ^ nat (e - f)"

fun f64_add :: "float64 \<Rightarrow> float64 \<Rightarrow> float64" where
  "f64_add NaN y = NaN"
| "f64_add x NaN = NaN"
| "f64_add (Inf s) (Inf t) = (if s = t then Inf s else NaN)"
| "f64_add (Inf s) (Fin t n f) = Inf s"
| "f64_add (Fin s m e) (Inf t) = Inf t"
| "f64_add (Fin s m e) (Fin t n f) =
     (let g = min e f; v = signed_at s m e g + signed_at t n f g
      in if v = 0 then Fin (s \<and> t) 0 0 else f64_round (v < 0) (nat \<bar>v\<bar>) g)"

text \<open>Go's \<open>==\<close>: a NaN equals nothing, the two zeros are equal.\<close>

fun f64_eq :: "float64 \<Rightarrow> float64 \<Rightarrow> bool" where
  "f64_eq NaN y = False"
| "f64_eq x NaN = False"
| "f64_eq (Fin s m e) (Fin t n f) = ((m = 0 \<and> n = 0) \<or> (s = t \<and> m = n \<and> e = f))"
| "f64_eq x y = (x = y)"

text \<open>The class operations, so that the model writes \<open>v * scale + offset\<close> as the code does.\<close>

instantiation float64 :: "{zero, one, plus, times}"
begin

definition zero_float64 :: float64 where
  "zero_float64 = Fin False 0 0"

definition one_float64 :: float64 where
  "one_float64 = Fin False 1 0"

definition plus_float64 :: "float64 \<Rightarrow> float64 \<Rightarrow> float64" where
  "plus_float64 = f64_add"

definition times_float64 :: "float64 \<Rightarrow> float64 \<Rightarrow> float64" where
  "times_float64 = f64_mul"

instance ..

end

lemmas float64_class_defs = zero_float64_def one_float64_def plus_float64_def times_float64_def

subsection \<open>Digits and normal form\<close>

lemma bitlen_0 [simp]: "bitlen 0 = 0"
  by (simp add: bitlen.simps)

lemma bitlen_pos: "0 < m \<Longrightarrow> bitlen m = Suc (bitlen (m div 2))"
  by (simp add: bitlen.simps [of m])

text \<open>Evaluation on numerals, digit by digit.\<close>

lemma bitlen_numeral [simp]:
  "bitlen 1 = 1"
  "bitlen (Suc 0) = 1"
  "bitlen (numeral (num.Bit0 n)) = Suc (bitlen (numeral n))"
  "bitlen (numeral (num.Bit1 n)) = Suc (bitlen (numeral n))"
  by (simp_all add: bitlen_pos)

lemma strip2_numeral [simp]:
  "strip2 1 e = (1, e)"
  "strip2 (Suc 0) e = (1, e)"
  "strip2 (numeral (num.Bit0 n)) e = strip2 (numeral n) (e + 1)"
  "strip2 (numeral (num.Bit1 n)) e = (numeral (num.Bit1 n), e)"
  by (subst strip2.simps, simp)+

lemma bitlen_double: "0 < m \<Longrightarrow> bitlen (2 * m) = Suc (bitlen m)"
  by (simp add: bitlen_pos [of "2 * m"])

lemma bitlen_le_iff: "bitlen m \<le> k \<longleftrightarrow> m < 2 ^ k"
proof (induction m arbitrary: k rule: bitlen.induct)
  case (1 m)
  show ?case
  proof (cases "m = 0")
    case False
    show ?thesis
    proof (cases k)
      case (Suc j)
      have "bitlen m \<le> k \<longleftrightarrow> m div 2 < 2 ^ j"
        using False Suc "1.IH" by (simp add: bitlen_pos)
      also have "\<dots> \<longleftrightarrow> m < 2 ^ k"
        by (simp add: Suc div_less_iff_less_mult mult.commute)
      finally show ?thesis .
    qed (use False in \<open>simp add: bitlen_pos\<close>)
  qed simp
qed

definition f64_wf :: "float64 \<Rightarrow> bool" where
  "f64_wf x = (case x of NaN \<Rightarrow> True | Inf s \<Rightarrow> True
     | Fin s m e \<Rightarrow> if m = 0 then e = 0
         else odd m \<and> bitlen m \<le> 53 \<and> - 1074 \<le> e \<and> int (bitlen m) + e \<le> 1024)"

lemma strip2_odd: "odd m \<Longrightarrow> strip2 m e = (m, e)"
  by (subst strip2.simps) (auto intro: ccontr)

lemma strip2_0 [simp]: "strip2 0 e = (0, 0)"
  by (simp add: strip2.simps)

lemma strip2_props:
  "strip2 m e = (m', e') \<Longrightarrow> 0 < m \<Longrightarrow>
     odd m' \<and> e \<le> e' \<and> int (bitlen m') + e' = int (bitlen m) + e \<and> bitlen m' \<le> bitlen m"
proof (induction m e rule: strip2.induct)
  case (1 m e)
  show ?case
  proof (cases "even m")
    case True
    then obtain h where h: "m = 2 * h" by blast
    with "1.prems" have "0 < h" by simp
    have "strip2 h (e + 1) = (m', e')"
      using "1.prems"(1) h \<open>0 < h\<close> strip2.simps [of "2 * h" e] by simp
    then have "odd m' \<and> e + 1 \<le> e' \<and> int (bitlen m') + e' = int (bitlen h) + (e + 1) \<and> bitlen m' \<le> bitlen h"
      using "1.IH" h True \<open>0 < h\<close> by simp
    then show ?thesis using h \<open>0 < h\<close> by (simp add: bitlen_double)
  next
    case False
    with "1.prems" show ?thesis by (auto simp: strip2_odd)
  qed
qed

lemma bitlen_scale: "0 < m \<Longrightarrow> bitlen (m * 2 ^ k) = bitlen m + k"
proof (induction k)
  case (Suc k)
  then show ?case using bitlen_double [of "m * 2 ^ k"] by (simp add: mult.left_commute)
qed simp

lemma strip2_scale: "odd m \<Longrightarrow> strip2 (m * 2 ^ k) e = (m, e + int k)"
proof (induction k arbitrary: e)
  case 0
  then show ?case by (simp add: strip2_odd)
next
  case (Suc k)
  have "m * 2 ^ k \<noteq> 0" using Suc.prems by (auto intro: ccontr)
  then show ?case
    using Suc by (subst strip2.simps) (simp add: mult.left_commute)
qed

lemma f64_wf_simps [simp]: "f64_wf NaN" "f64_wf (Inf s)" "f64_wf (Fin s 0 0)"
  by (simp_all add: f64_wf_def)

text \<open>An odd part is at most as long as the precision once the number before rounding was, or
  when rounding carried into a power of two.\<close>

lemma f64_finish_wf:
  assumes "m \<le> 2 ^ 53" and "- 1074 \<le> e"
  shows "f64_wf (f64_finish s m e)"
proof (cases "m = 0")
  case False
  obtain m' e' where st: "strip2 m e = (m', e')" by (cases "strip2 m e") auto
  from strip2_props [OF st] False
  have p: "odd m' \<and> e \<le> e' \<and> int (bitlen m') + e' = int (bitlen m) + e \<and> bitlen m' \<le> bitlen m" by simp
  have "bitlen m' \<le> 53"
  proof (cases "m = 2 ^ 53")
    case True
    with st strip2_scale [of 1 53 e] have "m' = 1" by simp
    then show ?thesis by (simp add: bitlen.simps)
  next
    case False
    with assms(1) have "m < 2 ^ 53" by simp
    then show ?thesis using p bitlen_le_iff [of m 53] by simp
  qed
  with p st assms(2) False show ?thesis
    by (auto simp: f64_finish_def f64_wf_def)
qed (simp add: f64_finish_def f64_wf_def)

lemma round_shift_bound:
  assumes "m < 2 ^ (k + n)" shows "round_shift m k \<le> 2 ^ n"
proof -
  have "m div 2 ^ k < 2 ^ n"
    using assms by (simp add: div_less_iff_less_mult power_add mult.commute)
  then show ?thesis by (auto simp: round_shift_def Let_def)
qed

text \<open>Rounding always lands on a representable value.\<close>

lemma f64_round_wf [simp]: "f64_wf (f64_round s m e)"
proof -
  define sh where "sh = max (int (bitlen m) - 53) (- 1074 - e)"
  show ?thesis
  proof (cases "sh \<le> 0")
    case True
    then have "bitlen m \<le> 53" and "- 1074 \<le> e" by (auto simp: sh_def)
    then have "m \<le> 2 ^ 53" using bitlen_le_iff [of m 53] by simp
    then show ?thesis
      using True \<open>- 1074 \<le> e\<close> by (simp add: f64_round_def sh_def f64_finish_wf)
  next
    case False
    have "bitlen m \<le> nat sh + 53" by (simp add: sh_def)
    then have "round_shift m (nat sh) \<le> 2 ^ 53"
      using bitlen_le_iff round_shift_bound by blast
    moreover have "- 1074 \<le> e + sh" by (simp add: sh_def)
    ultimately show ?thesis
      using False by (simp add: f64_round_def sh_def [symmetric] f64_finish_wf)
  qed
qed

text \<open>A value that fits the format is not changed by rounding.\<close>

lemma f64_round_exact:
  "bitlen m \<le> 53 \<Longrightarrow> - 1074 \<le> e \<Longrightarrow> f64_round s m e = f64_finish s m e"
  by (simp add: f64_round_def)

lemma f64_finish_id:
  "f64_wf (Fin s m e) \<Longrightarrow> f64_finish s m e = Fin s m e"
  by (auto simp: f64_wf_def f64_finish_def strip2_odd split: if_splits)

lemma round_shift_exact: "j \<le> k \<Longrightarrow> round_shift (m * 2 ^ k) j = m * 2 ^ (k - j)"
proof -
  assume "j \<le> k"
  then have eq: "m * 2 ^ k = (m * 2 ^ (k - j)) * 2 ^ j"
    by (simp add: power_add [symmetric])
  have "m * 2 ^ k div 2 ^ j = m * 2 ^ (k - j)" and "m * 2 ^ k mod 2 ^ j = 0"
    by (subst eq, simp)+
  then show ?thesis by (simp add: round_shift_def Let_def)
qed

text \<open>Rounding does nothing to a short mantissa, however it is scaled.\<close>

lemma f64_round_scaled:
  assumes "odd m" "bitlen m \<le> 53" "- 1074 \<le> g" "int (bitlen m) + (g + int k) \<le> 1024"
  shows "f64_round s (m * 2 ^ k) g = Fin s m (g + int k)"
proof -
  have pos: "0 < m" using assms(1) by (auto intro: ccontr)
  define sh where "sh = max (int (bitlen (m * 2 ^ k)) - 53) (- 1074 - g)"
  show ?thesis
  proof (cases "sh \<le> 0")
    case True
    then show ?thesis
      using assms pos
      by (simp add: f64_round_def sh_def f64_finish_def strip2_scale bitlen_scale)
  next
    case False
    then have sh: "sh = int (bitlen m) + int k - 53" "nat sh \<le> k" "0 < sh"
      using assms pos by (auto simp: sh_def bitlen_scale)
    then have "round_shift (m * 2 ^ k) (nat sh) = m * 2 ^ (k - nat sh)"
      by (simp add: round_shift_exact)
    then show ?thesis
      using assms pos False sh
      by (simp add: f64_round_def sh_def [symmetric] f64_finish_def strip2_scale bitlen_scale)
  qed
qed

subsection \<open>Identities of the scale transform\<close>

lemma f64_mul_one: "f64_wf x \<Longrightarrow> x * 1 = x"
proof (cases x)
  case (Fin s m e)
  moreover assume "f64_wf x"
  ultimately have "f64_round s m e = Fin s m e"
    by (cases "m = 0") (auto simp: f64_round_exact f64_finish_id f64_wf_def)
  with Fin show ?thesis by (simp add: float64_class_defs)
qed (simp_all add: float64_class_defs)

lemma f64_add_zero: "f64_wf x \<Longrightarrow> x \<noteq> Fin True 0 0 \<Longrightarrow> x + 0 = x"
proof (cases x)
  case (Fin s m e)
  moreover assume wf: "f64_wf x" and nz: "x \<noteq> Fin True 0 0"
  show ?thesis
  proof (cases "m = 0")
    case True
    with Fin wf nz show ?thesis
      by (auto simp: f64_wf_def float64_class_defs signed_at_def Let_def)
  next
    case False
    define g where "g = min e 0"
    define k where "k = nat (e - g)"
    have v: "signed_at s m e g + signed_at False 0 0 g = (if s then - 1 else 1) * int (m * 2 ^ k)"
      by (simp add: signed_at_def k_def)
    have wf': "odd m" "bitlen m \<le> 53" "- 1074 \<le> e" "int (bitlen m) + e \<le> 1024"
      using Fin wf False by (auto simp: f64_wf_def)
    have ek: "e = g + int k" and "- 1074 \<le> g" using wf' by (auto simp: k_def g_def)
    then have "f64_round s (m * 2 ^ k) g = Fin s m e"
      using f64_round_scaled [of m g k s] wf' by simp
    moreover have "nat (int m * 2 ^ k) = m * 2 ^ k" "\<not> int m * 2 ^ k < 0"
      by (simp_all add: nat_mult_distrib nat_power_eq not_less)
    ultimately show ?thesis
      using Fin False v by (cases s) (simp_all add: float64_class_defs Let_def g_def [symmetric])
  qed
qed (simp_all add: float64_class_defs)

subsection \<open>Every conversion and operation yields a binary64 value\<close>

lemma round_shift_pos: "k < bitlen m \<Longrightarrow> 0 < round_shift m k"
proof -
  assume "k < bitlen m"
  then have "2 ^ k \<le> m" using bitlen_le_iff [of m k] by simp
  then have "0 < m div 2 ^ k" by (simp add: div_greater_zero_iff)
  then show ?thesis by (simp add: round_shift_def Let_def)
qed

lemma f64_finish_nonzero: "0 < m \<Longrightarrow> f64_finish s m e \<noteq> Fin t 0 f"
  using strip2_props [of m e] by (auto simp: f64_finish_def split: prod.splits)

lemma f64_round_nonzero: "0 < m \<Longrightarrow> - 1074 \<le> e \<Longrightarrow> f64_round s m e \<noteq> Fin t 0 f"
  by (auto simp: f64_round_def Let_def intro!: f64_finish_nonzero round_shift_pos)

lemma f64_of_int_wf [simp]: "f64_wf (f64_of_int i)"
  by (simp add: f64_of_int_def)

lemma f64_of_int_not_negzero [simp]: "f64_of_int i \<noteq> Fin True 0 0"
proof -
  consider "i = 0" | "i \<noteq> 0" by blast
  then show ?thesis
  proof cases
    case 1
    then show ?thesis by (simp add: f64_of_int_def f64_round_def f64_finish_def)
  next
    case 2
    then have "0 < nat \<bar>i\<bar>" by simp
    then show ?thesis by (simp add: f64_of_int_def f64_round_nonzero)
  qed
qed

lemma f64_of_bits_wf [simp]: "f64_wf (f64_of_bits w)"
proof -
  have "unat (w AND 0xFFFFFFFFFFFFF) < 2 ^ 52"
    using unat_and_mask [of w 52] by (simp add: mask_eq_exp_minus_1)
  then show ?thesis
    by (auto simp: f64_of_bits_def Let_def simp del: of_nat_unat intro!: f64_finish_wf)
qed

lemma f64_of_f32_bits_wf [simp]: "f64_wf (f64_of_f32_bits w)"
proof -
  have "unat (w AND 0x7FFFFF) < 2 ^ 23"
    using unat_and_mask [of w 23] by (simp add: mask_eq_exp_minus_1)
  then show ?thesis
    by (auto simp: f64_of_f32_bits_def Let_def simp del: of_nat_unat intro!: f64_finish_wf)
qed

lemma f64_mul_wf [simp]: "f64_wf (x * y)"
  unfolding times_float64_def by (cases x; cases y) auto

lemma f64_add_wf [simp]: "f64_wf (x + y)"
  unfolding plus_float64_def
  by (cases x; cases y) (auto simp: Let_def)

text \<open>Integers of at most 53 bits convert exactly: the float read back is the integer.\<close>

definition f64_to_int :: "float64 \<Rightarrow> int option" where
  "f64_to_int x = (case x of Fin s m e \<Rightarrow>
     if m = 0 then Some 0 else if 0 \<le> e then Some (signed_at s m e 0) else None | _ \<Rightarrow> None)"

lemma strip2_value:
  "strip2 m e = (m', e') \<Longrightarrow> 0 < m \<Longrightarrow> \<exists>k. e' = e + int k \<and> m = m' * 2 ^ k"
proof (induction m e rule: strip2.induct)
  case (1 m e)
  show ?case
  proof (cases "even m")
    case True
    then obtain h where h: "m = 2 * h" by blast
    with "1.prems" have "0 < h" by simp
    have "strip2 h (e + 1) = (m', e')"
      using "1.prems"(1) h \<open>0 < h\<close> strip2.simps [of "2 * h" e] by simp
    then obtain k where "e' = e + 1 + int k" "h = m' * 2 ^ k"
      using "1.IH" h True \<open>0 < h\<close> by auto
    then show ?thesis using h by (intro exI [of _ "Suc k"]) simp
  next
    case False
    with "1.prems" show ?thesis by (auto simp: strip2_odd intro!: exI [of _ 0])
  qed
qed

lemma f64_to_int_of_int:
  assumes "\<bar>i\<bar> < 2 ^ 53" shows "f64_to_int (f64_of_int i) = Some i"
proof (cases "i = 0")
  case True
  then show ?thesis by (simp add: f64_of_int_def f64_round_def f64_finish_def f64_to_int_def)
next
  case False
  define m where "m = nat \<bar>i\<bar>"
  have m: "0 < m" "m < 2 ^ 53" "bitlen m \<le> 53"
    using False assms bitlen_le_iff [of m 53] by (auto simp: m_def nat_less_iff)
  obtain m' e' where st: "strip2 m 0 = (m', e')" by (cases "strip2 m 0") auto
  from strip2_value [OF st m(1)] obtain k where k: "e' = int k" "m = m' * 2 ^ k" by auto
  have "f64_of_int i = Fin (i < 0) m' (int k)"
    using m st k by (simp add: f64_of_int_def m_def [symmetric] f64_round_exact f64_finish_def)
  moreover have "int m' * 2 ^ k = \<bar>i\<bar>"
    using k(2) by (metis m_def abs_ge_zero nat_0_le of_nat_mult of_nat_numeral of_nat_power)
  ultimately show ?thesis
    using k m(1) by (auto simp: f64_to_int_def signed_at_def)
qed

end
