(* ===== verification/GoFmt.thy ===== *)
theory GoFmt
  imports Prelude
begin

section \<open>The fmt verbs the receiver uses\<close>

text \<open>
  Attribute values, log bodies and the keys of the duplicate checks are built with
  \<open>fmt.Sprintf\<close>. This theory models the verbs that occur: \<open>%d\<close> on unsigned integers,
  \<open>%X\<close> and the zero-padded \<open>%02X\<close>, \<open>%03X\<close>, \<open>%04X\<close>, and \<open>%X\<close> on a byte slice; strings
  are byte strings. The lemmas show that each rendering can be read back, so distinct values
  have distinct renderings.
\<close>

subsection \<open>Digits\<close>

fun nat_digits :: "nat \<Rightarrow> nat \<Rightarrow> nat list" where
  "nat_digits b n = (if b < 2 \<or> n < b then [n] else nat_digits b (n div b) @ [n mod b])"

declare nat_digits.simps [simp del]

definition hexdig :: "nat \<Rightarrow> char" where
  "hexdig d = ''0123456789ABCDEF'' ! d"

definition fmt_d :: "nat \<Rightarrow> string" where
  "fmt_d n = map hexdig (nat_digits 10 n)"

definition fmt_X :: "nat \<Rightarrow> string" where
  "fmt_X n = map hexdig (nat_digits 16 n)"

text \<open>\<open>%0wX\<close>: at least \<open>w\<close> digits, padded with zeros on the left.\<close>

definition fmt_0X :: "nat \<Rightarrow> nat \<Rightarrow> string" where
  "fmt_0X w n = replicate (w - length (fmt_X n)) (CHR ''0'') @ fmt_X n"

text \<open>\<open>%X\<close> on a byte slice: two digits per byte.\<close>

definition fmt_bytes_X :: "bytes \<Rightarrow> string" where
  "fmt_bytes_X bs = concat (map (\<lambda>b. fmt_0X 2 (unat b)) bs)"

text \<open>A byte slice converted to a Go string has the same bytes.\<close>

definition go_string :: "bytes \<Rightarrow> string" where
  "go_string bs = map (\<lambda>b. char_of (unat b)) bs"

subsection \<open>Reading digits back\<close>

definition hexval :: "char \<Rightarrow> nat" where
  "hexval c = (if (of_char c :: nat) < 58 then of_char c - 48 else of_char c - 55)"

definition unbase :: "nat \<Rightarrow> string \<Rightarrow> nat" where
  "unbase b s = foldl (\<lambda>a c. b * a + hexval c) 0 s"

lemma hexdig_cases: "\<forall>d < 16. hexval (hexdig d) = d \<and> hexdig d \<noteq> CHR '':''"
  by (simp add: hexdig_def hexval_def numeral_eq_Suc All_less_Suc)

lemma hexval_hexdig [simp]: "d < 16 \<Longrightarrow> hexval (hexdig d) = d"
  using hexdig_cases by blast

lemma nat_digits_bound: "2 \<le> b \<Longrightarrow> d \<in> set (nat_digits b n) \<Longrightarrow> d < b"
proof (induction b n rule: nat_digits.induct)
  case (1 b n)
  show ?case
  proof (cases "n < b")
    case True
    with "1.prems" show ?thesis by (simp add: nat_digits.simps [of b n])
  next
    case False
    with 1 show ?thesis by (auto simp: nat_digits.simps [of b n])
  qed
qed

lemma nat_digits_nonempty [simp]: "nat_digits b n \<noteq> []"
  by (subst nat_digits.simps) simp

lemma foldl_digits: "2 \<le> b \<Longrightarrow> foldl (\<lambda>a d. b * a + d) 0 (nat_digits b n) = n"
proof (induction b n rule: nat_digits.induct)
  case (1 b n)
  show ?case
  proof (cases "n < b")
    case True
    then show ?thesis by (simp add: nat_digits.simps [of b n])
  next
    case False
    with 1 have "foldl (\<lambda>a d. b * a + d) 0 (nat_digits b (n div b)) = n div b" by simp
    with False "1.prems" show ?thesis by (simp add: nat_digits.simps [of b n])
  qed
qed

lemma unbase_map: "\<forall>d \<in> set ds. d < 16 \<Longrightarrow> foldl (\<lambda>a c. b * a + hexval c) k (map hexdig ds) = foldl (\<lambda>a d. b * a + d) k ds"
  by (induction ds arbitrary: k) auto

lemma unbase_fmt_d [simp]: "unbase 10 (fmt_d n) = n"
proof -
  have "\<forall>d \<in> set (nat_digits 10 n). d < 16"
    using nat_digits_bound [of 10 _ n] by fastforce
  then show ?thesis by (simp add: unbase_def fmt_d_def unbase_map foldl_digits)
qed

lemma unbase_fmt_X [simp]: "unbase 16 (fmt_X n) = n"
proof -
  have "\<forall>d \<in> set (nat_digits 16 n). d < 16"
    using nat_digits_bound [of 16 _ n] by fastforce
  then show ?thesis by (simp add: unbase_def fmt_X_def unbase_map foldl_digits)
qed

lemma unbase_zeros: "unbase b (replicate k (CHR ''0'') @ s) = unbase b s"
  by (induction k) (simp_all add: unbase_def hexval_def)

lemma unbase_fmt_0X [simp]: "unbase 16 (fmt_0X w n) = n"
  by (simp add: fmt_0X_def unbase_zeros)

lemma fmt_d_inj [simp]: "fmt_d m = fmt_d n \<longleftrightarrow> m = n"
  using unbase_fmt_d by metis

lemma fmt_X_inj [simp]: "fmt_X m = fmt_X n \<longleftrightarrow> m = n"
  using unbase_fmt_X by metis

lemma fmt_0X_inj [simp]: "fmt_0X w m = fmt_0X w n \<longleftrightarrow> m = n"
  using unbase_fmt_0X by metis

subsection \<open>No separator inside a rendering\<close>

lemma map_hexdig_no_colon:
  assumes "2 \<le> b" "b \<le> 16" shows "CHR '':'' \<notin> set (map hexdig (nat_digits b n))"
proof
  assume "CHR '':'' \<in> set (map hexdig (nat_digits b n))"
  then obtain d where "d \<in> set (nat_digits b n)" "hexdig d = CHR '':''" by auto
  with nat_digits_bound [of b d n] assms hexdig_cases show False by auto
qed

lemma no_colon [simp]:
  "CHR '':'' \<notin> set (fmt_d n)" "CHR '':'' \<notin> set (fmt_X n)" "CHR '':'' \<notin> set (fmt_0X w n)"
  using map_hexdig_no_colon [of 10 n] map_hexdig_no_colon [of 16 n]
  by (auto simp: fmt_d_def fmt_X_def fmt_0X_def)

text \<open>Two texts that agree up to their first separator agree before and after it.\<close>

lemma split_at_sep:
  "c \<notin> set xs \<Longrightarrow> c \<notin> set ys \<Longrightarrow> xs @ c # us = ys @ c # vs \<longleftrightarrow> xs = ys \<and> us = vs"
proof (induction xs arbitrary: ys)
  case Nil
  then show ?case by (cases ys) auto
next
  case (Cons x xs)
  then show ?case by (cases ys) auto
qed

subsection \<open>Byte slices\<close>

lemma length_nat_digits_byte: "n < 256 \<Longrightarrow> length (nat_digits 16 n) \<le> 2"
  by (simp add: nat_digits.simps [of 16 n] nat_digits.simps [of 16 "n div 16"] less_mult_imp_div_less)

lemma length_fmt_02X [simp]: "n < 256 \<Longrightarrow> length (fmt_0X 2 n) = 2"
  using length_nat_digits_byte [of n] by (simp add: fmt_0X_def fmt_X_def)

fun unhex_bytes :: "string \<Rightarrow> bytes" where
  "unhex_bytes (c # d # s) = of_nat (unbase 16 [c, d]) # unhex_bytes s"
| "unhex_bytes s = []"

lemma unhex_fmt_bytes [simp]: "unhex_bytes (fmt_bytes_X bs) = bs"
proof (induction bs)
  case (Cons b bs)
  obtain c d where cd: "fmt_0X 2 (unat b) = [c, d]"
    using length_fmt_02X [of "unat b"]
    by (metis One_nat_def Suc_1 length_0_conv length_Suc_conv unat_u8_less)
  have "of_nat (unbase 16 [c, d]) = b"
    using unbase_fmt_0X [of 2 "unat b"] cd by simp
  with Cons cd show ?case by (simp add: fmt_bytes_X_def)
qed (simp add: fmt_bytes_X_def)

lemma fmt_bytes_X_inj [simp]: "fmt_bytes_X xs = fmt_bytes_X ys \<longleftrightarrow> xs = ys"
  using unhex_fmt_bytes by metis

lemma length_fmt_bytes_X: "length (fmt_bytes_X bs) = 2 * length bs"
  by (induction bs) (simp_all add: fmt_bytes_X_def)

lemma go_string_inj [simp]: "go_string xs = go_string ys \<longleftrightarrow> xs = ys"
proof
  assume "go_string xs = go_string ys"
  then have "map (\<lambda>c. of_nat (of_char c)) (go_string xs) = (map (\<lambda>c. of_nat (of_char c)) (go_string ys) :: bytes)"
    by simp
  then show "xs = ys" by (simp add: go_string_def comp_def)
qed simp

end
