(* ===== verification/Codec.thy ===== *)
theory Codec
  imports GoFloat GoFmt
begin

unbundle bit_operations_syntax

section \<open>internal/codec: decoding CANopen data types\<close>

text \<open>
  Models internal/codec/codec.go: \<open>DataType\<close>, \<open>Value\<close>, \<open>Decode\<close>, \<open>extractBits\<close>,
  \<open>ApplyScale\<close> and \<open>BodyValue\<close>. \<open>DataType\<close> is a Go string, so a configuration can hold
  any other text; those are \<open>OtherType\<close>. \<open>int\<close> is the 64-bit Go int, with its wrap-around.
  A call that may panic returns None for the panic; otherwise a sum of the Go error and
  the value.
\<close>

datatype DataType =
  Bool | Int8 | Int16 | Int32 | Int64 | Uint8 | Uint16 | Uint32 | Uint64
| Float32 | Float64 | Bytes | VisibleString | OtherType string

definition BitWidth :: "DataType \<Rightarrow> int" where
  "BitWidth t = (case t of
     Bool \<Rightarrow> 1
   | Int8 \<Rightarrow> 8 | Uint8 \<Rightarrow> 8
   | Int16 \<Rightarrow> 16 | Uint16 \<Rightarrow> 16
   | Int32 \<Rightarrow> 32 | Uint32 \<Rightarrow> 32 | Float32 \<Rightarrow> 32
   | Int64 \<Rightarrow> 64 | Uint64 \<Rightarrow> 64 | Float64 \<Rightarrow> 64
   | _ \<Rightarrow> 0)"

definition Valid :: "DataType \<Rightarrow> bool" where
  "Valid t = (case t of OtherType _ \<Rightarrow> False | _ \<Rightarrow> True)"

text \<open>The struct \<open>Value\<close>; a field the constructor expression does not set has its zero value.\<close>

record Value =
  vType :: DataType
  vBool :: bool
  vInt :: int
  vUint :: u64
  vFloat :: float64
  vBytes :: bytes
  vString :: string

definition zeroValue :: "DataType \<Rightarrow> Value" where
  "zeroValue t = \<lparr>vType = t, vBool = False, vInt = 0, vUint = 0, vFloat = 0, vBytes = [], vString = []\<rparr>"

definition AsFloat :: "Value \<Rightarrow> float64" where
  "AsFloat v = (case vType v of
     Bool \<Rightarrow> (if vBool v then 1 else 0)
   | Int8 \<Rightarrow> f64_of_int (vInt v) | Int16 \<Rightarrow> f64_of_int (vInt v)
   | Int32 \<Rightarrow> f64_of_int (vInt v) | Int64 \<Rightarrow> f64_of_int (vInt v)
   | Uint8 \<Rightarrow> f64_of_int (uint (vUint v)) | Uint16 \<Rightarrow> f64_of_int (uint (vUint v))
   | Uint32 \<Rightarrow> f64_of_int (uint (vUint v)) | Uint64 \<Rightarrow> f64_of_int (uint (vUint v))
   | Float32 \<Rightarrow> vFloat v | Float64 \<Rightarrow> vFloat v
   | _ \<Rightarrow> 0)"

datatype decode_error =
  UnsupportedType DataType
| Misaligned DataType int
| ByteLenNotPositive DataType
| ByteRangeOutOfBounds int int nat
| NegativeBitOffset int
| ZeroWidth
| FieldOutOfBounds int int nat
| BitsOutOfBounds int int int

subsection \<open>extractBits\<close>

text \<open>\<open>data[i]\<close> and \<open>data[lo:hi]\<close>: None is the panic on an index out of range.\<close>

definition at_index :: "bytes \<Rightarrow> int \<Rightarrow> u8 option" where
  "at_index data i = (if 0 \<le> i \<and> i < int (length data) then Some (data ! nat i) else None)"

definition slice :: "bytes \<Rightarrow> int \<Rightarrow> int \<Rightarrow> bytes option" where
  "slice data lo hi =
     (if 0 \<le> lo \<and> lo \<le> hi \<and> hi \<le> int (length data)
      then Some (take (nat (hi - lo)) (drop (nat lo) data)) else None)"

text \<open>\<open>binary.LittleEndian.Uint16/32/64\<close>, widened to uint64.\<close>

definition le_uint :: "bytes \<Rightarrow> u64" where
  "le_uint bs = foldr (\<lambda>b acc. ucast b OR push_bit 8 acc) bs 0"

text \<open>The loop of the general bit-level path: \<open>n\<close> bits are left, bit \<open>i\<close> is next.\<close>

fun bitLoop :: "bytes \<Rightarrow> int \<Rightarrow> nat \<Rightarrow> nat \<Rightarrow> u64 \<Rightarrow> u64 option" where
  "bitLoop data bitOffset i 0 result = Some result"
| "bitLoop data bitOffset i (Suc n) result =
     (let bitPos = wrap64 (bitOffset + int i);
          byteIdx = bitPos sdiv 8;
          bitIdx = nat (bitPos smod 8)
      in case at_index data byteIdx of
           None \<Rightarrow> None
         | Some b \<Rightarrow>
             bitLoop data bitOffset (Suc i) n
               (result OR push_bit i (ucast (drop_bit bitIdx b AND 1))))"

definition extractBitsGeneral :: "bytes \<Rightarrow> int \<Rightarrow> int \<Rightarrow> (decode_error + u64) option" where
  "extractBitsGeneral data bitOffset width =
     (let totalBits = int (length data) * 8
      in if wrap64 (bitOffset + width) > totalBits
         then Some (Inl (BitsOutOfBounds bitOffset width totalBits))
         else map_option Inr (bitLoop data bitOffset 0 (nat width) 0))"

definition extractBits :: "bytes \<Rightarrow> int \<Rightarrow> int \<Rightarrow> (decode_error + u64) option" where
  "extractBits data bitOffset width =
     (if bitOffset < 0 then Some (Inl (NegativeBitOffset bitOffset))
      else if width = 0 then Some (Inl ZeroWidth)
      else if bitOffset smod 8 = 0 then
        (let start = bitOffset sdiv 8; stop = wrap64 (start + width sdiv 8)
         in if start < 0 \<or> stop > int (length data)
            then Some (Inl (FieldOutOfBounds start stop (length data)))
            else if width = 8 then map_option (\<lambda>b. Inr (ucast b)) (at_index data start)
            else if width = 16 \<or> width = 32 \<or> width = 64
            then map_option (\<lambda>bs. Inr (le_uint bs)) (slice data start stop)
            else extractBitsGeneral data bitOffset width)
      else extractBitsGeneral data bitOffset width)"

subsection \<open>Decode\<close>

definition decodeBytes :: "bytes \<Rightarrow> DataType \<Rightarrow> int \<Rightarrow> int \<Rightarrow> (decode_error + Value) option" where
  "decodeBytes data dataType bitOffset byteLen =
     (if bitOffset smod 8 \<noteq> 0 then Some (Inl (Misaligned dataType bitOffset))
      else let start = bitOffset sdiv 8; stop = wrap64 (start + byteLen)
      in if byteLen \<le> 0 then Some (Inl (ByteLenNotPositive dataType))
         else if start < 0 \<or> stop > int (length data)
         then Some (Inl (ByteRangeOutOfBounds start stop (length data)))
         else map_option
           (\<lambda>raw. Inr (if dataType = VisibleString
              then (zeroValue dataType)\<lparr>vBytes := raw, vString := go_string raw\<rparr>
              else (zeroValue dataType)\<lparr>vBytes := raw\<rparr>))
           (slice data start stop))"

definition decodeRaw :: "DataType \<Rightarrow> u64 \<Rightarrow> decode_error + Value" where
  "decodeRaw dataType raw = (case dataType of
     Bool \<Rightarrow> Inr ((zeroValue Bool)\<lparr>vBool := (raw AND 1 \<noteq> 0)\<rparr>)
   | Int8 \<Rightarrow> Inr ((zeroValue Int8)\<lparr>vInt := sint (ucast raw :: u8)\<rparr>)
   | Int16 \<Rightarrow> Inr ((zeroValue Int16)\<lparr>vInt := sint (ucast raw :: u16)\<rparr>)
   | Int32 \<Rightarrow> Inr ((zeroValue Int32)\<lparr>vInt := sint (ucast raw :: u32)\<rparr>)
   | Int64 \<Rightarrow> Inr ((zeroValue Int64)\<lparr>vInt := sint raw\<rparr>)
   | Uint8 \<Rightarrow> Inr ((zeroValue Uint8)\<lparr>vUint := raw\<rparr>)
   | Uint16 \<Rightarrow> Inr ((zeroValue Uint16)\<lparr>vUint := raw\<rparr>)
   | Uint32 \<Rightarrow> Inr ((zeroValue Uint32)\<lparr>vUint := raw\<rparr>)
   | Uint64 \<Rightarrow> Inr ((zeroValue Uint64)\<lparr>vUint := raw\<rparr>)
   | Float32 \<Rightarrow> Inr ((zeroValue Float32)\<lparr>vFloat := f64_of_f32_bits (ucast raw)\<rparr>)
   | Float64 \<Rightarrow> Inr ((zeroValue Float64)\<lparr>vFloat := f64_of_bits raw\<rparr>)
   | t \<Rightarrow> Inl (UnsupportedType t))"

definition Decode :: "bytes \<Rightarrow> DataType \<Rightarrow> int \<Rightarrow> int \<Rightarrow> (decode_error + Value) option" where
  "Decode data dataType bitOffset byteLen =
     (if \<not> Valid dataType then Some (Inl (UnsupportedType dataType))
      else if dataType = Bytes \<or> dataType = VisibleString
      then decodeBytes data dataType bitOffset byteLen
      else case extractBits data bitOffset (BitWidth dataType) of
        None \<Rightarrow> None
      | Some (Inl err) \<Rightarrow> Some (Inl err)
      | Some (Inr raw) \<Rightarrow> Some (decodeRaw dataType raw))"

subsection \<open>ApplyScale and BodyValue\<close>

definition ApplyScale :: "Value \<Rightarrow> float64 \<Rightarrow> float64 \<Rightarrow> float64" where
  "ApplyScale v scale offset =
     (let scale = (if f64_eq scale 0 then 1 else scale) in AsFloat v * scale + offset)"

text \<open>
  A Go value of type \<open>any\<close>: what static attributes may hold after YAML decoding, and what the
  emitters put into log bodies. \<open>AnyOther\<close> stands for any dynamic type none of the code's
  type switches name.
\<close>

datatype any = AnyString string | AnyBool bool | AnyInt int | AnyInt64 int | AnyUint64 u64
  | AnyFloat float64 | AnyOther string

definition BodyValue :: "Value \<Rightarrow> float64 \<Rightarrow> float64 \<Rightarrow> any" where
  "BodyValue v scale offset = (case vType v of
     Bytes \<Rightarrow> AnyString (fmt_bytes_X (vBytes v))
   | VisibleString \<Rightarrow> AnyString (vString v)
   | _ \<Rightarrow> AnyFloat (ApplyScale v scale offset))"

section \<open>What the decoder computes\<close>

text \<open>
  Reference reading of a payload: the bytes form one little-endian number, and a field is
  \<open>w\<close> of its bits from bit \<open>off\<close>. Both paths of \<open>extractBits\<close> return exactly that.
\<close>

definition data_bit :: "bytes \<Rightarrow> nat \<Rightarrow> bool" where
  "data_bit data k = bit (data ! (k div 8)) (k mod 8)"

definition field_nat :: "bytes \<Rightarrow> nat \<Rightarrow> nat \<Rightarrow> nat" where
  "field_nat data off w = le_nat data div 2 ^ off mod 2 ^ w"

lemma bit_le_nat: "bit (le_nat data) k \<longleftrightarrow> k < 8 * length data \<and> data_bit data k"
proof (induction data arbitrary: k)
  case (Cons b bs)
  have lo: "take_bit 8 (le_nat (b # bs)) = unat b"
    by (simp add: take_bit_eq_mod)
  have hi: "drop_bit 8 (le_nat (b # bs)) = le_nat bs"
    by (simp add: drop_bit_eq_div)
  show ?case
  proof (cases "k < 8")
    case True
    then have "bit (le_nat (b # bs)) k \<longleftrightarrow> bit (take_bit 8 (le_nat (b # bs))) k"
      by (simp add: bit_take_bit_iff del: le_nat.simps)
    then show ?thesis
      using True unfolding lo by (simp add: data_bit_def bit_unsigned_iff)
  next
    case False
    then have "bit (le_nat (b # bs)) k \<longleftrightarrow> bit (drop_bit 8 (le_nat (b # bs))) (k - 8)"
      by (simp add: bit_drop_bit_eq del: le_nat.simps)
    also have "\<dots> \<longleftrightarrow> k - 8 < 8 * length bs \<and> data_bit bs (k - 8)"
      unfolding hi by (rule Cons.IH)
    finally show ?thesis
      using False by (auto simp: data_bit_def nth_Cons' le_div_geq le_mod_geq)
  qed
qed (simp add: data_bit_def)

lemma bit_field_nat:
  "bit (field_nat data off w) j \<longleftrightarrow> j < w \<and> off + j < 8 * length data \<and> data_bit data (off + j)"
proof -
  have "field_nat data off w = take_bit w (drop_bit off (le_nat data))"
    by (simp add: field_nat_def take_bit_eq_mod drop_bit_eq_div)
  then show ?thesis
    by (simp add: bit_take_bit_iff bit_drop_bit_eq bit_le_nat)
qed

lemma at_index_bit:
  assumes "k < 8 * length data"
  shows "at_index data (int k sdiv 8) = Some (data ! (k div 8))" and "nat (int k smod 8) = k mod 8"
proof -
  have "k div 8 < length data" using assms by (simp add: div_less_iff_less_mult mult.commute)
  then show "at_index data (int k sdiv 8) = Some (data ! (k div 8))"
    by (simp add: at_index_def zdiv_int [symmetric, of k 8, simplified])
qed (simp add: zmod_int [symmetric, of k 8, simplified])

lemma bitLoop_bits:
  assumes "off + i + n \<le> 8 * length data" "8 * length data < 2 ^ 63" "i + n \<le> 64"
  shows "\<exists>r. bitLoop data (int off) i n res = Some r \<and>
     (\<forall>j < 64. bit r j \<longleftrightarrow> bit res j \<or> i \<le> j \<and> j < i + n \<and> data_bit data (off + j))"
  using assms
proof (induction n arbitrary: i res)
  case (Suc n)
  have k: "off + i < 8 * length data" using Suc.prems by simp
  have wrap: "wrap64 (int off + int i) = int (off + i)"
    using Suc.prems by simp
  let ?b = "push_bit i (ucast (drop_bit ((off + i) mod 8) (data ! ((off + i) div 8)) AND 1)) :: u64"
  have step: "bitLoop data (int off) i (Suc n) res = bitLoop data (int off) (Suc i) n (res OR ?b)"
    by (simp only: bitLoop.simps wrap Let_def at_index_bit [OF k] option.case)
  have bit_b: "bit ?b j \<longleftrightarrow> j = i \<and> data_bit data (off + i)" if "j < 64" for j
    using that Suc.prems by (auto simp: bit_push_bit_iff bit_ucast_iff bit_and_iff bit_drop_bit_eq bit_1_iff data_bit_def)
  obtain r where r: "bitLoop data (int off) (Suc i) n (res OR ?b) = Some r"
    "\<forall>j < 64. bit r j \<longleftrightarrow> bit (res OR ?b) j \<or> Suc i \<le> j \<and> j < Suc i + n \<and> data_bit data (off + j)"
    using Suc.IH [of "Suc i" "res OR ?b"] Suc.prems by auto
  have "bit r j \<longleftrightarrow> bit res j \<or> i \<le> j \<and> j < i + Suc n \<and> data_bit data (off + j)" if "j < 64" for j
    using r(2) bit_b [OF that] that by (auto simp: bit_or_iff Suc_le_eq le_less)
  with r(1) step show ?case by auto
qed auto

lemma bitLoop_field:
  assumes "off + n \<le> 8 * length data" "8 * length data < 2 ^ 63" "n \<le> 64"
  shows "bitLoop data (int off) 0 n 0 = Some (of_nat (field_nat data off n))"
proof -
  obtain r where r: "bitLoop data (int off) 0 n 0 = Some r"
    "\<forall>j < 64. bit r j \<longleftrightarrow> bit (0 :: u64) j \<or> 0 \<le> j \<and> j < 0 + n \<and> data_bit data (off + j)"
    using bitLoop_bits [of off 0 n data 0] assms by auto
  have "r = of_nat (field_nat data off n)"
    by (rule bit_word_eqI) (use r(2) assms in \<open>auto simp: bit_of_nat_iff bit_field_nat\<close>)
  with r(1) show ?thesis by simp
qed

lemma ucast_u8_nat: "(ucast (b :: u8) :: u64) = of_nat (unat b)"
  by simp

lemma le_uint_eq: "le_uint bs = of_nat (le_nat bs)"
proof (induction bs)
  case (Cons b bs)
  have "le_uint (b # bs) = ucast b OR push_bit 8 (le_uint bs)"
    by (simp add: le_uint_def)
  also have "\<dots> = ucast b + push_bit 8 (le_uint bs)"
    by (rule disjunctive_add_eq_or [symmetric], rule bit_word_eqI)
      (auto simp: bit_simps dest: bit_imp_le_length)
  also have "\<dots> = of_nat (unat b) + 256 * of_nat (le_nat bs)"
    using Cons.IH by (simp add: push_bit_eq_mult unsigned_of_nat)
  finally show ?case by simp
qed (simp add: le_uint_def)

lemma slice_field:
  assumes "8 * k + 8 * n \<le> 8 * length data"
  shows "slice data (int k) (int k + int n) = Some (take n (drop k data))"
    and "le_nat (take n (drop k data)) = field_nat data (8 * k) (8 * n)"
  using assms
  by (simp_all add: slice_def field_nat_def le_nat_take le_nat_drop power_mult)

text \<open>The widths of the numeric types.\<close>

lemma extractBits_ok:
  assumes "w \<in> {1, 8, 16, 32, 64}" "off + w \<le> 8 * length data" "8 * length data < 2 ^ 63"
  shows "extractBits data (int off) (int w) = Some (Inr (of_nat (field_nat data off w)))"
proof -
  have gen: "extractBitsGeneral data (int off) (int w) = Some (Inr (of_nat (field_nat data off w)))"
    using assms bitLoop_field [of off w data] by (auto simp: extractBitsGeneral_def)
  show ?thesis
  proof (cases "off mod 8 = 0 \<and> w \<noteq> 1")
    case False
    have "int off smod 8 = 0 \<longleftrightarrow> off mod 8 = 0"
      by (simp add: zmod_int [symmetric, of off 8, simplified])
    moreover have "int off sdiv 8 = int (off div 8)"
      by (simp add: zdiv_int)
    ultimately show ?thesis
      using False gen assms by (auto simp: extractBits_def Let_def)
  next
    case True
    then obtain k where k: "off = 8 * k" by (auto simp: mod_eq_0_iff_dvd)
    from True assms(1) obtain n where n: "w = 8 * n" "n \<in> {1, 2, 4, 8}" by auto
    have bound: "8 * k + 8 * n \<le> 8 * length data" using assms k n by simp
    have aligned: "int off smod 8 = 0" "int off sdiv 8 = int k" "int w sdiv 8 = int n"
      using k n by simp_all
    have stop: "wrap64 (int k + int n) = int k + int n"
      using bound assms(3) by simp
    note sl = slice_field [OF bound]
    show ?thesis
    proof (cases "n = 1")
      case True
      then have "le_nat (take 1 (drop k data)) = unat (data ! k)"
        using bound by (simp add: take_Suc_conv_app_nth hd_drop_conv_nth take_Suc)
      then have "of_nat (field_nat data off w) = (ucast (data ! k) :: u64)"
        using sl(2) True k n by (simp add: ucast_u8_nat)
      then show ?thesis
        using True k n bound stop aligned by (simp add: extractBits_def at_index_def)
    next
      case False
      then have "int w = 16 \<or> int w = 32 \<or> int w = 64" "int w \<noteq> 8" using n by auto
      then show ?thesis
        using k n bound stop aligned sl
        by (auto simp: extractBits_def le_uint_eq)
    qed
  qed
qed

lemma extractBits_error:
  assumes "w \<in> {1, 8, 16, 32, 64}" "off + w > 8 * length data" "off + w < 2 ^ 63"
  shows "\<exists>e. extractBits data (int off) (int w) = Some (Inl e)"
proof -
  have gen: "\<exists>e. extractBitsGeneral data (int off) (int w) = Some (Inl e)"
    using assms by (auto simp: extractBitsGeneral_def)
  show ?thesis
  proof (cases "off mod 8 = 0 \<and> w \<noteq> 1")
    case False
    have "int off smod 8 = 0 \<longleftrightarrow> off mod 8 = 0"
      by (simp add: zmod_int [symmetric, of off 8, simplified])
    then show ?thesis
      using False gen assms by (auto simp: extractBits_def Let_def)
  next
    case True
    then obtain k where k: "off = 8 * k" by (auto simp: mod_eq_0_iff_dvd)
    from True assms(1) obtain n where n: "w = 8 * n" "n \<in> {1, 2, 4, 8}" by auto
    have "wrap64 (int k + int n) = int k + int n" "length data < k + n"
      using assms k n by simp_all
    then show ?thesis
      using k n by (auto simp: extractBits_def Let_def)
  qed
qed

text \<open>Only an offset so large that the end of the field overflows int escapes the bounds check.\<close>

lemma extractBits_overflow:
  assumes "w \<in> {1, 8, 16, 32, 64}" "0 \<le> off" "off < 2 ^ 63" "off + int w \<ge> 2 ^ 63" "8 * length data < 2 ^ 62"
  shows "extractBits data off (int w) = None \<longleftrightarrow> off mod 8 \<noteq> 0"
proof -
  have wr: "wrap64 (off + int w) < 0"
    using assms by (subst wrap64_overflow) auto
  have far: "int (length data) < off div 8" using assms by auto
  obtain m where m: "w = Suc m" using assms(1) by (cases w) auto
  have "wrap64 off sdiv 8 = off div 8" using assms by simp
  then have "bitLoop data off 0 w 0 = None"
    using far m assms by (simp add: at_index_def)
  then have gen: "extractBitsGeneral data off (int w) = None"
    using wr by (simp add: extractBitsGeneral_def)
  have "wrap64 (off div 8 + int w div 8) = off div 8 + int w div 8"
    using assms by (intro wrap64_id) auto
  then show ?thesis
    using gen far assms by (auto simp: extractBits_def Let_def)
qed

definition twos_complement :: "nat \<Rightarrow> nat \<Rightarrow> int" where
  "twos_complement w x = (if x < 2 ^ (w - 1) then int x else int x - 2 ^ w)"

definition field_value :: "DataType \<Rightarrow> nat \<Rightarrow> int" where
  "field_value t x = (case t of
     Int8 \<Rightarrow> twos_complement 8 x | Int16 \<Rightarrow> twos_complement 16 x
   | Int32 \<Rightarrow> twos_complement 32 x | Int64 \<Rightarrow> twos_complement 64 x
   | _ \<Rightarrow> int x)"

definition integer_type :: "DataType \<Rightarrow> bool" where
  "integer_type t \<longleftrightarrow> t \<in> {Bool, Int8, Int16, Int32, Int64, Uint8, Uint16, Uint32, Uint64}"

lemma sint_of_field:
  assumes "LENGTH('a :: len) = Suc n" "x < 2 ^ Suc n"
  shows "sint (of_nat x :: 'a word) = twos_complement (Suc n) x"
proof -
  have "sint (of_nat x :: 'a word) = signed_take_bit n (int x)"
    using assms(1) by (simp add: signed_of_nat)
  also have "\<dots> = take_bit (Suc n) (int x) - 2 ^ Suc n * of_bool (bit (int x) n)"
    by (rule signed_take_bit_eq_take_bit_minus)
  also have "take_bit (Suc n) (int x) = int x"
    using assms(2) by (intro take_bit_int_eq_self) (simp_all add: less_imp_of_nat_less [of x "2 ^ Suc n", simplified])
  also have "bit (int x) n \<longleftrightarrow> \<not> x < 2 ^ n"
  proof -
    have "x div 2 ^ n < 2" using assms(2) by (simp add: div_less_iff_less_mult)
    then have "odd (x div 2 ^ n) \<longleftrightarrow> x div 2 ^ n \<noteq> 0" by (auto simp: less_2_cases_iff)
    moreover have "bit (int x) n \<longleftrightarrow> odd (x div 2 ^ n)"
      by (simp add: bit_iff_odd zdiv_int [symmetric, of x "2 ^ n", simplified])
    ultimately show ?thesis by (simp add: div_eq_0_iff)
  qed
  finally show ?thesis by (simp add: twos_complement_def)
qed

lemma field_nat_less [simp]: "field_nat data off w < 2 ^ w"
  by (simp add: field_nat_def)

lemma Decode_numeric:
  assumes "BitWidth t \<noteq> 0" "int off + BitWidth t \<le> 8 * int (length data)" "8 * length data < 2 ^ 63"
  shows "Decode data t (int off) byteLen = Some (decodeRaw t (of_nat (field_nat data off (nat (BitWidth t)))))"
proof -
  obtain w where w: "BitWidth t = int w" "w \<in> {1, 8, 16, 32, 64}"
    using assms(1) by (cases t; simp add: BitWidth_def)
  have t: "Valid t" "t \<noteq> Bytes" "t \<noteq> VisibleString"
    using assms(1) by (cases t; simp add: BitWidth_def Valid_def)+
  have "extractBits data (int off) (int w) = Some (Inr (of_nat (field_nat data off w)))"
    using extractBits_ok [OF w(2)] assms(2,3) w(1) by simp
  then show ?thesis using t w(1) by (simp add: Decode_def)
qed

lemma AsFloat_decodeRaw:
  assumes "integer_type t" "x < 2 ^ nat (BitWidth t)"
  shows "\<exists>v. decodeRaw t (of_nat x) = Inr v \<and> vType v = t \<and> AsFloat v = f64_of_int (field_value t x)"
proof -
  note sint = sint_of_field [where ?'a = 8 and n = 7] sint_of_field [where ?'a = 16 and n = 15]
    sint_of_field [where ?'a = 32 and n = 31] sint_of_field [where ?'a = 64 and n = 63]
  have one: "f64_of_int 1 = 1" "f64_of_int 0 = 0"
    by (simp_all add: f64_of_int_def f64_round_def f64_finish_def float64_class_defs)
  show ?thesis
    using assms one
    by (cases t)
      (auto simp: integer_type_def decodeRaw_def zeroValue_def AsFloat_def field_value_def BitWidth_def sint
        unsigned_of_nat take_bit_nat_eq_self less_2_cases_iff)
qed

subsection \<open>When a decode panics\<close>

lemma negative_aligned: "(off :: int) < 0 \<Longrightarrow> off smod 8 = 0 \<Longrightarrow> off sdiv 8 < 0"
proof -
  assume neg: "off < 0" and "off smod 8 = 0"
  then have "(- off) mod 8 = 0" by (simp add: signed_modulo_int_def)
  then obtain k where "- off = 8 * k" by (metis dvd_def mod_eq_0_iff_dvd)
  with neg show ?thesis by (simp add: signed_divide_int_def)
qed

lemma decodeBytes_nonneg:
  assumes "0 \<le> off" "off < 2 ^ 63" "byteLen < 2 ^ 63" "8 * length data < 2 ^ 62"
  shows "decodeBytes data t off byteLen = None \<longleftrightarrow>
     off mod 8 = 0 \<and> 0 < byteLen \<and> 2 ^ 63 \<le> off div 8 + byteLen"
proof (cases "off mod 8 = 0 \<and> 0 < byteLen")
  case True
  show ?thesis
  proof (cases "2 ^ 63 \<le> off div 8 + byteLen")
    case True
    then have "wrap64 (off div 8 + byteLen) < 0"
      using assms by (subst wrap64_overflow) auto
    then show ?thesis
      using True \<open>off mod 8 = 0 \<and> 0 < byteLen\<close> assms by (auto simp: decodeBytes_def slice_def)
  next
    case False
    then show ?thesis
      using \<open>off mod 8 = 0 \<and> 0 < byteLen\<close> assms by (auto simp: decodeBytes_def slice_def Let_def)
  qed
qed (use assms in \<open>auto simp: decodeBytes_def Let_def\<close>)

lemma decodeBytes_negative: "off < 0 \<Longrightarrow> decodeBytes data t off byteLen \<noteq> None"
  using negative_aligned [of off] by (auto simp: decodeBytes_def Let_def)

definition byte_type :: "DataType \<Rightarrow> bool" where
  "byte_type t \<longleftrightarrow> t = Bytes \<or> t = VisibleString"

text \<open>The end of the field, in the unit its bounds check adds in, overflows int.\<close>

definition end_overflows :: "DataType \<Rightarrow> int \<Rightarrow> int \<Rightarrow> bool" where
  "end_overflows t off byteLen \<longleftrightarrow>
     (if byte_type t then off mod 8 = 0 \<and> 0 < byteLen \<and> 2 ^ 63 \<le> off div 8 + byteLen
      else off mod 8 \<noteq> 0 \<and> 2 ^ 63 \<le> off + BitWidth t)"

lemma Decode_None_iff:
  assumes "off < 2 ^ 63" "byteLen < 2 ^ 63" "8 * length data < 2 ^ 62"
  shows "Decode data t off byteLen = None \<longleftrightarrow> Valid t \<and> 0 \<le> off \<and> end_overflows t off byteLen"
proof (cases "byte_type t")
  case True
  then have "Valid t" "Decode data t off byteLen = decodeBytes data t off byteLen"
    by (auto simp: byte_type_def Decode_def Valid_def)
  then show ?thesis
    using True assms decodeBytes_nonneg [of off byteLen data t] decodeBytes_negative [of off data t byteLen]
    by (cases "off < 0") (auto simp: end_overflows_def)
next
  case False
  then have nb: "t \<noteq> Bytes" "t \<noteq> VisibleString" by (auto simp: byte_type_def)
  show ?thesis
  proof (cases "Valid t")
    case True
    then obtain w where w: "BitWidth t = int w" "w \<in> {1, 8, 16, 32, 64}"
      using nb by (cases t; simp add: BitWidth_def Valid_def)
    have dec: "Decode data t off byteLen = None \<longleftrightarrow> extractBits data off (int w) = None"
      using True nb w by (auto simp: Decode_def split: option.splits sum.splits)
    consider "off < 0" | "0 \<le> off" "2 ^ 63 \<le> off + int w" | "0 \<le> off" "off + int w < 2 ^ 63"
      by linarith
    then show ?thesis
    proof cases
      case 1
      then show ?thesis using dec by (simp add: extractBits_def)
    next
      case 2
      then show ?thesis
        using dec extractBits_overflow [of w off data] w assms False True
        by (auto simp: end_overflows_def)
    next
      case 3
      then obtain n where n: "off = int n" "n + w < 2 ^ 63" by (cases off) auto
      have "extractBits data (int n) (int w) \<noteq> None"
        using extractBits_ok [of w n data] extractBits_error [of w data n] w n assms
        by (cases "n + w \<le> 8 * length data") auto
      then show ?thesis using dec 3 n w False by (simp add: end_overflows_def)
    qed
  qed (simp add: Decode_def)
qed

subsection \<open>Scaling\<close>

lemma ApplyScale_unset:
  assumes "f64_wf (AsFloat v)" "AsFloat v \<noteq> Fin True 0 0" shows "ApplyScale v 0 0 = AsFloat v"
proof -
  have "f64_eq 0 0" by (simp add: zero_float64_def)
  then show ?thesis using assms by (simp add: ApplyScale_def f64_mul_one f64_add_zero)
qed

lemma field_value_small:
  "integer_type t \<Longrightarrow> BitWidth t \<le> 32 \<Longrightarrow> x < 2 ^ nat (BitWidth t) \<Longrightarrow> \<bar>field_value t x\<bar> < 2 ^ 53"
  by (cases t) (auto simp: integer_type_def BitWidth_def field_value_def twos_complement_def)

lemma Decode_integer:
  assumes "integer_type t" "int off + BitWidth t \<le> 8 * int (length data)" "8 * length data < 2 ^ 63"
  shows "\<exists>v. Decode data t (int off) byteLen = Some (Inr v) \<and> vType v = t \<and>
     AsFloat v = f64_of_int (field_value t (field_nat data off (nat (BitWidth t))))"
proof -
  have "BitWidth t \<noteq> 0" using assms(1) by (cases t) (auto simp: integer_type_def BitWidth_def)
  then show ?thesis
    using Decode_numeric [of t off data byteLen] AsFloat_decodeRaw [OF assms(1) field_nat_less] assms(2,3)
    by auto
qed

lemma Decode_exact_value:
  assumes "integer_type t" "int off + BitWidth t \<le> 8 * int (length data)" "8 * length data < 2 ^ 63"
  shows "\<exists>v. Decode data t (int off) byteLen = Some (Inr v) \<and> vType v = t \<and>
     ApplyScale v 0 0 = f64_of_int (field_value t (field_nat data off (nat (BitWidth t)))) \<and>
     (BitWidth t \<le> 32 \<longrightarrow>
        f64_to_int (ApplyScale v 0 0) = Some (field_value t (field_nat data off (nat (BitWidth t)))))"
proof -
  obtain v where v: "Decode data t (int off) byteLen = Some (Inr v)" "vType v = t"
    "AsFloat v = f64_of_int (field_value t (field_nat data off (nat (BitWidth t))))"
    using Decode_integer [OF assms] by blast
  have "ApplyScale v 0 0 = AsFloat v" by (rule ApplyScale_unset) (simp_all add: v)
  then show ?thesis
    using v field_value_small [OF assms(1)] f64_to_int_of_int by auto
qed

section \<open>Properties of the codec\<close>

text \<open>
  C7. Decoding is exact: for every bool, signed and unsigned integer type, a field that lies
  inside the payload, at any bit offset, decodes to the bits the little-endian payload holds
  there, read as two's complement for the signed types; with no scale and offset configured
  the emitted float64 is that number, without loss up to 32 bits.
\<close>

theorem Decode_exact:
  assumes "integer_type t" "int off + BitWidth t \<le> 8 * int (length data)" "8 * length data < 2 ^ 63"
  shows "\<exists>v. Decode data t (int off) byteLen = Some (Inr v) \<and> vType v = t \<and>
     ApplyScale v 0 0 = f64_of_int (field_value t (field_nat data off (nat (BitWidth t)))) \<and>
     (BitWidth t \<le> 32 \<longrightarrow>
        f64_to_int (ApplyScale v 0 0) = Some (field_value t (field_nat data off (nat (BitWidth t)))))"
  by (rule Decode_exact_value [OF assms])

theorem Decode_exact_witness:
  "\<exists>v. Decode [0x0C, 0xFE, 0xFF] Int16 (int 8) 0 = Some (Inr v) \<and> f64_to_int (ApplyScale v 0 0) = Some (- 2)"
proof -
  have "field_value Int16 (field_nat [0x0C, 0xFE, 0xFF] 8 16) = - 2"
    by (simp add: field_value_def field_nat_def twos_complement_def)
  then show ?thesis
    using Decode_exact [of Int16 8 "[0x0C, 0xFE, 0xFF]" 0]
    by (auto simp: integer_type_def BitWidth_def)
qed

text \<open>
  C34. The two paths of \<open>extractBits\<close> agree: the byte-aligned fast path with the LittleEndian
  reads returns what the general bit loop returns, for every width of a numeric type and
  every offset inside the payload, and both are the field's bits.
\<close>

theorem extractBits_paths_agree:
  assumes "w \<in> {1, 8, 16, 32, 64}" "off + w \<le> 8 * length data" "8 * length data < 2 ^ 63"
  shows "extractBits data (int off) (int w) = extractBitsGeneral data (int off) (int w) \<and>
     extractBits data (int off) (int w) = Some (Inr (of_nat (field_nat data off w)))"
  using extractBits_ok [OF assms] bitLoop_field [of off w data] assms
  by (auto simp: extractBitsGeneral_def)

theorem extractBits_paths_agree_witness:
  "extractBits [0x34, 0x12, 0x78] (int 8) (int 16) = extractBitsGeneral [0x34, 0x12, 0x78] (int 8) (int 16)"
  using extractBits_paths_agree [of 16 8 "[0x34, 0x12, 0x78]"] by simp

text \<open>
  C35. Exactly when \<open>Decode\<close> panics, for any Go int arguments and any payload: never for an
  offset whose field end fits in int. For larger offsets the bounds check compares a wrapped
  (negative) end with the payload length, passes, and the read is out of range; the
  configuration check bounds \<open>bit_offset\<close> and \<open>byte_len\<close> from below only.
\<close>

theorem Decode_panics_iff:
  assumes "- (2 ^ 63) \<le> off" "off < 2 ^ 63" "- (2 ^ 63) \<le> byteLen" "byteLen < 2 ^ 63" "8 * length data < 2 ^ 62"
  shows "Decode data t off byteLen = None \<longleftrightarrow> Valid t \<and> 0 \<le> off \<and> end_overflows t off byteLen"
  by (rule Decode_None_iff) (use assms in simp_all)

theorem Decode_panics_iff_witness: "Decode [0x2A] Uint8 (2 ^ 63 - 1) 0 = None \<and> Decode [0x2A] Uint8 0 0 \<noteq> None"
  using Decode_panics_iff [of "2 ^ 63 - 1" 0 "[0x2A]" Uint8] Decode_panics_iff [of 0 0 "[0x2A]" Uint8]
  by (simp add: Valid_def end_overflows_def byte_type_def BitWidth_def)

end
