(* ===== verification/Configuration.thy ===== *)
theory Configuration
  imports Codec
begin

unbundle bit_operations_syntax

section \<open>config.go: the configuration and its validation\<close>

text \<open>
  Models config.go: the structs a YAML configuration is decoded into and every \<open>validate\<close>
  method, in the order of its checks. A Go \<open>error\<close> is an option (None is nil) over
  \<open>config_error\<close>, whose constructors carry what the message prints; the scope prefix of a
  message is a \<open>scope\<close>. Durations are nanoseconds. A nil map of attributes is None, which
  \<open>reflect.DeepEqual\<close> tells from an empty one. \<open>Mode\<close> and \<open>MetricType\<close> are Go strings. A
  method that completes its receiver (\<open>SDOPollConfig.validate\<close> sets an empty mode) returns
  the completed struct with the error.
\<close>

subsection \<open>Errors\<close>

datatype scope =
    ScopePDO string
  | ScopeSniffObject nat
  | ScopePollObject nat
  | ScopeRawMessage string
  | ScopeTransaction string
  | ScopeHeartbeat | ScopeEMCY | ScopeRawSniff
  | ScopeSniffNode u8 u16 u8
  | ScopePollNode u8 u16 u8
  | ScopeField scope string
  | ScopeMatch scope nat

datatype field_error =
    NoFieldName | NegativeBitOffset | UnsupportedType DataType | ByteLenNotPositive DataType
  | BitOffsetUnaligned DataType | MetricsUnsupported DataType | BadMetricType string
  | AttributeRange string u64 | AttributeType string

datatype poll_error =
    PollMode | PollInterval | PollTimeout | PollBackoff | PollMaxBackoff | PollMaxRetries | PollRetriesRequired

datatype transaction_error =
    TxNoName | TxCobID u32 | TxPayload | TxTimeout | TxInterval | TxOnceInterval | TxIntervalRequired
  | TxMode | TxBackoff | TxMaxBackoff | TxMaxRetries | TxRetriesRequired

datatype list_error =
    DuplicateName string | DuplicateCobID u32 | DuplicateObject string | DuplicateRequest u32 bytes
  | CobIDRange u32 | ObjectConflict nat string | MatchOverlap nat string u32 | AmbiguousChannel u8

datatype config_error =
    ErrField scope string field_error
  | ErrNoFields scope
  | ErrDuplicateField scope string
  | ErrPDONoName
  | ErrPDOCobID string u32
  | ErrObjectNode scope u8
  | ErrChannelNode nat | ErrChannelClient nat | ErrChannelServer nat
  | ErrPoll poll_error
  | ErrTransaction string transaction_error
  | ErrMatchOffset scope
  | ErrNoMatch scope
  | ErrCobID scope u32
  | ErrAt string nat config_error
  | ErrList string list_error
  | ErrInterface | ErrReadTimeout | ErrNoSignal
  | ErrMetricsDisabled scope
  | ErrLogsDisabled scope

subsection \<open>Fields\<close>

datatype MetricType = MetricGauge | MetricSum | OtherMetricType string

definition MetricType_validate :: "MetricType \<Rightarrow> string option" where
  "MetricType_validate t = (case t of
     MetricGauge \<Rightarrow> None | MetricSum \<Rightarrow> None | OtherMetricType x \<Rightarrow> (if x = [] then None else Some x))"

type_synonym attributes = "(string \<times> any) list option"

record FieldConfig =
  fcName :: string
  fcBitOffset :: int
  fcType :: DataType
  fcByteLen :: int
  fcScale :: float64
  fcOffset :: float64
  fcUnit :: string
  fcMetrics :: bool
  fcLogs :: bool
  fcMetricType :: MetricType
  fcAttributes :: attributes

definition validateStaticAttributes :: "scope \<Rightarrow> string \<Rightarrow> attributes \<Rightarrow> config_error option" where
  "validateStaticAttributes sc name attrs =
     first_error (\<lambda>(key, value).
       case value of
         AnyUint64 v \<Rightarrow> refuse (unat v > 2 ^ 63 - 1) (ErrField sc name (AttributeRange key v))
       | AnyOther t \<Rightarrow> Some (ErrField sc name (AttributeType key))
       | _ \<Rightarrow> None)
       (case attrs of None \<Rightarrow> [] | Some kvs \<Rightarrow> kvs)"

definition FieldConfig_validate :: "scope \<Rightarrow> FieldConfig \<Rightarrow> config_error option" where
  "FieldConfig_validate sc s =
     or_else (refuse (fcName s = []) (ErrField sc [] NoFieldName))
     (or_else (refuse (fcBitOffset s < 0) (ErrField sc (fcName s) NegativeBitOffset))
     (or_else (refuse (\<not> Valid (fcType s)) (ErrField sc (fcName s) (UnsupportedType (fcType s))))
     (or_else
       (if fcType s = Bytes \<or> fcType s = VisibleString then
          or_else (refuse (fcByteLen s \<le> 0) (ErrField sc (fcName s) (ByteLenNotPositive (fcType s))))
          (or_else (refuse (fcBitOffset s smod 8 \<noteq> 0) (ErrField sc (fcName s) (BitOffsetUnaligned (fcType s))))
                   (refuse (fcMetrics s) (ErrField sc (fcName s) (MetricsUnsupported (fcType s)))))
        else None)
     (or_else (map_option (\<lambda>t. ErrField sc (fcName s) (BadMetricType t)) (MetricType_validate (fcMetricType s)))
              (validateStaticAttributes sc (fcName s) (fcAttributes s))))))"

text \<open>The loop over the fields of a scope, which five validators repeat.\<close>

definition validateFields :: "scope \<Rightarrow> FieldConfig list \<Rightarrow> config_error option" where
  "validateFields sc fs =
     or_else (refuse (length fs = 0) (ErrNoFields sc))
       (scan_unique (\<lambda>_. FieldConfig_validate sc) fcName (\<lambda>f. ErrDuplicateField sc (fcName f)) {} 0 fs)"

subsection \<open>PDOs\<close>

record PDOConfig =
  pcName :: string
  pcCobID :: u32
  pcFields :: "FieldConfig list"

definition PDOConfig_validate :: "PDOConfig \<Rightarrow> config_error option" where
  "PDOConfig_validate p =
     or_else (refuse (pcName p = []) ErrPDONoName)
     (or_else (refuse (pcCobID p = 0 \<or> pcCobID p > 0x1FFFFFFF) (ErrPDOCobID (pcName p) (pcCobID p)))
              (validateFields (ScopePDO (pcName p)) (pcFields p)))"

primrec validatePDOsFrom :: "string set \<Rightarrow> u32 set \<Rightarrow> PDOConfig list \<Rightarrow> config_error option" where
  "validatePDOsFrom seen cobIDs [] = None"
| "validatePDOsFrom seen cobIDs (p # ps) =
     or_else (PDOConfig_validate p)
     (or_else (refuse (pcName p \<in> seen) (ErrList ''pdo'' (DuplicateName (pcName p))))
     (or_else (refuse (pcCobID p \<in> cobIDs) (ErrList ''pdo'' (DuplicateCobID (pcCobID p))))
              (validatePDOsFrom (insert (pcName p) seen) (insert (pcCobID p) cobIDs) ps)))"

definition validatePDOs :: "PDOConfig list \<Rightarrow> config_error option" where
  "validatePDOs pdos = validatePDOsFrom {} {} pdos"

record SimpleEventConfig =
  seMetrics :: bool
  seLogs :: bool

definition SimpleEventConfig_validate :: "SimpleEventConfig \<Rightarrow> string \<Rightarrow> config_error option" where
  "SimpleEventConfig_validate s name = None"

subsection \<open>SDO\<close>

record SDOObjectConfig =
  ocNodeID :: u8
  ocIndex :: u16
  ocSubIndex :: u8
  ocFields :: "FieldConfig list"

definition SDOObjectConfig_validate :: "scope \<Rightarrow> SDOObjectConfig \<Rightarrow> config_error option" where
  "SDOObjectConfig_validate sc s =
     or_else (refuse (ocNodeID s < 1 \<or> ocNodeID s > 127) (ErrObjectNode sc (ocNodeID s)))
       (validateFields sc (ocFields s))"

definition sdoObjectKey :: "SDOObjectConfig \<Rightarrow> string" where
  "sdoObjectKey object =
     fmt_d (unat (ocNodeID object)) @ '':'' @ fmt_0X 4 (unat (ocIndex object)) @ '':'' @ fmt_0X 2 (unat (ocSubIndex object))"

record SDOChannelConfig =
  ccNodeID :: u8
  ccClientToServerCobID :: u32
  ccServerToClientCobID :: u32

definition SDOChannelConfig_validate :: "nat \<Rightarrow> SDOChannelConfig \<Rightarrow> config_error option" where
  "SDOChannelConfig_validate index c =
     or_else (refuse (ccNodeID c = 0 \<or> ccNodeID c > 127) (ErrChannelNode index))
     (or_else (refuse (ccClientToServerCobID c > 0x7FF) (ErrChannelClient index))
              (refuse (ccServerToClientCobID c > 0x7FF) (ErrChannelServer index)))"

record SDOSniffConfig =
  snChannels :: "SDOChannelConfig list"
  snObjects :: "SDOObjectConfig list"

primrec validateChannelsFrom :: "u32 set \<Rightarrow> nat \<Rightarrow> SDOChannelConfig list \<Rightarrow> config_error option" where
  "validateChannelsFrom seen i [] = None"
| "validateChannelsFrom seen i (c # cs) =
     or_else (SDOChannelConfig_validate i c)
     (or_else (scan_unique (\<lambda>_ _. None) id (\<lambda>i. ErrList ''sdo.sniff.channels'' (DuplicateCobID i)) seen 0 [ccClientToServerCobID c, ccServerToClientCobID c])
              (validateChannelsFrom (seen \<union> {ccClientToServerCobID c, ccServerToClientCobID c}) (Suc i) cs))"

definition SDOSniffConfig_validate :: "SDOSniffConfig \<Rightarrow> config_error option" where
  "SDOSniffConfig_validate s =
     or_else (validateChannelsFrom {} 0 (snChannels s))
       (scan_unique (\<lambda>i. SDOObjectConfig_validate (ScopeSniffObject i)) sdoObjectKey
          (\<lambda>object. ErrList ''sdo.sniff.objects'' (DuplicateObject (sdoObjectKey object))) {} 0 (snObjects s))"

record SDOPollConfig =
  poMode :: string
  poInterval :: int
  poTimeout :: int
  poRetry :: bool
  poBackoff :: int
  poMaxBackoff :: int
  poMaxRetries :: "int option"
  poObjects :: "SDOObjectConfig list"

text \<open>The receiver is completed before the first check, so also when a check fails.\<close>

definition SDOPollConfig_complete :: "SDOPollConfig \<Rightarrow> SDOPollConfig" where
  "SDOPollConfig_complete p = (if poMode p = [] then p\<lparr>poMode := ''once''\<rparr> else p)"

definition SDOPollConfig_validate :: "SDOPollConfig \<Rightarrow> SDOPollConfig \<times> config_error option" where
  "SDOPollConfig_validate p0 =
     (let p = SDOPollConfig_complete p0
      in (p,
        or_else (refuse (poMode p \<noteq> ''once'' \<and> poMode p \<noteq> ''interval'') (ErrPoll PollMode))
        (or_else (refuse (poMode p = ''interval'' \<and> poInterval p \<le> 0) (ErrPoll PollInterval))
        (or_else (refuse (poTimeout p < 0) (ErrPoll PollTimeout))
        (or_else (refuse (poBackoff p < 0 \<or> poMaxBackoff p < 0) (ErrPoll PollBackoff))
        (or_else (refuse (poMaxBackoff p > 0 \<and> poBackoff p > poMaxBackoff p) (ErrPoll PollMaxBackoff))
        (or_else (refuse (case poMaxRetries p of Some n \<Rightarrow> n < 0 | None \<Rightarrow> False) (ErrPoll PollMaxRetries))
        (or_else (refuse (poMode p = ''once'' \<and> poRetry p \<and> poMaxRetries p = None) (ErrPoll PollRetriesRequired))
          (scan_unique (\<lambda>i. SDOObjectConfig_validate (ScopePollObject i)) sdoObjectKey
             (\<lambda>object. ErrList ''sdo.poll.objects'' (DuplicateObject (sdoObjectKey object))) {} 0 (poObjects p))))))))))"

record SDOConfig =
  sdSniff :: SDOSniffConfig
  sdPoll :: SDOPollConfig

text \<open>\<open>reflect.DeepEqual\<close> on values of static attributes, on attribute maps and on fields.\<close>

fun any_equal :: "any \<Rightarrow> any \<Rightarrow> bool" where
  "any_equal (AnyFloat x) (AnyFloat y) = f64_eq x y"
| "any_equal a b = (a = b)"

definition attributes_equal :: "attributes \<Rightarrow> attributes \<Rightarrow> bool" where
  "attributes_equal a b = (case (a, b) of
     (None, None) \<Rightarrow> True
   | (Some xs, Some ys) \<Rightarrow> length xs = length ys \<and>
       list_all (\<lambda>(k, v). case map_of ys k of Some w \<Rightarrow> any_equal v w | None \<Rightarrow> False) xs
   | _ \<Rightarrow> False)"

definition field_equal :: "FieldConfig \<Rightarrow> FieldConfig \<Rightarrow> bool" where
  "field_equal a b \<longleftrightarrow> fcName a = fcName b \<and> fcBitOffset a = fcBitOffset b \<and> fcType a = fcType b \<and>
     fcByteLen a = fcByteLen b \<and> f64_eq (fcScale a) (fcScale b) \<and> f64_eq (fcOffset a) (fcOffset b) \<and>
     fcUnit a = fcUnit b \<and> fcMetrics a = fcMetrics b \<and> fcLogs a = fcLogs b \<and>
     fcMetricType a = fcMetricType b \<and> attributes_equal (fcAttributes a) (fcAttributes b)"

definition fields_equal :: "FieldConfig list \<Rightarrow> FieldConfig list \<Rightarrow> bool" where
  "fields_equal xs ys \<longleftrightarrow> list_all2 field_equal xs ys"

text \<open>Which of several ambiguous nodes is named depends on Go's map order; here the first polled.\<close>

definition ambiguousNode :: "SDOChannelConfig list \<Rightarrow> SDOObjectConfig list \<Rightarrow> config_error option" where
  "ambiguousNode channels objects =
     first_error (\<lambda>object.
       refuse (length (filter (\<lambda>c. ccNodeID c = ocNodeID object) channels) > 1)
         (ErrList ''sdo.sniff.channels'' (AmbiguousChannel (ocNodeID object)))) objects"

definition passiveObjects :: "SDOObjectConfig list \<Rightarrow> string \<rightharpoonup> SDOObjectConfig" where
  "passiveObjects objects = foldl (\<lambda>m object. m(sdoObjectKey object \<mapsto> object)) Map.empty objects"

definition conflictingObject :: "SDOObjectConfig list \<Rightarrow> SDOObjectConfig list \<Rightarrow> config_error option" where
  "conflictingObject sniffed polled =
     first_error_at (\<lambda>i object.
       (case passiveObjects sniffed (sdoObjectKey object) of
          None \<Rightarrow> None
        | Some passive \<Rightarrow> refuse (\<not> fields_equal (ocFields passive) (ocFields object))
            (ErrList ''sdo.poll.objects'' (ObjectConflict i (sdoObjectKey object))))) 0 polled"

definition SDOConfig_validate :: "SDOConfig \<Rightarrow> SDOConfig \<times> config_error option" where
  "SDOConfig_validate s =
     (case SDOSniffConfig_validate (sdSniff s) of
        Some err \<Rightarrow> (s, Some err)
      | None \<Rightarrow>
          (case SDOPollConfig_validate (sdPoll s) of
             (poll, err) \<Rightarrow>
               (s\<lparr>sdPoll := poll\<rparr>,
                or_else err
                (or_else (if length (poObjects poll) > 0
                          then ambiguousNode (snChannels (sdSniff s)) (poObjects poll) else None)
                         (conflictingObject (snObjects (sdSniff s)) (poObjects poll))))))"

subsection \<open>Raw frames and transactions\<close>

record RawMatchByte =
  rbByteOffset :: int
  rbValue :: u8

definition RawMatchByte_validate :: "scope \<Rightarrow> RawMatchByte \<Rightarrow> config_error option" where
  "RawMatchByte_validate sc m = refuse (rbByteOffset m < 0 \<or> rbByteOffset m > 7) (ErrMatchOffset sc)"

record RawMessageConfig =
  mcName :: string
  mcCobID :: u32
  mcMatch :: "RawMatchByte list"
  mcFields :: "FieldConfig list"

definition RawMessageConfig_validate :: "RawMessageConfig \<Rightarrow> config_error option" where
  "RawMessageConfig_validate r =
     (let sc = ScopeRawMessage (mcName r)
      in or_else (refuse (mcName r = []) (ErrField sc [] NoFieldName))
         (or_else (refuse (mcCobID r = 0 \<or> mcCobID r > 0x7FF) (ErrCobID sc (mcCobID r)))
         (or_else (first_error_at (\<lambda>i. RawMatchByte_validate (ScopeMatch sc i)) 0 (mcMatch r))
                  (validateFields sc (mcFields r)))))"

record RawFrameConfig =
  rfMetrics :: bool
  rfLogs :: bool
  rfCobIDs :: "u32 list"
  rfMessages :: "RawMessageConfig list"

definition RawFrameConfig_validate :: "RawFrameConfig \<Rightarrow> config_error option" where
  "RawFrameConfig_validate r =
     or_else (scan_unique (\<lambda>_ i. refuse (i > 0x7FF) (ErrList ''raw.sniff.cob_ids'' (CobIDRange i))) id
                (\<lambda>i. ErrList ''raw.sniff.cob_ids'' (DuplicateCobID i)) {} 0 (rfCobIDs r))
       (scan_unique (\<lambda>i msg. map_option (ErrAt ''raw.sniff.messages'' i) (RawMessageConfig_validate msg)) mcName
          (\<lambda>msg. ErrList ''raw.sniff.messages'' (DuplicateName (mcName msg))) {} 0 (rfMessages r))"

record RawResponseConfig =
  rrCobID :: u32
  rrMatch :: "RawMatchByte list"
  rrFields :: "FieldConfig list"

definition RawResponseConfig_validate :: "scope \<Rightarrow> RawResponseConfig \<Rightarrow> config_error option" where
  "RawResponseConfig_validate sc r =
     or_else (refuse (rrCobID r = 0 \<or> rrCobID r > 0x7FF) (ErrCobID sc (rrCobID r)))
     (or_else (refuse (length (rrMatch r) = 0) (ErrNoMatch sc))
     (or_else (first_error_at (\<lambda>i. RawMatchByte_validate (ScopeMatch sc i)) 0 (rrMatch r))
              (validateFields sc (rrFields r))))"

record RawTransactionConfig =
  txName :: string
  txCobID :: u32
  txPayload :: bytes
  txTimeout :: int
  txMode :: string
  txInterval :: int
  txRetry :: bool
  txBackoff :: int
  txMaxBackoff :: int
  txMaxRetries :: "int option"
  txResponse :: RawResponseConfig

definition effectiveMode :: "RawTransactionConfig \<Rightarrow> string" where
  "effectiveMode t =
     (if txMode t \<noteq> [] then txMode t else if txInterval t > 0 then ''interval'' else ''once'')"

definition RawTransactionConfig_validate :: "RawTransactionConfig \<Rightarrow> config_error option" where
  "RawTransactionConfig_validate r =
     (let err = ErrTransaction (txName r)
      in or_else (refuse (txName r = []) (err TxNoName))
         (or_else (refuse (txCobID r = 0 \<or> txCobID r > 0x7FF) (err (TxCobID (txCobID r))))
         (or_else (refuse (length (txPayload r) = 0 \<or> length (txPayload r) > 8) (err TxPayload))
         (or_else (refuse (txTimeout r \<le> 0) (err TxTimeout))
         (or_else (refuse (txInterval r < 0) (err TxInterval))
         (or_else
           (if effectiveMode r = ''once'' then refuse (txInterval r \<noteq> 0) (err TxOnceInterval)
            else if effectiveMode r = ''interval'' then refuse (txInterval r \<le> 0) (err TxIntervalRequired)
            else Some (err TxMode))
         (or_else (refuse (txBackoff r < 0 \<or> txMaxBackoff r < 0) (err TxBackoff))
         (or_else (refuse (txMaxBackoff r > 0 \<and> txBackoff r > txMaxBackoff r) (err TxMaxBackoff))
         (or_else (refuse (case txMaxRetries r of Some n \<Rightarrow> n < 0 | None \<Rightarrow> False) (err TxMaxRetries))
         (or_else (refuse (effectiveMode r = ''once'' \<and> txRetry r \<and> txMaxRetries r = None) (err TxRetriesRequired))
                  (RawResponseConfig_validate (ScopeTransaction (txName r)) (txResponse r))))))))))))"

definition rawMatchesCanOverlap :: "RawMatchByte list \<Rightarrow> RawMatchByte list \<Rightarrow> bool" where
  "rawMatchesCanOverlap left right =
     list_all (\<lambda>l. list_all (\<lambda>r. \<not> (rbByteOffset l = rbByteOffset r \<and> rbValue l \<noteq> rbValue r)) right) left"

definition requestKey :: "RawTransactionConfig \<Rightarrow> string" where
  "requestKey t = ''0x'' @ fmt_X (unat (txCobID t)) @ '':'' @ fmt_bytes_X (txPayload t)"

text \<open>The loop over the transactions; \<open>done\<close> are the earlier ones, in order.\<close>

primrec validateTransactionsFrom :: "RawTransactionConfig list \<Rightarrow> RawTransactionConfig list \<Rightarrow> config_error option" where
  "validateTransactionsFrom done [] = None"
| "validateTransactionsFrom done (t # ts) =
     (let i = length done
      in or_else (map_option (ErrAt ''raw.transactions'' i) (RawTransactionConfig_validate t))
         (or_else (refuse (txName t \<in> txName ` set done) (ErrList ''raw.transactions'' (DuplicateName (txName t))))
         (or_else (refuse (requestKey t \<in> requestKey ` set done)
                     (ErrList ''raw.transactions'' (DuplicateRequest (txCobID t) (txPayload t))))
         (or_else (first_error (\<lambda>previous.
                     refuse (rrCobID (txResponse previous) = rrCobID (txResponse t) \<and>
                             rawMatchesCanOverlap (rrMatch (txResponse previous)) (rrMatch (txResponse t)))
                       (ErrList ''raw.transactions'' (MatchOverlap i (txName previous) (rrCobID (txResponse t))))) done)
                  (validateTransactionsFrom (done @ [t]) ts)))))"

record RawConfig =
  rwSniff :: RawFrameConfig
  rwTransactions :: "RawTransactionConfig list"

definition RawConfig_validate :: "RawConfig \<Rightarrow> config_error option" where
  "RawConfig_validate r =
     or_else (RawFrameConfig_validate (rwSniff r)) (validateTransactionsFrom [] (rwTransactions r))"

subsection \<open>The receiver's configuration\<close>

record Config =
  cfInterface :: string
  cfReadTimeout :: int
  cfMetricsEnabled :: bool
  cfLogsEnabled :: bool
  cfHeartbeat :: SimpleEventConfig
  cfEMCY :: SimpleEventConfig
  cfSDO :: SDOConfig
  cfPDO :: "PDOConfig list"
  cfRaw :: RawConfig

definition checkOutputs :: "Config \<Rightarrow> scope \<Rightarrow> bool \<Rightarrow> bool \<Rightarrow> config_error option" where
  "checkOutputs cfg sc metrics logs =
     or_else (refuse (metrics \<and> \<not> cfMetricsEnabled cfg) (ErrMetricsDisabled sc))
             (refuse (logs \<and> \<not> cfLogsEnabled cfg) (ErrLogsDisabled sc))"

definition checkFieldOutputs :: "Config \<Rightarrow> scope \<Rightarrow> FieldConfig list \<Rightarrow> config_error option" where
  "checkFieldOutputs cfg sc fs =
     first_error (\<lambda>f. checkOutputs cfg (ScopeField sc (fcName f)) (fcMetrics f) (fcLogs f)) fs"

definition checkAllOutputs :: "Config \<Rightarrow> config_error option" where
  "checkAllOutputs cfg =
     (let sdo = cfSDO cfg; raw = cfRaw cfg
      in or_else (checkOutputs cfg ScopeHeartbeat (seMetrics (cfHeartbeat cfg)) (seLogs (cfHeartbeat cfg)))
         (or_else (checkOutputs cfg ScopeEMCY (seMetrics (cfEMCY cfg)) (seLogs (cfEMCY cfg)))
         (or_else (checkOutputs cfg ScopeRawSniff (rfMetrics (rwSniff raw)) (rfLogs (rwSniff raw)))
         (or_else (first_error (\<lambda>p. checkFieldOutputs cfg (ScopePDO (pcName p)) (pcFields p)) (cfPDO cfg))
         (or_else (first_error (\<lambda>ob. checkFieldOutputs cfg (ScopeSniffNode (ocNodeID ob) (ocIndex ob) (ocSubIndex ob))
                     (ocFields ob)) (snObjects (sdSniff sdo)))
         (or_else (first_error (\<lambda>ob. checkFieldOutputs cfg (ScopePollNode (ocNodeID ob) (ocIndex ob) (ocSubIndex ob))
                     (ocFields ob)) (poObjects (sdPoll sdo)))
         (or_else (first_error (\<lambda>msg. checkFieldOutputs cfg (ScopeRawMessage (mcName msg)) (mcFields msg))
                     (rfMessages (rwSniff raw)))
                  (first_error (\<lambda>t. checkFieldOutputs cfg (ScopeTransaction (txName t)) (rrFields (txResponse t)))
                     (rwTransactions raw)))))))))"

definition Validate :: "Config \<Rightarrow> Config \<times> config_error option" where
  "Validate cfg =
     (case or_else (refuse (cfInterface cfg = []) ErrInterface)
           (or_else (refuse (cfReadTimeout cfg \<le> 0) ErrReadTimeout)
           (or_else (refuse (\<not> cfMetricsEnabled cfg \<and> \<not> cfLogsEnabled cfg) ErrNoSignal)
           (or_else (SimpleEventConfig_validate (cfHeartbeat cfg) ''heartbeat'')
                    (SimpleEventConfig_validate (cfEMCY cfg) ''emcy'')))) of
        Some err \<Rightarrow> (cfg, Some err)
      | None \<Rightarrow>
          (case SDOConfig_validate (cfSDO cfg) of
             (sdo, err) \<Rightarrow>
               (let cfg' = cfg\<lparr>cfSDO := sdo\<rparr>
                in (cfg', or_else err
                     (or_else (RawConfig_validate (cfRaw cfg))
                     (or_else (validatePDOs (cfPDO cfg)) (checkAllOutputs cfg')))))))"

definition zeroRawFrame :: RawFrameConfig where
  "zeroRawFrame = \<lparr>rfMetrics = False, rfLogs = False, rfCobIDs = [], rfMessages = []\<rparr>"

definition zeroPoll :: SDOPollConfig where
  "zeroPoll = \<lparr>poMode = [], poInterval = 0, poTimeout = 0, poRetry = False, poBackoff = 0, poMaxBackoff = 0,
     poMaxRetries = None, poObjects = []\<rparr>"

definition second :: int where
  "second = 10 ^ 9"

definition createDefaultConfig :: Config where
  "createDefaultConfig =
     \<lparr>cfInterface = [], cfReadTimeout = 2 * second, cfMetricsEnabled = True, cfLogsEnabled = True,
      cfHeartbeat = \<lparr>seMetrics = False, seLogs = False\<rparr>, cfEMCY = \<lparr>seMetrics = False, seLogs = False\<rparr>,
      cfSDO = \<lparr>sdSniff = \<lparr>snChannels = [], snObjects = []\<rparr>, sdPoll = zeroPoll\<rparr>, cfPDO = [],
      cfRaw = \<lparr>rwSniff = zeroRawFrame, rwTransactions = []\<rparr>\<rparr>"

section \<open>What validation accepts\<close>

text \<open>
  The validated configuration, stated without loops or an order of checks.
\<close>

definition attribute_wf :: "any \<Rightarrow> bool" where
  "attribute_wf v = (case v of AnyUint64 n \<Rightarrow> unat n < 2 ^ 63 | AnyOther _ \<Rightarrow> False | _ \<Rightarrow> True)"

definition metric_type_wf :: "MetricType \<Rightarrow> bool" where
  "metric_type_wf t \<longleftrightarrow> t \<in> {MetricGauge, MetricSum, OtherMetricType []}"

definition field_wf :: "FieldConfig \<Rightarrow> bool" where
  "field_wf f \<longleftrightarrow> fcName f \<noteq> [] \<and> 0 \<le> fcBitOffset f \<and> Valid (fcType f) \<and>
     (byte_type (fcType f) \<longrightarrow> 0 < fcByteLen f \<and> 8 dvd fcBitOffset f \<and> \<not> fcMetrics f) \<and>
     metric_type_wf (fcMetricType f) \<and>
     (\<forall>kvs. fcAttributes f = Some kvs \<longrightarrow> (\<forall>(k, v) \<in> set kvs. attribute_wf v))"

definition fields_wf :: "FieldConfig list \<Rightarrow> bool" where
  "fields_wf fs \<longleftrightarrow> fs \<noteq> [] \<and> (\<forall>f \<in> set fs. field_wf f) \<and> distinct (map fcName fs)"

definition pdos_wf :: "PDOConfig list \<Rightarrow> bool" where
  "pdos_wf ps \<longleftrightarrow>
     (\<forall>p \<in> set ps. pcName p \<noteq> [] \<and> pcCobID p \<noteq> 0 \<and> pcCobID p \<le> 0x1FFFFFFF \<and> fields_wf (pcFields p)) \<and>
     distinct (map pcName ps) \<and> distinct (map pcCobID ps)"

definition object_id :: "SDOObjectConfig \<Rightarrow> u8 \<times> u16 \<times> u8" where
  "object_id ob = (ocNodeID ob, ocIndex ob, ocSubIndex ob)"

definition objects_wf :: "SDOObjectConfig list \<Rightarrow> bool" where
  "objects_wf obs \<longleftrightarrow> (\<forall>ob \<in> set obs. ocNodeID ob \<noteq> 0 \<and> ocNodeID ob \<le> 127 \<and> fields_wf (ocFields ob)) \<and>
     distinct (map object_id obs)"

definition channel_ids :: "SDOChannelConfig \<Rightarrow> u32 list" where
  "channel_ids c = [ccClientToServerCobID c, ccServerToClientCobID c]"

definition channels_wf :: "SDOChannelConfig list \<Rightarrow> bool" where
  "channels_wf cs \<longleftrightarrow> (\<forall>c \<in> set cs. ccNodeID c \<noteq> 0 \<and> ccNodeID c \<le> 127 \<and>
       ccClientToServerCobID c \<le> 0x7FF \<and> ccServerToClientCobID c \<le> 0x7FF) \<and>
     distinct (concat (map channel_ids cs))"

definition retries_wf :: "string \<Rightarrow> bool \<Rightarrow> int \<Rightarrow> int \<Rightarrow> int option \<Rightarrow> bool" where
  "retries_wf mode retry backoff maxBackoff maxRetries \<longleftrightarrow>
     0 \<le> backoff \<and> 0 \<le> maxBackoff \<and> (0 < maxBackoff \<longrightarrow> backoff \<le> maxBackoff) \<and>
     (\<forall>n. maxRetries = Some n \<longrightarrow> 0 \<le> n) \<and> (mode = ''once'' \<and> retry \<longrightarrow> maxRetries \<noteq> None)"

definition poll_wf :: "SDOPollConfig \<Rightarrow> bool" where
  "poll_wf p \<longleftrightarrow> (poMode p = ''once'' \<or> poMode p = ''interval'' \<and> 0 < poInterval p) \<and> 0 \<le> poTimeout p \<and>
     retries_wf (poMode p) (poRetry p) (poBackoff p) (poMaxBackoff p) (poMaxRetries p) \<and> objects_wf (poObjects p)"

definition sdo_wf :: "SDOConfig \<Rightarrow> bool" where
  "sdo_wf s \<longleftrightarrow> channels_wf (snChannels (sdSniff s)) \<and> objects_wf (snObjects (sdSniff s)) \<and> poll_wf (sdPoll s) \<and>
     (\<forall>ob \<in> set (poObjects (sdPoll s)).
        length (filter (\<lambda>c. ccNodeID c = ocNodeID ob) (snChannels (sdSniff s))) \<le> 1 \<and>
        (\<forall>passive \<in> set (snObjects (sdSniff s)).
           object_id passive = object_id ob \<longrightarrow> fields_equal (ocFields passive) (ocFields ob)))"

definition matches_wf :: "RawMatchByte list \<Rightarrow> bool" where
  "matches_wf ms \<longleftrightarrow> (\<forall>m \<in> set ms. 0 \<le> rbByteOffset m \<and> rbByteOffset m \<le> 7)"

definition transaction_wf :: "RawTransactionConfig \<Rightarrow> bool" where
  "transaction_wf t \<longleftrightarrow> txName t \<noteq> [] \<and> txCobID t \<noteq> 0 \<and> txCobID t \<le> 0x7FF \<and>
     0 < length (txPayload t) \<and> length (txPayload t) \<le> 8 \<and> 0 < txTimeout t \<and>
     (effectiveMode t = ''once'' \<and> txInterval t = 0 \<or> effectiveMode t = ''interval'' \<and> 0 < txInterval t) \<and>
     retries_wf (effectiveMode t) (txRetry t) (txBackoff t) (txMaxBackoff t) (txMaxRetries t) \<and>
     rrCobID (txResponse t) \<noteq> 0 \<and> rrCobID (txResponse t) \<le> 0x7FF \<and> rrMatch (txResponse t) \<noteq> [] \<and>
     matches_wf (rrMatch (txResponse t)) \<and> fields_wf (rrFields (txResponse t))"

definition responses_overlap :: "RawTransactionConfig \<Rightarrow> RawTransactionConfig \<Rightarrow> bool" where
  "responses_overlap s t \<longleftrightarrow> rrCobID (txResponse s) = rrCobID (txResponse t) \<and>
     rawMatchesCanOverlap (rrMatch (txResponse s)) (rrMatch (txResponse t))"

definition raw_wf :: "RawConfig \<Rightarrow> bool" where
  "raw_wf r \<longleftrightarrow>
     (\<forall>i \<in> set (rfCobIDs (rwSniff r)). i \<le> 0x7FF) \<and> distinct (rfCobIDs (rwSniff r)) \<and>
     (\<forall>msg \<in> set (rfMessages (rwSniff r)). mcName msg \<noteq> [] \<and> mcCobID msg \<noteq> 0 \<and> mcCobID msg \<le> 0x7FF \<and>
        matches_wf (mcMatch msg) \<and> fields_wf (mcFields msg)) \<and>
     distinct (map mcName (rfMessages (rwSniff r))) \<and>
     (\<forall>t \<in> set (rwTransactions r). transaction_wf t) \<and>
     distinct (map txName (rwTransactions r)) \<and>
     distinct (map (\<lambda>t. (txCobID t, txPayload t)) (rwTransactions r)) \<and>
     sorted_wrt (\<lambda>s t. \<not> responses_overlap s t) (rwTransactions r)"

text \<open>All fields of a configuration.\<close>

definition all_fields :: "Config \<Rightarrow> FieldConfig set" where
  "all_fields cfg =
     (\<Union>p \<in> set (cfPDO cfg). set (pcFields p)) \<union>
     (\<Union>ob \<in> set (snObjects (sdSniff (cfSDO cfg))). set (ocFields ob)) \<union>
     (\<Union>ob \<in> set (poObjects (sdPoll (cfSDO cfg))). set (ocFields ob)) \<union>
     (\<Union>msg \<in> set (rfMessages (rwSniff (cfRaw cfg))). set (mcFields msg)) \<union>
     (\<Union>t \<in> set (rwTransactions (cfRaw cfg)). set (rrFields (txResponse t)))"

definition outputs_wf :: "Config \<Rightarrow> bool" where
  "outputs_wf cfg \<longleftrightarrow>
     (seMetrics (cfHeartbeat cfg) \<or> seMetrics (cfEMCY cfg) \<or> rfMetrics (rwSniff (cfRaw cfg)) \<or>
        (\<exists>f \<in> all_fields cfg. fcMetrics f) \<longrightarrow> cfMetricsEnabled cfg) \<and>
     (seLogs (cfHeartbeat cfg) \<or> seLogs (cfEMCY cfg) \<or> rfLogs (rwSniff (cfRaw cfg)) \<or>
        (\<exists>f \<in> all_fields cfg. fcLogs f) \<longrightarrow> cfLogsEnabled cfg)"

definition config_wf :: "Config \<Rightarrow> bool" where
  "config_wf cfg \<longleftrightarrow> cfInterface cfg \<noteq> [] \<and> 0 < cfReadTimeout cfg \<and> (cfMetricsEnabled cfg \<or> cfLogsEnabled cfg) \<and>
     sdo_wf (cfSDO cfg) \<and> raw_wf (cfRaw cfg) \<and> pdos_wf (cfPDO cfg) \<and> outputs_wf cfg"

subsection \<open>Each validator\<close>

lemma validateStaticAttributes_None:
  "validateStaticAttributes sc name attrs = None \<longleftrightarrow> (\<forall>kvs. attrs = Some kvs \<longrightarrow> (\<forall>(k, v) \<in> set kvs. attribute_wf v))"
proof -
  have "(case v of AnyUint64 v \<Rightarrow> refuse (unat v > 2 ^ 63 - 1) (ErrField sc name (AttributeRange k v))
      | AnyOther t \<Rightarrow> Some (ErrField sc name (AttributeType k)) | _ \<Rightarrow> None) = None \<longleftrightarrow> attribute_wf v" for k v
    by (cases v) (auto simp: attribute_wf_def)
  then have "(case kv of (key, value) \<Rightarrow> (case value of AnyUint64 v \<Rightarrow> refuse (unat v > 2 ^ 63 - 1) (ErrField sc name (AttributeRange key v))
      | AnyOther t \<Rightarrow> Some (ErrField sc name (AttributeType key)) | _ \<Rightarrow> None)) = None \<longleftrightarrow> (case kv of (k, v) \<Rightarrow> attribute_wf v)" for kv
    by (cases kv) (simp only: prod.case)
  then show ?thesis
    unfolding validateStaticAttributes_def first_error_None by (cases attrs) (simp_all only: option.case, auto)
qed

lemma MetricType_validate_None: "MetricType_validate t = None \<longleftrightarrow> metric_type_wf t"
  by (cases t) (simp_all add: MetricType_validate_def metric_type_wf_def)

lemma FieldConfig_validate_None: "FieldConfig_validate sc f = None \<longleftrightarrow> field_wf f"
proof -
  have "0 \<le> fcBitOffset f \<Longrightarrow> fcBitOffset f smod 8 = 0 \<longleftrightarrow> 8 dvd fcBitOffset f"
    by (simp add: dvd_eq_mod_eq_0)
  then show ?thesis
    by (auto simp: FieldConfig_validate_def field_wf_def byte_type_def validateStaticAttributes_None
        MetricType_validate_None not_less)
qed

lemma validateFields_None: "validateFields sc fs = None \<longleftrightarrow> fields_wf fs"
  by (auto simp: validateFields_def fields_wf_def scan_unique_None FieldConfig_validate_None all_set_conv_all_nth)

lemma validatePDOsFrom_None:
  "validatePDOsFrom seen ids ps = None \<longleftrightarrow>
     pdos_wf ps \<and> pcName ` set ps \<inter> seen = {} \<and> pcCobID ` set ps \<inter> ids = {}"
  by (induction ps arbitrary: seen ids)
    (auto simp: pdos_wf_def PDOConfig_validate_def validateFields_None not_less)

lemma sdoObjectKey_object_id: "sdoObjectKey a = sdoObjectKey b \<longleftrightarrow> object_id a = object_id b"
  by (simp add: sdoObjectKey_def object_id_def split_at_sep word_unat_eq_iff)

lemma distinct_object_keys: "distinct (map sdoObjectKey obs) \<longleftrightarrow> distinct (map object_id obs)"
  by (induction obs) (auto simp: sdoObjectKey_object_id image_iff)

lemma SDOObjectConfig_validate_None:
  "SDOObjectConfig_validate sc ob = None \<longleftrightarrow> ocNodeID ob \<noteq> 0 \<and> ocNodeID ob \<le> 127 \<and> fields_wf (ocFields ob)"
  by (auto simp: SDOObjectConfig_validate_def validateFields_None not_less)

lemma scan_objects_None:
  "scan_unique (\<lambda>i. SDOObjectConfig_validate (sc i)) sdoObjectKey dup {} 0 obs = None \<longleftrightarrow> objects_wf obs"
  by (auto simp: scan_unique_None SDOObjectConfig_validate_None objects_wf_def distinct_object_keys all_set_conv_all_nth)

lemma validateChannelsFrom_None:
  "validateChannelsFrom seen i cs = None \<longleftrightarrow> channels_wf cs \<and> set (concat (map channel_ids cs)) \<inter> seen = {}"
  by (induction cs arbitrary: seen i)
    (auto simp: channels_wf_def channel_ids_def SDOChannelConfig_validate_def scan_unique_None not_less)

lemma SDOSniffConfig_validate_None:
  "SDOSniffConfig_validate s = None \<longleftrightarrow> channels_wf (snChannels s) \<and> objects_wf (snObjects s)"
  by (simp add: SDOSniffConfig_validate_def validateChannelsFrom_None scan_objects_None)

lemma SDOPollConfig_validate_None:
  "snd (SDOPollConfig_validate p) = None \<longleftrightarrow> poll_wf (SDOPollConfig_complete p)"
  "fst (SDOPollConfig_validate p) = SDOPollConfig_complete p"
  by (auto simp: SDOPollConfig_validate_def Let_def poll_wf_def retries_wf_def scan_objects_None not_less
      split: option.splits)

lemma ambiguousNode_None:
  "ambiguousNode cs obs = None \<longleftrightarrow> (\<forall>ob \<in> set obs. length (filter (\<lambda>c. ccNodeID c = ocNodeID ob) cs) \<le> 1)"
  by (auto simp: ambiguousNode_def first_error_None not_less)

lemma passiveObjects_Some:
  assumes "distinct (map object_id obs)"
  shows "passiveObjects obs k = Some ob \<longleftrightarrow> ob \<in> set obs \<and> sdoObjectKey ob = k"
proof -
  have "foldl (\<lambda>m object. m(sdoObjectKey object \<mapsto> object)) m obs k = Some ob \<longleftrightarrow>
      ob \<in> set obs \<and> sdoObjectKey ob = k \<or> m k = Some ob \<and> k \<notin> sdoObjectKey ` set obs" for m
    using assms
  proof (induction obs arbitrary: m)
    case (Cons a obs)
    then have "sdoObjectKey a \<notin> sdoObjectKey ` set obs" by (auto simp: sdoObjectKey_object_id image_iff)
    then show ?case using Cons by (cases "k = sdoObjectKey a") auto
  qed simp
  from this [of Map.empty] show ?thesis by (simp add: passiveObjects_def)
qed

lemma conflictingObject_None:
  assumes "distinct (map object_id sniffed)"
  shows "conflictingObject sniffed polled = None \<longleftrightarrow>
    (\<forall>ob \<in> set polled. \<forall>passive \<in> set sniffed. object_id passive = object_id ob \<longrightarrow> fields_equal (ocFields passive) (ocFields ob))"
proof -
  have "(case passiveObjects sniffed (sdoObjectKey ob) of None \<Rightarrow> None
      | Some passive \<Rightarrow> refuse (\<not> fields_equal (ocFields passive) (ocFields ob)) (e passive)) = None \<longleftrightarrow>
      (\<forall>passive \<in> set sniffed. object_id passive = object_id ob \<longrightarrow> fields_equal (ocFields passive) (ocFields ob))"
    for ob and e :: "SDOObjectConfig \<Rightarrow> config_error"
  proof -
    note found = passiveObjects_Some [OF assms, of "sdoObjectKey ob", unfolded sdoObjectKey_object_id]
    show ?thesis
    proof (cases "passiveObjects sniffed (sdoObjectKey ob)")
      case None
      then have "object_id q' \<noteq> object_id ob" if "q' \<in> set sniffed" for q'
        using found [of q'] that by simp
      then show ?thesis using None by simp
    next
      case (Some q)
      then have "q' \<in> set sniffed \<and> object_id q' = object_id ob \<longleftrightarrow> q' = q" for q'
        using found [of q'] by auto
      then show ?thesis using Some by simp metis
    qed
  qed
  then show ?thesis
    by (auto simp: conflictingObject_def first_error_at_None all_set_conv_all_nth)
qed

definition SDOConfig_complete :: "SDOConfig \<Rightarrow> SDOConfig" where
  "SDOConfig_complete s = s\<lparr>sdPoll := SDOPollConfig_complete (sdPoll s)\<rparr>"

lemma SDOConfig_validate_None:
  "snd (SDOConfig_validate s) = None \<longleftrightarrow> sdo_wf (SDOConfig_complete s)"
  "snd (SDOConfig_validate s) = None \<Longrightarrow> fst (SDOConfig_validate s) = SDOConfig_complete s"
proof -
  let ?p = "SDOPollConfig_complete (sdPoll s)"
  have amb: "(if length (poObjects ?p) > 0 then ambiguousNode cs (poObjects ?p) else None) = ambiguousNode cs (poObjects ?p)" for cs
    by (cases "poObjects ?p") (simp_all add: ambiguousNode_def)
  have split: "SDOPollConfig_validate (sdPoll s) = (?p, snd (SDOPollConfig_validate (sdPoll s)))"
    using SDOPollConfig_validate_None(2) [of "sdPoll s"] by (metis prod.collapse)
  show "snd (SDOConfig_validate s) = None \<longleftrightarrow> sdo_wf (SDOConfig_complete s)"
  proof (cases "SDOSniffConfig_validate (sdSniff s)")
    case None
    then have "channels_wf (snChannels (sdSniff s))" "objects_wf (snObjects (sdSniff s))"
      by (simp_all add: SDOSniffConfig_validate_None)
    then show ?thesis
      unfolding SDOConfig_validate_def
      by (subst split) (auto simp: None amb sdo_wf_def SDOConfig_complete_def SDOPollConfig_validate_None
        ambiguousNode_None conflictingObject_None objects_wf_def)
  next
    case (Some e)
    then have "\<not> (channels_wf (snChannels (sdSniff s)) \<and> objects_wf (snObjects (sdSniff s)))"
      by (simp flip: SDOSniffConfig_validate_None)
    then show ?thesis using Some by (auto simp: SDOConfig_validate_def sdo_wf_def SDOConfig_complete_def)
  qed
  show "snd (SDOConfig_validate s) = None \<Longrightarrow> fst (SDOConfig_validate s) = SDOConfig_complete s"
    unfolding SDOConfig_validate_def SDOConfig_complete_def
    by (subst split, subst (asm) split) (auto split: option.splits)
qed

lemma matches_None: "first_error_at (\<lambda>i. RawMatchByte_validate (sc i)) 0 ms = None \<longleftrightarrow> matches_wf ms"
  by (auto simp: first_error_at_None RawMatchByte_validate_def matches_wf_def all_set_conv_all_nth not_less)

lemma RawMessageConfig_validate_None:
  "RawMessageConfig_validate msg = None \<longleftrightarrow> mcName msg \<noteq> [] \<and> mcCobID msg \<noteq> 0 \<and> mcCobID msg \<le> 0x7FF \<and>
     matches_wf (mcMatch msg) \<and> fields_wf (mcFields msg)"
  by (auto simp: RawMessageConfig_validate_def Let_def matches_None validateFields_None not_less)

lemma RawResponseConfig_validate_None:
  "RawResponseConfig_validate sc r = None \<longleftrightarrow> rrCobID r \<noteq> 0 \<and> rrCobID r \<le> 0x7FF \<and> rrMatch r \<noteq> [] \<and>
     matches_wf (rrMatch r) \<and> fields_wf (rrFields r)"
  by (auto simp: RawResponseConfig_validate_def matches_None validateFields_None not_less)

lemma RawTransactionConfig_validate_None: "RawTransactionConfig_validate t = None \<longleftrightarrow> transaction_wf t"
proof -
  have mode: "(if effectiveMode t = ''once'' then refuse (txInterval t \<noteq> 0) e1
      else if effectiveMode t = ''interval'' then refuse (txInterval t \<le> 0) e2 else Some e3) = None \<longleftrightarrow>
      effectiveMode t = ''once'' \<and> txInterval t = 0 \<or> effectiveMode t = ''interval'' \<and> 0 < txInterval t" for e1 e2 e3 :: config_error
    by (simp add: not_le)
  have retries: "\<not> (case txMaxRetries t of Some n \<Rightarrow> n < 0 | None \<Rightarrow> False) \<longleftrightarrow> (\<forall>n. txMaxRetries t = Some n \<longrightarrow> 0 \<le> n)"
    by (cases "txMaxRetries t") (simp_all add: not_less)
  show ?thesis
    unfolding RawTransactionConfig_validate_def Let_def or_else_None refuse_None mode retries
      RawResponseConfig_validate_None transaction_wf_def retries_wf_def
    by (auto simp: not_le not_less)
qed

lemma sorted_wrt_snoc: "sorted_wrt P (xs @ [x]) \<longleftrightarrow> sorted_wrt P xs \<and> (\<forall>y \<in> set xs. P y x)"
  by (simp add: sorted_wrt_append)

lemma validateTransactionsFrom_None:
  "validateTransactionsFrom ds ts = None \<longleftrightarrow>
     (\<forall>t \<in> set ts. transaction_wf t \<and> txName t \<notin> txName ` set ds \<and> requestKey t \<notin> requestKey ` set ds \<and>
        (\<forall>d \<in> set ds. \<not> responses_overlap d t)) \<and>
     distinct (map txName ts) \<and> distinct (map requestKey ts) \<and> sorted_wrt (\<lambda>s t. \<not> responses_overlap s t) ts"
proof (induction ts arbitrary: ds)
  case (Cons t ts)
  have "first_error (\<lambda>previous.
      refuse (rrCobID (txResponse previous) = rrCobID (txResponse t) \<and>
              rawMatchesCanOverlap (rrMatch (txResponse previous)) (rrMatch (txResponse t))) (e previous)) ds = None \<longleftrightarrow>
      (\<forall>d \<in> set ds. \<not> responses_overlap d t)" for e :: "RawTransactionConfig \<Rightarrow> config_error"
    by (simp add: first_error_None responses_overlap_def)
  moreover have n: "f t \<notin> f ` set ts \<longleftrightarrow> (\<forall>u \<in> set ts. f u \<noteq> f t)" for f :: "RawTransactionConfig \<Rightarrow> string"
    by (metis image_iff)
  ultimately show ?case
    unfolding validateTransactionsFrom.simps Let_def or_else_None map_option_is_None RawTransactionConfig_validate_None
      refuse_None Cons.IH [of "ds @ [t]"]
    using n [where f = txName] n [where f = requestKey] by (auto simp: ball_conj_distrib)
qed simp

lemma requestKey_eq: "requestKey s = requestKey t \<longleftrightarrow> txCobID s = txCobID t \<and> txPayload s = txPayload t"
  by (auto simp: requestKey_def split_at_sep word_unat_eq_iff)

lemma distinct_request_keys: "distinct (map requestKey ts) \<longleftrightarrow> distinct (map (\<lambda>t. (txCobID t, txPayload t)) ts)"
  by (induction ts) (auto simp: requestKey_eq image_iff)

lemma RawConfig_validate_None: "RawConfig_validate r = None \<longleftrightarrow> raw_wf r"
proof -
  have ids: "scan_unique (\<lambda>_ i. refuse (i > 0x7FF) (e i)) id d {} 0 is = None \<longleftrightarrow> (\<forall>i \<in> set is. i \<le> 0x7FF) \<and> distinct is"
    for e d :: "u32 \<Rightarrow> config_error" and "is"
    by (auto simp: scan_unique_None all_set_conv_all_nth not_less)
  have msgs: "scan_unique (\<lambda>i msg. map_option (e i) (RawMessageConfig_validate msg)) mcName d {} 0 ms = None \<longleftrightarrow>
      (\<forall>msg \<in> set ms. RawMessageConfig_validate msg = None) \<and> distinct (map mcName ms)"
    for e :: "nat \<Rightarrow> config_error \<Rightarrow> config_error" and d ms
    by (auto simp: scan_unique_None all_set_conv_all_nth)
  show ?thesis
    by (auto simp: RawConfig_validate_def RawFrameConfig_validate_def ids msgs RawMessageConfig_validate_None
        validateTransactionsFrom_None distinct_request_keys raw_wf_def)
qed

lemma checkFieldOutputs_None:
  "checkFieldOutputs cfg sc fs = None \<longleftrightarrow>
     (\<forall>f \<in> set fs. (fcMetrics f \<longrightarrow> cfMetricsEnabled cfg) \<and> (fcLogs f \<longrightarrow> cfLogsEnabled cfg))"
  by (auto simp: checkFieldOutputs_def first_error_None checkOutputs_def)

lemma checkAllOutputs_None: "checkAllOutputs cfg = None \<longleftrightarrow> outputs_wf cfg"
  unfolding checkAllOutputs_def Let_def or_else_None first_error_None checkFieldOutputs_None checkOutputs_def refuse_None
    outputs_wf_def all_fields_def
  by blast

subsection \<open>The whole configuration\<close>

definition complete_config :: "Config \<Rightarrow> Config" where
  "complete_config cfg = cfg\<lparr>cfSDO := SDOConfig_complete (cfSDO cfg)\<rparr>"

lemma Validate_None:
  "snd (Validate cfg) = None \<longleftrightarrow> config_wf (complete_config cfg)"
  "snd (Validate cfg) = None \<Longrightarrow> fst (Validate cfg) = complete_config cfg"
proof -
  obtain sdo err where v: "SDOConfig_validate (cfSDO cfg) = (sdo, err)" by force
  have sdo: "err = None \<longleftrightarrow> sdo_wf (SDOConfig_complete (cfSDO cfg))" "err = None \<Longrightarrow> sdo = SDOConfig_complete (cfSDO cfg)"
    using SDOConfig_validate_None [of "cfSDO cfg"] v by simp_all
  have base: "or_else (refuse (cfInterface cfg = []) ErrInterface)
           (or_else (refuse (cfReadTimeout cfg \<le> 0) ErrReadTimeout)
           (or_else (refuse (\<not> cfMetricsEnabled cfg \<and> \<not> cfLogsEnabled cfg) ErrNoSignal)
           (or_else (SimpleEventConfig_validate (cfHeartbeat cfg) ''heartbeat'')
                    (SimpleEventConfig_validate (cfEMCY cfg) ''emcy'')))) = None \<longleftrightarrow>
      cfInterface cfg \<noteq> [] \<and> 0 < cfReadTimeout cfg \<and> (cfMetricsEnabled cfg \<or> cfLogsEnabled cfg)" (is "?b = None \<longleftrightarrow> _")
    by (auto simp: SimpleEventConfig_validate_def)
  show "snd (Validate cfg) = None \<longleftrightarrow> config_wf (complete_config cfg)"
  proof (cases ?b)
    case None
    have b: "cfInterface cfg \<noteq> [] \<and> 0 < cfReadTimeout cfg \<and> (cfMetricsEnabled cfg \<or> cfLogsEnabled cfg)"
      by (rule iffD1 [OF base None])
    have "snd (Validate cfg) = or_else err (or_else (RawConfig_validate (cfRaw cfg))
        (or_else (validatePDOs (cfPDO cfg)) (checkAllOutputs (cfg\<lparr>cfSDO := sdo\<rparr>))))"
      by (simp only: Validate_def None option.case v prod.case Let_def snd_conv)
    then show ?thesis
      using b sdo
      by (auto simp: config_wf_def complete_config_def RawConfig_validate_None validatePDOs_def validatePDOsFrom_None
          checkAllOutputs_None)
  next
    case (Some e)
    then have "\<not> (cfInterface cfg \<noteq> [] \<and> 0 < cfReadTimeout cfg \<and> (cfMetricsEnabled cfg \<or> cfLogsEnabled cfg))"
      using base by simp
    then show ?thesis
      by (simp only: Validate_def Some option.case snd_conv) (auto simp: config_wf_def complete_config_def)
  qed
  show "fst (Validate cfg) = complete_config cfg" if "snd (Validate cfg) = None"
  proof (cases ?b)
    case None
    then show ?thesis
      using that sdo by (auto simp: Validate_def v Let_def complete_config_def)
  next
    case (Some e)
    have "snd (Validate cfg) = Some e" by (simp only: Validate_def Some option.case snd_conv)
    then show ?thesis using that by simp
  qed
qed

subsection \<open>Overlap of response matches\<close>

definition match_holds :: "bytes \<Rightarrow> RawMatchByte \<Rightarrow> bool" where
  "match_holds data m \<longleftrightarrow> rbByteOffset m < int (length data) \<and> data ! nat (rbByteOffset m) = rbValue m"

definition all_hold :: "RawMatchByte list \<Rightarrow> bytes \<Rightarrow> bool" where
  "all_hold ms data \<longleftrightarrow> (\<forall>m \<in> set ms. match_holds data m)"

lemma overlap_iff:
  "rawMatchesCanOverlap left right \<longleftrightarrow>
     (\<forall>l \<in> set left. \<forall>r \<in> set right. rbByteOffset l = rbByteOffset r \<longrightarrow> rbValue l = rbValue r)"
  by (auto simp: rawMatchesCanOverlap_def list_all_iff)

lemma overlap_sym: "rawMatchesCanOverlap left right \<longleftrightarrow> rawMatchesCanOverlap right left"
  unfolding overlap_iff by metis

lemma overlap_needed: "all_hold left data \<Longrightarrow> all_hold right data \<Longrightarrow> rawMatchesCanOverlap left right"
  unfolding overlap_iff all_hold_def match_holds_def by metis

definition payload_for :: "RawMatchByte list \<Rightarrow> bytes" where
  "payload_for ms = map (\<lambda>i. case List.find (\<lambda>m. rbByteOffset m = int i) ms of Some m \<Rightarrow> rbValue m | None \<Rightarrow> 0) [0..<8]"

lemma payload_for_holds:
  assumes "matches_wf ms" "rawMatchesCanOverlap ms ms"
  shows "all_hold ms (payload_for ms)"
  unfolding all_hold_def
proof
  fix m assume m: "m \<in> set ms"
  then have off: "0 \<le> rbByteOffset m" "rbByteOffset m \<le> 7" using assms(1) by (auto simp: matches_wf_def)
  have "List.find (\<lambda>m'. rbByteOffset m' = rbByteOffset m) ms \<noteq> None"
    using m by (auto simp: find_None_iff)
  then obtain m' where m': "List.find (\<lambda>m'. rbByteOffset m' = rbByteOffset m) ms = Some m'" by blast
  then have "m' \<in> set ms" "rbByteOffset m' = rbByteOffset m" by (auto simp: find_Some_iff)
  then have "rbValue m' = rbValue m" using assms(2) m unfolding overlap_iff by blast
  then show "match_holds (payload_for ms) m"
    using off m' by (simp add: match_holds_def payload_for_def)
qed

lemma overlap_append:
  "rawMatchesCanOverlap left left \<Longrightarrow> rawMatchesCanOverlap right right \<Longrightarrow> rawMatchesCanOverlap left right \<Longrightarrow>
     rawMatchesCanOverlap (left @ right) (left @ right)"
  unfolding overlap_iff set_append by (metis Un_iff)

lemma overlap_characterised:
  assumes "matches_wf left" "matches_wf right" "rawMatchesCanOverlap left left" "rawMatchesCanOverlap right right"
  shows "rawMatchesCanOverlap left right \<longleftrightarrow> (\<exists>data. length data = 8 \<and> all_hold left data \<and> all_hold right data)"
proof
  assume "rawMatchesCanOverlap left right"
  then have "all_hold (left @ right) (payload_for (left @ right))"
    using assms by (intro payload_for_holds overlap_append) (auto simp: matches_wf_def)
  then show "\<exists>data. length data = 8 \<and> all_hold left data \<and> all_hold right data"
    by (intro exI [of _ "payload_for (left @ right)"]) (auto simp: all_hold_def payload_for_def)
qed (auto intro: overlap_needed)

lemma responses_unique:
  assumes "sorted_wrt (\<lambda>s t. \<not> responses_overlap s t) ts" "s \<in> set ts" "t \<in> set ts"
    "rrCobID (txResponse s) = rrCobID (txResponse t)"
    "all_hold (rrMatch (txResponse s)) data" "all_hold (rrMatch (txResponse t)) data"
  shows "s = t"
proof -
  have over: "responses_overlap s t" "responses_overlap t s"
    using assms(4) overlap_needed [OF assms(5,6)] overlap_sym by (auto simp: responses_overlap_def)
  obtain i j where ij: "i < length ts" "ts ! i = s" "j < length ts" "ts ! j = t"
    using assms(2,3) by (auto simp: in_set_conv_nth)
  have "\<not> i < j" "\<not> j < i"
    using sorted_wrt_nth_less [OF assms(1)] ij over by auto
  then show ?thesis using ij by auto
qed

section \<open>Properties\<close>


text \<open>
  An SDO object is identified by its key text: the duplicate and conflict checks, which
  compare the formatted keys \<open>node:INDEX:SUB\<close>, compare exactly node, index and sub-index.
\<close>

lemma sdoObjectKey_injective:
  "sdoObjectKey a = sdoObjectKey b \<longleftrightarrow>
     ocNodeID a = ocNodeID b \<and> ocIndex a = ocIndex b \<and> ocSubIndex a = ocSubIndex b"
  using sdoObjectKey_object_id [of a b] by (simp add: object_id_def)

text \<open>
  C33. The overlap check is exact: for match lists that validation accepts, an eight-byte payload
  satisfies both lists if and only if \<open>rawMatchesCanOverlap\<close> is true of them and each of them is
  satisfied by some payload at all. Validation does not reject a list that contradicts itself,
  which matches nothing, so the last condition cannot be dropped.
\<close>

theorem rawMatchesCanOverlap_exact:
  assumes "matches_wf left" "matches_wf right"
  shows "(\<exists>data. length data = 8 \<and> all_hold left data \<and> all_hold right data) \<longleftrightarrow>
    rawMatchesCanOverlap left right \<and>
    (\<exists>data. length data = 8 \<and> all_hold left data) \<and> (\<exists>data. length data = 8 \<and> all_hold right data)"
  using overlap_characterised [OF assms] overlap_needed by blast

text \<open>Two lists that agree on byte 0 overlap; a third that differs from them there does not.\<close>

theorem rawMatchesCanOverlap_exact_witness:
  "rawMatchesCanOverlap [\<lparr>rbByteOffset = 0, rbValue = 7\<rparr>] [\<lparr>rbByteOffset = 0, rbValue = 7\<rparr>, \<lparr>rbByteOffset = 1, rbValue = 9\<rparr>] \<and>
   \<not> (\<exists>data. length data = 8 \<and> all_hold [\<lparr>rbByteOffset = 0, rbValue = 7\<rparr>] data \<and> all_hold [\<lparr>rbByteOffset = 0, rbValue = 8\<rparr>] data)"
proof -
  let ?l = "[\<lparr>rbByteOffset = 0, rbValue = 7\<rparr>]" and ?r = "[\<lparr>rbByteOffset = 0, rbValue = 7\<rparr>, \<lparr>rbByteOffset = 1, rbValue = 9\<rparr>]"
  let ?other = "[\<lparr>rbByteOffset = 0, rbValue = 8\<rparr>]"
  have wf: "matches_wf ?l" "matches_wf ?r" "matches_wf ?other" by (simp_all add: matches_wf_def)
  have "length [7, 9, 0, 0, 0, 0, 0, 0 :: u8] = 8 \<and> all_hold ?l [7, 9, 0, 0, 0, 0, 0, 0] \<and> all_hold ?r [7, 9, 0, 0, 0, 0, 0, 0]"
    by (simp add: all_hold_def match_holds_def)
  then have "rawMatchesCanOverlap ?l ?r" using rawMatchesCanOverlap_exact [OF wf(1,2)] by blast
  moreover have "\<not> rawMatchesCanOverlap ?l ?other" by (simp add: rawMatchesCanOverlap_def)
  ultimately show ?thesis using rawMatchesCanOverlap_exact [OF wf(1,3)] by blast
qed

text \<open>
  C9. A response belongs to one transaction. In a validated configuration no frame can
  satisfy the response conditions of two different transactions, so a frame is the
  response of at most one transaction.
\<close>

theorem response_transaction_unique:
  assumes "snd (Validate cfg) = None" "s \<in> set (rwTransactions (cfRaw cfg))" "t \<in> set (rwTransactions (cfRaw cfg))"
    "rrCobID (txResponse s) = cobID" "rrCobID (txResponse t) = cobID"
    "all_hold (rrMatch (txResponse s)) data" "all_hold (rrMatch (txResponse t)) data"
  shows "s = t"
proof -
  have "raw_wf (cfRaw cfg)" using Validate_None(1) [of cfg] assms(1) by (simp add: config_wf_def complete_config_def)
  then show ?thesis
    using responses_unique [of "rwTransactions (cfRaw cfg)" s t data] assms(2-7) by (simp add: raw_wf_def)
qed

definition sample_response_field :: "string \<Rightarrow> FieldConfig" where
  "sample_response_field name =
     \<lparr>fcName = name, fcBitOffset = 16, fcType = Uint16, fcByteLen = 0, fcScale = 0, fcOffset = 0, fcUnit = [],
      fcMetrics = True, fcLogs = True, fcMetricType = MetricGauge, fcAttributes = None\<rparr>"

definition sample_transaction :: "string \<Rightarrow> u8 \<Rightarrow> RawTransactionConfig" where
  "sample_transaction name command =
     \<lparr>txName = name, txCobID = 0x3F0, txPayload = [command], txTimeout = second, txMode = [], txInterval = 0,
      txRetry = False, txBackoff = 0, txMaxBackoff = 0, txMaxRetries = None,
      txResponse = \<lparr>rrCobID = 0x3F1, rrMatch = [\<lparr>rbByteOffset = 0, rbValue = command\<rparr>],
                     rrFields = [sample_response_field name]\<rparr>\<rparr>"

definition sample_receiver_config :: Config where
  "sample_receiver_config = createDefaultConfig
     \<lparr>cfInterface := ''can0'',
      cfRaw := \<lparr>rwSniff = zeroRawFrame, rwTransactions = [sample_transaction ''a'' 1, sample_transaction ''b'' 2]\<rparr>\<rparr>"

lemma sample_receiver_config_ok: "snd (Validate sample_receiver_config) = None"
  unfolding Validate_None
  by (simp add: config_wf_def complete_config_def sample_receiver_config_def createDefaultConfig_def second_def
      SDOConfig_complete_def SDOPollConfig_complete_def zeroPoll_def zeroRawFrame_def sdo_wf_def channels_wf_def objects_wf_def
      poll_wf_def retries_wf_def raw_wf_def pdos_wf_def sample_transaction_def transaction_wf_def effectiveMode_def
      matches_wf_def fields_wf_def sample_response_field_def field_wf_def byte_type_def Valid_def metric_type_wf_def
      responses_overlap_def rawMatchesCanOverlap_def outputs_wf_def)

theorem response_transaction_unique_witness:
  "\<exists>s. {t \<in> set (rwTransactions (cfRaw sample_receiver_config)).
      rrCobID (txResponse t) = 0x3F1 \<and> all_hold (rrMatch (txResponse t)) [2, 0, 5, 0]} = {s}"
proof -
  let ?P = "\<lambda>t. rrCobID (txResponse t) = 0x3F1 \<and> all_hold (rrMatch (txResponse t)) [2, 0, 5, 0]"
  let ?ts = "set (rwTransactions (cfRaw sample_receiver_config))"
  have b: "sample_transaction ''b'' 2 \<in> ?ts" "?P (sample_transaction ''b'' 2)"
    by (simp_all add: sample_receiver_config_def sample_transaction_def all_hold_def match_holds_def)
  have "t = sample_transaction ''b'' 2" if "t \<in> ?ts" "?P t" for t
    using response_transaction_unique [OF sample_receiver_config_ok that(1) b(1)] that(2) b(2) by blast
  then have "{t \<in> ?ts. ?P t} = {sample_transaction ''b'' 2}" using b by blast
  then show ?thesis by blast
qed

subsection \<open>The shipped example\<close>

text \<open>
  config/example-collector.yaml, as decoded. Its sniffed and polled definitions of object 20F0:11
  differ (the first has a static attribute), so validation refuses it.
\<close>

definition example_firmware :: "attributes \<Rightarrow> SDOObjectConfig" where
  "example_firmware attrs =
     \<lparr>ocNodeID = 1, ocIndex = 0x20F0, ocSubIndex = 0x11,
      ocFields = [\<lparr>fcName = ''canopen.mcu.firmware'', fcBitOffset = 0, fcType = Uint32, fcByteLen = 0, fcScale = 0,
        fcOffset = 0, fcUnit = [], fcMetrics = True, fcLogs = True, fcMetricType = MetricGauge, fcAttributes = attrs\<rparr>]\<rparr>"

definition example_collector :: Config where
  "example_collector = createDefaultConfig
     \<lparr>cfInterface := ''vcan0'', cfReadTimeout := second,
      cfHeartbeat := \<lparr>seMetrics = True, seLogs = True\<rparr>, cfEMCY := \<lparr>seMetrics = True, seLogs = True\<rparr>,
      cfSDO := \<lparr>
        sdSniff = \<lparr>snChannels = [\<lparr>ccNodeID = 1, ccClientToServerCobID = 0x601, ccServerToClientCobID = 0x581\<rparr>],
                   snObjects = [example_firmware (Some [(''source'', AnyString ''sdo'')])]\<rparr>,
        sdPoll = zeroPoll\<lparr>poMode := ''once'', poRetry := True, poMaxRetries := Some 3, poTimeout := 2 * second,
                   poObjects := [example_firmware None]\<rparr>\<rparr>,
      cfPDO := [\<lparr>pcName = ''motor_tpdo1'', pcCobID = 0x181,
        pcFields = [\<lparr>fcName = ''canopen.motor.speed'', fcBitOffset = 0, fcType = Int16, fcByteLen = 0,
          fcScale = f64_of_bits 0x3FB999999999999A, fcOffset = 0, fcUnit = ''rpm'', fcMetrics = True, fcLogs = True,
          fcMetricType = MetricGauge, fcAttributes = Some [(''axis'', AnyString ''x'')]\<rparr>]\<rparr>]\<rparr>"

lemma example_collector_refused: "snd (Validate example_collector) \<noteq> None"
proof -
  have "\<not> sdo_wf (cfSDO (complete_config example_collector))"
    by (simp add: sdo_wf_def example_collector_def complete_config_def SDOConfig_complete_def SDOPollConfig_complete_def
        zeroPoll_def example_firmware_def object_id_def fields_equal_def field_equal_def attributes_equal_def)
  then show ?thesis unfolding Validate_None(1) by (simp add: config_wf_def)
qed

end
