(* ===== verification/Emit.thy ===== *)
theory Emit
  imports Codec "HOL-Library.AList" "HOL-Library.Multiset"
begin

section \<open>internal/emit: metric and log batches\<close>

text \<open>
  Models internal/emit/metrics.go and logs.go. A batch is the tree of the OTLP message the
  builder assembles: resources, their one scope, metrics and data points (or log records).
  The code keeps pdata handles into that tree in its maps; here a handle is the position in
  the list the element was appended to, and an in-place append updates the list there.
  Go maps whose entries are listed or counted are association lists with one entry per key;
  \<open>nil\<close> for a map of static attributes is None. The clock reading a call takes is its
  argument \<open>now\<close>. Calling \<open>Sum()\<close> or \<open>Gauge()\<close> on a metric of the other type yields an
  invalid handle whose use panics, which pdata documents: that is None here.
\<close>

type_synonym strmap = "(string \<times> string) list"
type_synonym anymap = "(string \<times> any) list"

text \<open>The entries a \<open>range\<close> over a possibly nil map visits.\<close>

definition entries :: "anymap option \<Rightarrow> anymap" where
  "entries m = (case m of None \<Rightarrow> [] | Some xs \<Rightarrow> xs)"

lemma entries_simps [simp]: "entries None = []" "entries (Some xs) = xs"
  by (simp_all add: entries_def)

definition ScopeName :: string where
  "ScopeName = ''github.com/amaino/otelcol-receiver-canopen/receiver/canopenreceiver''"

subsection \<open>metrics.go\<close>

datatype MetricKind = KindGauge | KindSum

record MetricPoint =
  mpResourceAttrs :: strmap
  mpName :: string
  mpUnit :: string
  mpKind :: MetricKind
  mpValue :: float64
  mpAttributes :: "anymap option"
  mpTimestamp :: "int option"

record DataPoint =
  dpTimestamp :: int
  dpValue :: float64
  dpAttributes :: anymap

datatype Temporality = Delta | Cumulative

datatype MetricData =
  GaugeData (points: "DataPoint list")
| SumData (isMonotonic: bool) (temporality: Temporality) (points: "DataPoint list")

record Metric =
  mName :: string
  mUnit :: string
  mData :: MetricData

record ResourceMetrics =
  rmAttrs :: strmap
  rmScope :: string
  rmMetrics :: "Metric list"

record MetricsBuilder =
  mbResources :: "string \<rightharpoonup> nat"
  mbMetrics :: "string \<rightharpoonup> (string \<rightharpoonup> nat)"
  mbMd :: "ResourceMetrics list"

definition NewMetricsBuilder :: MetricsBuilder where
  "NewMetricsBuilder = \<lparr>mbResources = Map.empty, mbMetrics = Map.empty, mbMd = []\<rparr>"

text \<open>\<open>resourceKey\<close>: only the interface and the node id take part.\<close>

definition resourceKey :: "strmap \<Rightarrow> string" where
  "resourceKey attrs =
     foldl (\<lambda>key k. case map_of attrs k of
         Some v \<Rightarrow> key @ k @ ''='' @ v @ '';'' | None \<Rightarrow> key)
       [] [''canopen.interface'', ''canopen.node_id'']"

text \<open>\<open>resourceMetrics\<close>: the handle for a resource, created on first use.\<close>

definition resourceMetrics :: "MetricsBuilder \<Rightarrow> strmap \<Rightarrow> MetricsBuilder \<times> nat" where
  "resourceMetrics b attrs =
     (let key = resourceKey attrs
      in case mbResources b key of
           Some i \<Rightarrow> (b, i)
         | None \<Rightarrow>
             (let i = length (mbMd b)
              in (b\<lparr>mbResources := (mbResources b)(key \<mapsto> i),
                    mbMetrics := (mbMetrics b)(key \<mapsto> Map.empty),
                    mbMd := mbMd b @ [\<lparr>rmAttrs = attrs, rmScope = ScopeName, rmMetrics = []\<rparr>]\<rparr>, i)))"

definition newMetric :: "MetricPoint \<Rightarrow> Metric" where
  "newMetric p = \<lparr>mName = mpName p, mUnit = mpUnit p,
     mData = (case mpKind p of KindSum \<Rightarrow> SumData False Cumulative [] | KindGauge \<Rightarrow> GaugeData [])\<rparr>"

text \<open>\<open>m.Sum().DataPoints().AppendEmpty()\<close> or the Gauge call, with the point's setters.\<close>

fun appendPoint :: "MetricKind \<Rightarrow> DataPoint \<Rightarrow> MetricData \<Rightarrow> MetricData option" where
  "appendPoint KindSum dp (SumData mo te dps) = Some (SumData mo te (dps @ [dp]))"
| "appendPoint KindGauge dp (GaugeData dps) = Some (GaugeData (dps @ [dp]))"
| "appendPoint k dp d = None"

definition dataPoint :: "int \<Rightarrow> MetricPoint \<Rightarrow> DataPoint" where
  "dataPoint now p = \<lparr>dpTimestamp = (case mpTimestamp p of Some t \<Rightarrow> t | None \<Rightarrow> now),
     dpValue = mpValue p, dpAttributes = entries (mpAttributes p)\<rparr>"

text \<open>Update element \<open>i\<close> of a list in place; None if there is no such element.\<close>

definition modify_at :: "nat \<Rightarrow> ('a \<Rightarrow> 'a option) \<Rightarrow> 'a list \<Rightarrow> 'a list option" where
  "modify_at i f xs = (if i < length xs
     then (case f (xs ! i) of None \<Rightarrow> None | Some x \<Rightarrow> Some (xs[i := x])) else None)"

definition metricHandle :: "MetricsBuilder \<Rightarrow> nat \<Rightarrow> MetricPoint \<Rightarrow> (MetricsBuilder \<times> nat) option" where
  "metricHandle b i p =
     (let key = resourceKey (mpResourceAttrs p)
      in case mbMetrics b key of
           None \<Rightarrow> None
         | Some ms \<Rightarrow>
            (case ms (mpName p) of
               Some j \<Rightarrow> Some (b, j)
             | None \<Rightarrow>
                 if i < length (mbMd b) then
                   (let rm = mbMd b ! i; j = length (rmMetrics rm)
                    in Some (b\<lparr>mbMd := (mbMd b)[i := rm\<lparr>rmMetrics := rmMetrics rm @ [newMetric p]\<rparr>],
                          mbMetrics := (mbMetrics b)(key \<mapsto> ms(mpName p \<mapsto> j))\<rparr>, j))
                 else None))"

definition MetricsAdd :: "int \<Rightarrow> MetricsBuilder \<Rightarrow> MetricPoint \<Rightarrow> MetricsBuilder option" where
  "MetricsAdd now b p =
     (let (b1, i) = resourceMetrics b (mpResourceAttrs p)
      in case metricHandle b1 i p of
           None \<Rightarrow> None
         | Some (b2, j) \<Rightarrow>
             map_option (\<lambda>md. b2\<lparr>mbMd := md\<rparr>)
               (modify_at i
                 (\<lambda>rm. map_option (\<lambda>ms. rm\<lparr>rmMetrics := ms\<rparr>)
                   (modify_at j
                     (\<lambda>m. map_option (\<lambda>d. m\<lparr>mData := d\<rparr>) (appendPoint (mpKind p) (dataPoint now p) (mData m)))
                     (rmMetrics rm)))
                 (mbMd b2)))"

definition MetricsEmpty :: "MetricsBuilder \<Rightarrow> bool" where
  "MetricsEmpty b \<longleftrightarrow> length (mbMd b) = 0"

definition MetricsEmit :: "MetricsBuilder \<Rightarrow> ResourceMetrics list \<times> MetricsBuilder" where
  "MetricsEmit b = (mbMd b, b\<lparr>mbMd := [], mbResources := Map.empty, mbMetrics := Map.empty\<rparr>)"

subsection \<open>logs.go\<close>

datatype SeverityNumber = SeverityNumberInfo | SeverityNumberWarn

record LogRecord =
  lrResourceAttrs :: strmap
  lrTimestamp :: "int option"
  lrSeverity :: SeverityNumber
  lrBody :: string
  lrBodyValue :: "any option"
  lrBodyMap :: "anymap option"
  lrAttributes :: anymap

datatype LogBody = BodyStr string | BodyRaw any | BodyAsMap anymap

record LogEntry =
  leTimestamp :: int
  leObserved :: int
  leSeverity :: SeverityNumber
  leBody :: LogBody
  leAttributes :: anymap

record ResourceLogs =
  rlAttrs :: strmap
  rlScope :: string
  rlRecords :: "LogEntry list"

record LogsBuilder =
  lbResources :: "string \<rightharpoonup> nat"
  lbScopes :: "string \<rightharpoonup> nat"
  lbLd :: "ResourceLogs list"

definition NewLogsBuilder :: LogsBuilder where
  "NewLogsBuilder = \<lparr>lbResources = Map.empty, lbScopes = Map.empty, lbLd = []\<rparr>"

definition scopeLogs :: "LogsBuilder \<Rightarrow> strmap \<Rightarrow> LogsBuilder \<times> nat" where
  "scopeLogs b attrs =
     (let key = resourceKey attrs
      in case lbScopes b key of
           Some i \<Rightarrow> (b, i)
         | None \<Rightarrow>
             (let i = length (lbLd b)
              in (b\<lparr>lbLd := lbLd b @ [\<lparr>rlAttrs = attrs, rlScope = ScopeName, rlRecords = []\<rparr>],
                    lbResources := (lbResources b)(key \<mapsto> i),
                    lbScopes := (lbScopes b)(key \<mapsto> i)\<rparr>, i)))"

definition logEntry :: "int \<Rightarrow> LogRecord \<Rightarrow> LogEntry" where
  "logEntry now r =
     \<lparr>leTimestamp = (case lrTimestamp r of Some t \<Rightarrow> t | None \<Rightarrow> now),
      leObserved = now,
      leSeverity = lrSeverity r,
      leBody = (case lrBodyValue r of Some v \<Rightarrow> BodyRaw v
        | None \<Rightarrow> (case lrBodyMap r of Some m \<Rightarrow> BodyAsMap m | None \<Rightarrow> BodyStr (lrBody r))),
      leAttributes = lrAttributes r\<rparr>"

definition LogsAdd :: "int \<Rightarrow> LogsBuilder \<Rightarrow> LogRecord \<Rightarrow> LogsBuilder option" where
  "LogsAdd now b r =
     (let (b1, i) = scopeLogs b (lrResourceAttrs r)
      in map_option (\<lambda>ld. b1\<lparr>lbLd := ld\<rparr>)
           (modify_at i (\<lambda>rl. Some (rl\<lparr>rlRecords := rlRecords rl @ [logEntry now r]\<rparr>)) (lbLd b1)))"

definition LogsEmpty :: "LogsBuilder \<Rightarrow> bool" where
  "LogsEmpty b \<longleftrightarrow> length (lbLd b) = 0"

definition LogsEmit :: "LogsBuilder \<Rightarrow> ResourceLogs list \<times> LogsBuilder" where
  "LogsEmit b = (lbLd b, b\<lparr>lbLd := [], lbResources := Map.empty, lbScopes := Map.empty\<rparr>)"

subsection \<open>Batch builders as an interface\<close>

text \<open>
  What the receiver relies on: an added item is in the batch exactly once, \<open>Emit\<close> hands out
  everything added since the last one and resets the builder. \<open>content\<close> is the multiset of
  items of a batch.
\<close>

locale batch_builder =
  fixes fresh :: 'b
    and add :: "int \<Rightarrow> 'b \<Rightarrow> 'p \<Rightarrow> 'b option"
    and isEmpty :: "'b \<Rightarrow> bool"
    and emit :: "'b \<Rightarrow> 'batch \<times> 'b"
    and good :: "'b \<Rightarrow> bool"
    and content :: "'b \<Rightarrow> 'd multiset"
    and batch_content :: "'batch \<Rightarrow> 'd multiset"
    and item :: "int \<Rightarrow> 'p \<Rightarrow> 'd"
  assumes good_fresh: "good fresh"
    and content_fresh: "content fresh = {#}"
    and good_add: "good b \<Longrightarrow> add now b p = Some b' \<Longrightarrow> good b'"
    and content_add: "good b \<Longrightarrow> add now b p = Some b' \<Longrightarrow> content b' = add_mset (item now p) (content b)"
    and empty_iff: "good b \<Longrightarrow> isEmpty b \<longleftrightarrow> content b = {#}"
    and emit_batch: "batch_content (fst (emit b)) = content b"
    and emit_reset: "snd (emit b) = fresh"
begin

primrec add_all :: "int \<Rightarrow> 'b \<Rightarrow> 'p list \<Rightarrow> 'b option" where
  "add_all now b [] = Some b"
| "add_all now b (p # ps) = (case add now b p of None \<Rightarrow> None | Some b' \<Rightarrow> add_all now b' ps)"

lemma add_all_content:
  "good b \<Longrightarrow> add_all now b ps = Some b' \<Longrightarrow> good b' \<and> content b' = mset (map (item now) ps) + content b"
proof (induction ps arbitrary: b)
  case (Cons p ps)
  then obtain b1 where b1: "add now b p = Some b1" "add_all now b1 ps = Some b'"
    by (auto split: option.splits)
  then show ?case
    using Cons.IH [of b1] Cons.prems(1) good_add content_add by auto
qed simp

text \<open>Adding a list to a fresh builder and emitting delivers exactly that list, once.\<close>

lemma emit_delivers:
  "add_all now fresh ps = Some b \<Longrightarrow>
     batch_content (fst (emit b)) = mset (map (item now) ps) \<and> content (snd (emit b)) = {#}"
  using add_all_content [OF good_fresh, of now ps b]
  by (simp add: emit_batch emit_reset content_fresh content_add)

text \<open>The receiver's flush: nothing happens without a consumer or with an empty batch.\<close>

definition flush :: "bool \<Rightarrow> 'b \<Rightarrow> 'batch option \<times> 'b" where
  "flush consumer b = (if \<not> consumer \<or> isEmpty b then (None, b) else (Some (fst (emit b)), snd (emit b)))"

definition flushed :: "'batch option \<Rightarrow> 'd multiset" where
  "flushed out = (case out of None \<Rightarrow> {#} | Some x \<Rightarrow> batch_content x)"

lemma flush_conserves:
  "good b \<Longrightarrow> flush consumer b = (out, b') \<Longrightarrow> good b' \<and> flushed out + content b' = content b"
  using good_fresh content_fresh
  by (auto simp: flush_def flushed_def emit_batch emit_reset split: if_splits)

lemma flush_drains: "good b \<Longrightarrow> content (snd (flush True b)) = {#}"
  by (auto simp: flush_def emit_reset content_fresh empty_iff)

lemma flush_never_empty: "good b \<Longrightarrow> flush consumer b = (Some x, b') \<Longrightarrow> batch_content x \<noteq> {#}"
  by (auto simp: flush_def emit_batch empty_iff split: if_splits)

lemma flush_without_consumer: "flush False b = (None, b)"
  by (simp add: flush_def)

end

subsection \<open>List updates\<close>

lemma modify_at_Some:
  "modify_at i f xs = Some ys \<longleftrightarrow> (\<exists>y. i < length xs \<and> f (xs ! i) = Some y \<and> ys = xs[i := y])"
  by (auto simp: modify_at_def split: option.splits)

lemma modify_at_None:
  "modify_at i f xs = None \<longleftrightarrow> (i < length xs \<longrightarrow> f (xs ! i) = None)"
  by (auto simp: modify_at_def split: option.splits)

lemma mset_concat_update:
  assumes "i < length xs" "mset (f y) = add_mset d (mset (f (xs ! i)))"
  shows "mset (concat (map f (xs[i := y]))) = add_mset d (mset (concat (map f xs)))"
proof -
  have "mset (concat (map f (xs[i := y]))) = mset (concat (map f (take i xs))) + mset (f y) + mset (concat (map f (drop (Suc i) xs)))"
    using assms(1) by (simp add: upd_conv_take_nth_drop)
  also have "\<dots> = add_mset d (mset (concat (map f (take i xs @ xs ! i # drop (Suc i) xs))))"
    by (simp add: assms(2))
  finally show ?thesis using assms(1) by (simp add: id_take_nth_drop [symmetric])
qed

lemma mset_concat_update_same:
  assumes "i < length xs" "f y = f (xs ! i)"
  shows "concat (map f (xs[i := y])) = concat (map f xs)"
  using assms by (metis list_update_id map_update)

subsection \<open>The metrics builder's maps point at what they name\<close>

definition handles :: "(string \<rightharpoonup> nat) \<Rightarrow> Metric list \<Rightarrow> bool" where
  "handles ms metrics \<longleftrightarrow> (\<forall>n j. ms n = Some j \<longleftrightarrow> j < length metrics \<and> mName (metrics ! j) = n)"

definition mb_key :: "MetricsBuilder \<Rightarrow> nat \<Rightarrow> string" where
  "mb_key b i = resourceKey (rmAttrs (mbMd b ! i))"

definition mb_wf :: "MetricsBuilder \<Rightarrow> bool" where
  "mb_wf b \<longleftrightarrow>
     (\<forall>k i. mbResources b k = Some i \<longleftrightarrow> i < length (mbMd b) \<and> mb_key b i = k) \<and>
     dom (mbMetrics b) = dom (mbResources b) \<and>
     (\<forall>k i ms. mbResources b k = Some i \<longrightarrow> mbMetrics b k = Some ms \<longrightarrow> handles ms (rmMetrics (mbMd b ! i)))"

type_synonym metric_item = "string \<times> string \<times> DataPoint"

definition rm_items :: "ResourceMetrics \<Rightarrow> metric_item list" where
  "rm_items rm = concat (map (\<lambda>m. map (\<lambda>dp. (resourceKey (rmAttrs rm), mName m, dp)) (points (mData m))) (rmMetrics rm))"

definition md_items :: "ResourceMetrics list \<Rightarrow> metric_item multiset" where
  "md_items md = mset (concat (map rm_items md))"

definition mb_items :: "MetricsBuilder \<Rightarrow> metric_item multiset" where
  "mb_items b = md_items (mbMd b)"

definition metric_item :: "int \<Rightarrow> MetricPoint \<Rightarrow> metric_item" where
  "metric_item now p = (resourceKey (mpResourceAttrs p), mpName p, dataPoint now p)"

lemma resourceMetrics_spec:
  assumes "mb_wf b" "resourceMetrics b attrs = (b1, i)"
  shows "mb_wf b1 \<and> mb_items b1 = mb_items b \<and> mbResources b1 (resourceKey attrs) = Some i"
proof (cases "mbResources b (resourceKey attrs)")
  case None
  let ?k = "resourceKey attrs"
  have b1: "i = length (mbMd b)" "mbResources b1 = (mbResources b)(?k \<mapsto> i)"
    "mbMetrics b1 = (mbMetrics b)(?k \<mapsto> Map.empty)"
    "mbMd b1 = mbMd b @ [\<lparr>rmAttrs = attrs, rmScope = ScopeName, rmMetrics = []\<rparr>]"
    using assms(2) None by (auto simp: resourceMetrics_def Let_def)
  have fresh: "mb_key b j \<noteq> ?k" if "j < length (mbMd b)" for j
    using assms(1) None that by (auto simp: mb_wf_def)
  have key: "mb_key b1 j = (if j < length (mbMd b) then mb_key b j else ?k)" if "j < length (mbMd b1)" for j
    using that by (auto simp: mb_key_def b1 nth_append)
  have "mb_wf b1"
    unfolding mb_wf_def
  proof (intro conjI allI impI)
    fix k j
    show "mbResources b1 k = Some j \<longleftrightarrow> j < length (mbMd b1) \<and> mb_key b1 j = k"
      using assms(1) fresh key by (auto simp: mb_wf_def b1 less_Suc_eq)
  next
    show "dom (mbMetrics b1) = dom (mbResources b1)"
      using assms(1) by (simp add: mb_wf_def b1)
  next
    fix k j ms
    assume "mbResources b1 k = Some j" "mbMetrics b1 k = Some ms"
    then show "handles ms (rmMetrics (mbMd b1 ! j))"
      using assms(1) by (auto simp: mb_wf_def b1 nth_append handles_def split: if_splits)
  qed
  moreover have "mb_items b1 = mb_items b"
    by (simp add: mb_items_def md_items_def b1 rm_items_def)
  ultimately show ?thesis by (simp add: b1)
next
  case (Some j)
  with assms show ?thesis by (simp add: resourceMetrics_def)
qed

lemma mb_wf_key: "mb_wf b \<Longrightarrow> mbResources b k = Some i \<Longrightarrow> i < length (mbMd b) \<and> mb_key b i = k"
  by (simp add: mb_wf_def)

lemma mb_wf_metrics:
  "mb_wf b \<Longrightarrow> mbResources b k = Some i \<Longrightarrow> \<exists>ms. mbMetrics b k = Some ms \<and> handles ms (rmMetrics (mbMd b ! i))"
proof -
  assume wf: "mb_wf b" and "mbResources b k = Some i"
  then have "k \<in> dom (mbMetrics b)" by (auto simp: mb_wf_def)
  then obtain ms where "mbMetrics b k = Some ms" by auto
  with wf \<open>mbResources b k = Some i\<close> show ?thesis unfolding mb_wf_def by blast
qed

text \<open>Replacing the metrics of one registered resource keeps the maps right, if its own map is.\<close>

lemma mb_wf_update:
  assumes "mb_wf b" "mbResources b k = Some i" "handles ms metrics"
    "mbResources b' = mbResources b" "mbMetrics b' = (mbMetrics b)(k \<mapsto> ms)"
    "mbMd b' = (mbMd b)[i := (mbMd b ! i)\<lparr>rmMetrics := metrics\<rparr>]"
  shows "mb_wf b'"
proof -
  have i: "i < length (mbMd b)" "mb_key b i = k" using mb_wf_key [OF assms(1,2)] by auto
  have key: "mb_key b' j = mb_key b j" if "j < length (mbMd b)" for j
    using that i by (cases "j = i") (simp_all add: mb_key_def assms(6))
  have inj: "mbResources b k' = Some i \<Longrightarrow> k' = k" for k'
    using mb_wf_key [OF assms(1), of k' i] i by simp
  show ?thesis
    unfolding mb_wf_def
  proof (intro conjI allI impI)
    fix k' j
    show "mbResources b' k' = Some j \<longleftrightarrow> j < length (mbMd b') \<and> mb_key b' j = k'"
      using assms(1) key by (auto simp: mb_wf_def assms(4,6))
  next
    have "insert k (dom (mbResources b)) = dom (mbResources b)" using assms(2) by auto
    then show "dom (mbMetrics b') = dom (mbResources b')"
      using assms(1) by (simp add: mb_wf_def assms(4,5))
  next
    fix k' j ms'
    assume j: "mbResources b' k' = Some j" and m: "mbMetrics b' k' = Some ms'"
    show "handles ms' (rmMetrics (mbMd b' ! j))"
    proof (cases "k' = k")
      case True
      then show ?thesis using j m i assms by simp
    next
      case False
      then have "j \<noteq> i" using inj j assms(4) by auto
      then show ?thesis
        using False j m assms mb_wf_metrics [OF assms(1), of k' j] by auto
    qed
  qed
qed

lemma handles_dom:
  assumes "handles ms metrics"
  shows "n \<in> mName ` set metrics \<longleftrightarrow> ms n \<noteq> None"
proof -
  have "ms n \<noteq> None \<longleftrightarrow> (\<exists>j. ms n = Some j)" by auto
  also have "\<dots> \<longleftrightarrow> (\<exists>j < length metrics. mName (metrics ! j) = n)"
    using assms by (simp add: handles_def)
  also have "\<dots> \<longleftrightarrow> n \<in> mName ` set metrics"
    by (auto simp: set_conv_nth)
  finally show ?thesis by simp
qed

lemma handles_snoc:
  assumes "handles ms metrics" "ms n = None" "mName m = n"
  shows "handles (ms(n \<mapsto> length metrics)) (metrics @ [m])"
  unfolding handles_def
proof (intro allI)
  fix n' j
  have "\<not> (j < length metrics \<and> mName (metrics ! j) = n)"
    using assms(1,2) by (metis handles_def option.distinct(1))
  then show "(ms(n \<mapsto> length metrics)) n' = Some j \<longleftrightarrow>
      j < length (metrics @ [m]) \<and> mName ((metrics @ [m]) ! j) = n'"
    using assms by (auto simp: handles_def nth_append less_Suc_eq)
qed

text \<open>The metric a point goes to after \<open>metricHandle\<close>: the old one of its name, or a new one.\<close>

lemma metricHandle_spec:
  assumes "mb_wf b" "mbResources b (resourceKey (mpResourceAttrs p)) = Some i"
  shows "\<exists>b2 j. metricHandle b i p = Some (b2, j) \<and> mb_wf b2 \<and> mb_items b2 = mb_items b \<and>
     mbResources b2 = mbResources b \<and> j < length (rmMetrics (mbMd b2 ! i)) \<and>
     mName (rmMetrics (mbMd b2 ! i) ! j) = mpName p \<and>
     (if mpName p \<in> mName ` set (rmMetrics (mbMd b ! i)) then b2 = b
      else rmMetrics (mbMd b2 ! i) ! j = newMetric p)"
proof -
  let ?k = "resourceKey (mpResourceAttrs p)"
  obtain ms where ms: "mbMetrics b ?k = Some ms" "handles ms (rmMetrics (mbMd b ! i))"
    using mb_wf_metrics [OF assms] by auto
  have i: "i < length (mbMd b)" using mb_wf_key [OF assms] by simp
  show ?thesis
  proof (cases "ms (mpName p)")
    case None
    let ?rm = "mbMd b ! i"
    let ?b2 = "b\<lparr>mbMd := (mbMd b)[i := ?rm\<lparr>rmMetrics := rmMetrics ?rm @ [newMetric p]\<rparr>],
                  mbMetrics := (mbMetrics b)(?k \<mapsto> ms(mpName p \<mapsto> length (rmMetrics ?rm)))\<rparr>"
    have eq: "metricHandle b i p = Some (?b2, length (rmMetrics ?rm))"
      using ms None i by (simp add: metricHandle_def Let_def)
    have wf: "mb_wf ?b2"
      by (rule mb_wf_update [OF assms handles_snoc [OF ms(2) None]]) (simp_all add: newMetric_def)
    have "rm_items (?rm\<lparr>rmMetrics := rmMetrics ?rm @ [newMetric p]\<rparr>) = rm_items ?rm"
      by (simp add: rm_items_def newMetric_def split: MetricKind.split)
    then have items: "mb_items ?b2 = mb_items b"
      using i by (simp add: mb_items_def md_items_def mset_concat_update_same)
    have "mpName p \<notin> mName ` set (rmMetrics ?rm)"
      using handles_dom [OF ms(2)] None by simp
    then show ?thesis
      using eq wf items i
      by (intro exI [of _ ?b2] exI [of _ "length (rmMetrics ?rm)"]) (simp add: newMetric_def)
  next
    case (Some j)
    then have "j < length (rmMetrics (mbMd b ! i))" "mName (rmMetrics (mbMd b ! i) ! j) = mpName p"
      using ms(2) by (auto simp: handles_def)
    moreover from this have "mpName p \<in> mName ` set (rmMetrics (mbMd b ! i))"
      by (metis image_eqI nth_mem)
    ultimately show ?thesis
      using ms(1) Some assms(1)
      by (intro exI [of _ b] exI [of _ j]) (simp add: metricHandle_def)
  qed
qed

lemma appendPoint_points: "appendPoint k dp d = Some d' \<Longrightarrow> points d' = points d @ [dp]"
  by (cases "(k, dp, d)" rule: appendPoint.cases) auto

lemma MetricsAdd_spec:
  assumes "mb_wf b" "MetricsAdd now b p = Some b'"
  shows "mb_wf b' \<and> mb_items b' = add_mset (metric_item now p) (mb_items b)"
proof -
  let ?k = "resourceKey (mpResourceAttrs p)"
  obtain b1 i where b1: "resourceMetrics b (mpResourceAttrs p) = (b1, i)" by force
  note s1 = resourceMetrics_spec [OF assms(1) b1]
  obtain b2 j where b2: "metricHandle b1 i p = Some (b2, j)" "mb_wf b2" "mb_items b2 = mb_items b1"
    "mbResources b2 ?k = Some i" "j < length (rmMetrics (mbMd b2 ! i))"
    "mName (rmMetrics (mbMd b2 ! i) ! j) = mpName p"
    using metricHandle_spec [of b1 p i] s1 by auto
  let ?rm = "mbMd b2 ! i" and ?m = "rmMetrics (mbMd b2 ! i) ! j"
  obtain d where d: "appendPoint (mpKind p) (dataPoint now p) (mData ?m) = Some d" "i < length (mbMd b2)"
    "b' = b2\<lparr>mbMd := (mbMd b2)[i := ?rm\<lparr>rmMetrics := (rmMetrics ?rm)[j := ?m\<lparr>mData := d\<rparr>]\<rparr>]\<rparr>"
    using assms(2) by (auto simp: MetricsAdd_def b1 b2(1) modify_at_Some)
  obtain ms where ms: "mbMetrics b2 ?k = Some ms" "handles ms (rmMetrics ?rm)"
    using mb_wf_metrics [OF b2(2,4)] by auto
  have "handles ms ((rmMetrics ?rm)[j := ?m\<lparr>mData := d\<rparr>])"
    using ms(2) b2(5) unfolding handles_def by (auto simp: nth_list_update)
  then have wf: "mb_wf b'"
    by (rule mb_wf_update [OF b2(2,4)]) (simp_all add: d(3) ms(1) map_upd_triv)
  have key: "resourceKey (rmAttrs ?rm) = ?k"
    using mb_wf_key [OF b2(2,4)] by (simp add: mb_key_def)
  have "mset (rm_items (?rm\<lparr>rmMetrics := (rmMetrics ?rm)[j := ?m\<lparr>mData := d\<rparr>]\<rparr>))
      = add_mset (metric_item now p) (mset (rm_items ?rm))"
    unfolding rm_items_def
    by (simp, rule mset_concat_update)
      (use b2(5,6) key in \<open>simp_all add: appendPoint_points [OF d(1)] metric_item_def\<close>)
  then have "mb_items b' = add_mset (metric_item now p) (mb_items b2)"
    using mset_concat_update [OF d(2), of rm_items] by (simp add: mb_items_def md_items_def d(3))
  with wf b2 s1 show ?thesis by simp
qed

text \<open>Frame facts: which resources an operation leaves alone.\<close>

lemma resourceMetrics_frame:
  "resourceMetrics b attrs = (b1, i) \<Longrightarrow> mb_wf b \<Longrightarrow>
     (\<forall>j < length (mbMd b1). j \<noteq> i \<longrightarrow> j < length (mbMd b) \<and> mbMd b1 ! j = mbMd b ! j) \<and>
     (i < length (mbMd b) \<longrightarrow> b1 = b)"
  by (auto simp: resourceMetrics_def Let_def nth_append less_Suc_eq split: option.splits)

lemma metricHandle_frame:
  "metricHandle b i p = Some (b2, j) \<Longrightarrow>
     length (mbMd b2) = length (mbMd b) \<and> (\<forall>k. k \<noteq> i \<longrightarrow> mbMd b2 ! k = mbMd b ! k)"
  by (auto simp: metricHandle_def Let_def split: option.splits if_splits)

definition mb_good :: "MetricsBuilder \<Rightarrow> bool" where
  "mb_good b \<longleftrightarrow> mb_wf b \<and> (\<forall>rm \<in> set (mbMd b). rm_items rm \<noteq> [])"

lemma MetricsAdd_good:
  assumes "mb_good b" "MetricsAdd now b p = Some b'"
  shows "mb_good b'"
proof -
  have wf: "mb_wf b" using assms(1) by (simp add: mb_good_def)
  obtain b1 i where b1: "resourceMetrics b (mpResourceAttrs p) = (b1, i)" by force
  obtain b2 j where b2: "metricHandle b1 i p = Some (b2, j)"
    using assms(2) by (auto simp: MetricsAdd_def b1 split: option.splits)
  let ?rm = "mbMd b2 ! i" and ?m = "rmMetrics (mbMd b2 ! i) ! j"
  obtain d where d: "appendPoint (mpKind p) (dataPoint now p) (mData ?m) = Some d" "i < length (mbMd b2)"
    "j < length (rmMetrics ?rm)"
    "mbMd b' = (mbMd b2)[i := ?rm\<lparr>rmMetrics := (rmMetrics ?rm)[j := ?m\<lparr>mData := d\<rparr>]\<rparr>]"
    using assms(2) by (auto simp: MetricsAdd_def b1 b2(1) modify_at_Some)
  have "rm_items (mbMd b' ! k) \<noteq> []" if k: "k < length (mbMd b')" for k
  proof (cases "k = i")
    case True
    have "?m\<lparr>mData := d\<rparr> \<in> set (rmMetrics (mbMd b' ! i))"
      using d by (simp add: set_update_memI)
    moreover have "points (mData (?m\<lparr>mData := d\<rparr>)) \<noteq> []"
      by (simp add: appendPoint_points [OF d(1)])
    ultimately show ?thesis unfolding True rm_items_def by fastforce
  next
    case False
    then have "mbMd b' ! k = mbMd b ! k" "k < length (mbMd b)"
      using k d resourceMetrics_frame [OF b1 wf] metricHandle_frame [OF b2] by auto
    then show ?thesis using assms(1) by (simp add: mb_good_def)
  qed
  then show ?thesis
    using MetricsAdd_spec [OF wf assms(2)] by (auto simp: mb_good_def in_set_conv_nth)
qed

lemma mb_good_empty: "mb_good b \<Longrightarrow> MetricsEmpty b \<longleftrightarrow> mb_items b = {#}"
  unfolding mb_good_def MetricsEmpty_def mb_items_def md_items_def
  by (cases "mbMd b") auto

interpretation metrics: batch_builder NewMetricsBuilder MetricsAdd MetricsEmpty MetricsEmit mb_good mb_items md_items metric_item
proof unfold_locales
  show "mb_good NewMetricsBuilder"
    by (simp add: mb_good_def mb_wf_def NewMetricsBuilder_def)
  show "mb_items NewMetricsBuilder = {#}"
    by (simp add: mb_items_def md_items_def NewMetricsBuilder_def)
  show "mb_good b'" if "mb_good b" "MetricsAdd now b p = Some b'" for b now p b'
    using that by (rule MetricsAdd_good)
  show "mb_items b' = add_mset (metric_item now p) (mb_items b)"
    if "mb_good b" "MetricsAdd now b p = Some b'" for b now p b'
    using that MetricsAdd_spec by (auto simp: mb_good_def)
  show "MetricsEmpty b \<longleftrightarrow> mb_items b = {#}" if "mb_good b" for b
    using that by (rule mb_good_empty)
  show "md_items (fst (MetricsEmit b)) = mb_items b" for b
    by (simp add: MetricsEmit_def mb_items_def)
  show "snd (MetricsEmit b) = NewMetricsBuilder" for b
    by (simp add: MetricsEmit_def NewMetricsBuilder_def)
qed

subsection \<open>When adding a point panics\<close>

definition data_kind :: "MetricData \<Rightarrow> MetricKind" where
  "data_kind d = (case d of GaugeData _ \<Rightarrow> KindGauge | SumData _ _ _ \<Rightarrow> KindSum)"

lemma appendPoint_None: "appendPoint k dp d = None \<longleftrightarrow> data_kind d \<noteq> k"
  by (cases "(k, dp, d)" rule: appendPoint.cases) (auto simp: data_kind_def)

definition kind_clash :: "MetricsBuilder \<Rightarrow> MetricPoint \<Rightarrow> bool" where
  "kind_clash b p \<longleftrightarrow> (\<exists>rm \<in> set (mbMd b). resourceKey (rmAttrs rm) = resourceKey (mpResourceAttrs p) \<and>
     (\<exists>m \<in> set (rmMetrics rm). mName m = mpName p \<and> data_kind (mData m) \<noteq> mpKind p))"

lemma kind_clash_at:
  assumes "mb_wf b" "mbResources b (resourceKey (mpResourceAttrs p)) = Some i"
  shows "kind_clash b p \<longleftrightarrow> (\<exists>m \<in> set (rmMetrics (mbMd b ! i)). mName m = mpName p \<and> data_kind (mData m) \<noteq> mpKind p)"
proof -
  have "resourceKey (rmAttrs (mbMd b ! k)) = resourceKey (mpResourceAttrs p) \<longleftrightarrow> k = i" if "k < length (mbMd b)" for k
  proof -
    have "mbResources b (mb_key b k) = Some k" using assms(1) that by (simp add: mb_wf_def)
    then show ?thesis using mb_wf_key [OF assms] assms(2) by (auto simp: mb_key_def)
  qed
  then show ?thesis
    using mb_wf_key [OF assms] unfolding kind_clash_def by (metis in_set_conv_nth)
qed

lemma MetricsAdd_None_iff:
  assumes "mb_wf b"
  shows "MetricsAdd now b p = None \<longleftrightarrow> kind_clash b p"
proof -
  obtain b1 i where b1: "resourceMetrics b (mpResourceAttrs p) = (b1, i)" by force
  note s1 = resourceMetrics_spec [OF assms b1]
  have clash1: "kind_clash b1 p \<longleftrightarrow> kind_clash b p"
  proof -
    have "mbMd b1 = mbMd b \<or> (\<exists>rm. mbMd b1 = mbMd b @ [rm] \<and> rmMetrics rm = [])"
      using b1 by (auto simp: resourceMetrics_def Let_def split: option.splits)
    then show ?thesis
      by (elim disjE exE conjE) (simp_all add: kind_clash_def bex_Un)
  qed
  obtain b2 j where b2: "metricHandle b1 i p = Some (b2, j)" "mb_wf b2" 
    "mbResources b2 = mbResources b1" "j < length (rmMetrics (mbMd b2 ! i))"
    "mName (rmMetrics (mbMd b2 ! i) ! j) = mpName p"
    "if mpName p \<in> mName ` set (rmMetrics (mbMd b1 ! i)) then b2 = b1
      else rmMetrics (mbMd b2 ! i) ! j = newMetric p"
    using metricHandle_spec [of b1 p i] s1 by blast
  let ?m = "rmMetrics (mbMd b2 ! i) ! j"
  have i: "i < length (mbMd b2)"
    using mb_wf_key [OF b2(2)] s1 b2(3) by auto
  have add: "MetricsAdd now b p = None \<longleftrightarrow> data_kind (mData ?m) \<noteq> mpKind p"
    using i b2(4) by (simp add: MetricsAdd_def b1 b2(1) modify_at_None appendPoint_None)
  show ?thesis
  proof (cases "mpName p \<in> mName ` set (rmMetrics (mbMd b1 ! i))")
    case True
    then have eq: "b2 = b1" using b2(6) by simp
    obtain ms where "handles ms (rmMetrics (mbMd b1 ! i))"
      using mb_wf_metrics s1 by blast
    then have uniq: "k = j" if "k < length (rmMetrics (mbMd b1 ! i))" "mName (rmMetrics (mbMd b1 ! i) ! k) = mpName p" for k
      using that b2(4,5) eq unfolding handles_def by (metis option.inject)
    have "kind_clash b1 p \<longleftrightarrow> data_kind (mData ?m) \<noteq> mpKind p"
    proof -
      have "?m \<in> set (rmMetrics (mbMd b1 ! i))" using b2(4) eq by simp
      moreover have "m = ?m" if "m \<in> set (rmMetrics (mbMd b1 ! i))" "mName m = mpName p" for m
        using that uniq eq unfolding in_set_conv_nth by blast
      ultimately show ?thesis
        using kind_clash_at [of b1 p i] s1 b2(5) eq by blast
    qed
    then show ?thesis using add clash1 by simp
  next
    case False
    then have "\<not> kind_clash b1 p"
      using kind_clash_at [of b1 p i] s1 by (metis image_eqI)
    moreover have "data_kind (mData ?m) = mpKind p"
      using False b2(6) by (simp add: newMetric_def data_kind_def split: MetricKind.split)
    ultimately show ?thesis using add clash1 by simp
  qed
qed

subsection \<open>The logs builder\<close>

type_synonym log_item = "string \<times> LogEntry"

definition lb_key :: "LogsBuilder \<Rightarrow> nat \<Rightarrow> string" where
  "lb_key b i = resourceKey (rlAttrs (lbLd b ! i))"

definition rl_items :: "ResourceLogs \<Rightarrow> log_item list" where
  "rl_items rl = map (\<lambda>e. (resourceKey (rlAttrs rl), e)) (rlRecords rl)"

definition ld_items :: "ResourceLogs list \<Rightarrow> log_item multiset" where
  "ld_items ld = mset (concat (map rl_items ld))"

definition lb_items :: "LogsBuilder \<Rightarrow> log_item multiset" where
  "lb_items b = ld_items (lbLd b)"

definition log_item :: "int \<Rightarrow> LogRecord \<Rightarrow> log_item" where
  "log_item now r = (resourceKey (lrResourceAttrs r), logEntry now r)"

definition lb_good :: "LogsBuilder \<Rightarrow> bool" where
  "lb_good b \<longleftrightarrow>
     (\<forall>k i. lbScopes b k = Some i \<longleftrightarrow> i < length (lbLd b) \<and> lb_key b i = k) \<and>
     (\<forall>rl \<in> set (lbLd b). rlRecords rl \<noteq> [])"

text \<open>Adding a log record never panics.\<close>

lemma LogsAdd_new:
  assumes "lb_good b" "lbScopes b (resourceKey (lrResourceAttrs r)) = None"
  shows "\<exists>b'. LogsAdd now b r = Some b' \<and> lb_good b' \<and> lb_items b' = add_mset (log_item now r) (lb_items b)"
proof -
  let ?k = "resourceKey (lrResourceAttrs r)"
  let ?rl = "\<lparr>rlAttrs = lrResourceAttrs r, rlScope = ScopeName, rlRecords = [logEntry now r]\<rparr>"
  let ?b' = "b\<lparr>lbLd := lbLd b @ [?rl], lbResources := (lbResources b)(?k \<mapsto> length (lbLd b)),
               lbScopes := (lbScopes b)(?k \<mapsto> length (lbLd b))\<rparr>"
  have eq: "LogsAdd now b r = Some ?b'"
    using assms(2) by (simp add: LogsAdd_def scopeLogs_def Let_def modify_at_def)
  have fresh: "lb_key b j \<noteq> ?k" if "j < length (lbLd b)" for j
  proof -
    have "lbScopes b (lb_key b j) = Some j" using assms(1) that by (simp add: lb_good_def)
    then show ?thesis using assms(2) by auto
  qed
  have key: "lb_key ?b' j = (if j < length (lbLd b) then lb_key b j else ?k)" if "j < Suc (length (lbLd b))" for j
    using that by (auto simp: lb_key_def nth_append)
  have "lb_good ?b'"
    using assms(1) fresh key by (auto simp: lb_good_def less_Suc_eq)
  moreover have "lb_items ?b' = add_mset (log_item now r) (lb_items b)"
    by (simp add: lb_items_def ld_items_def rl_items_def log_item_def)
  ultimately show ?thesis using eq by blast
qed

lemma LogsAdd_old:
  assumes "lb_good b" "lbScopes b (resourceKey (lrResourceAttrs r)) = Some i"
  shows "\<exists>b'. LogsAdd now b r = Some b' \<and> lb_good b' \<and> lb_items b' = add_mset (log_item now r) (lb_items b)"
proof -
  let ?rl = "lbLd b ! i"
  let ?rl' = "?rl\<lparr>rlRecords := rlRecords ?rl @ [logEntry now r]\<rparr>"
  let ?b' = "b\<lparr>lbLd := (lbLd b)[i := ?rl']\<rparr>"
  have i: "i < length (lbLd b)" "lb_key b i = resourceKey (lrResourceAttrs r)"
    using assms by (auto simp: lb_good_def)
  have eq: "LogsAdd now b r = Some ?b'"
    using assms(2) i by (simp add: LogsAdd_def scopeLogs_def modify_at_def)
  have "lb_key ?b' j = lb_key b j" if "j < length (lbLd b)" for j
    using that i by (cases "j = i") (simp_all add: lb_key_def)
  moreover have "set (lbLd ?b') \<subseteq> insert ?rl' (set (lbLd b))"
    by (simp add: set_update_subset_insert)
  ultimately have "lb_good ?b'"
    using assms(1) by (auto simp: lb_good_def)
  moreover have "lb_items ?b' = add_mset (log_item now r) (lb_items b)"
    using mset_concat_update [of i "lbLd b" rl_items ?rl' "log_item now r"] i
    by (simp add: lb_items_def ld_items_def rl_items_def log_item_def lb_key_def)
  ultimately show ?thesis using eq by blast
qed

lemma LogsAdd_total:
  "lb_good b \<Longrightarrow> \<exists>b'. LogsAdd now b r = Some b' \<and> lb_good b' \<and> lb_items b' = add_mset (log_item now r) (lb_items b)"
  using LogsAdd_new LogsAdd_old by (cases "lbScopes b (resourceKey (lrResourceAttrs r))") blast+

lemma lb_good_empty: "lb_good b \<Longrightarrow> LogsEmpty b \<longleftrightarrow> lb_items b = {#}"
  unfolding lb_good_def LogsEmpty_def lb_items_def ld_items_def
  by (cases "lbLd b") (auto simp: rl_items_def)

interpretation logs: batch_builder NewLogsBuilder LogsAdd LogsEmpty LogsEmit lb_good lb_items ld_items log_item
proof unfold_locales
  show "lb_good NewLogsBuilder" "lb_items NewLogsBuilder = {#}"
    by (simp_all add: lb_good_def NewLogsBuilder_def lb_items_def ld_items_def)
  show "lb_good b'" if "lb_good b" "LogsAdd now b p = Some b'" for b now p b'
    using LogsAdd_total [OF that(1), of now p] that(2) by auto
  show "lb_items b' = add_mset (log_item now p) (lb_items b)"
    if "lb_good b" "LogsAdd now b p = Some b'" for b now p b'
    using LogsAdd_total [OF that(1), of now p] that(2) by auto
  show "LogsEmpty b \<longleftrightarrow> lb_items b = {#}" if "lb_good b" for b
    using that by (rule lb_good_empty)
  show "ld_items (fst (LogsEmit b)) = lb_items b" "snd (LogsEmit b) = NewLogsBuilder" for b
    by (simp_all add: LogsEmit_def lb_items_def NewLogsBuilder_def)
qed

subsection \<open>Which resource a point is filed under\<close>

lemma resourceKey_eq:
  "resourceKey attrs =
     (case map_of attrs ''canopen.interface'' of Some v \<Rightarrow> ''canopen.interface='' @ v @ '';'' | None \<Rightarrow> []) @
     (case map_of attrs ''canopen.node_id'' of Some v \<Rightarrow> ''canopen.node_id='' @ v @ '';'' | None \<Rightarrow> [])"
  by (simp add: resourceKey_def split: option.split)

lemma resourceKey_same_interface:
  assumes "map_of a ''canopen.interface'' = map_of c ''canopen.interface''"
  shows "resourceKey a = resourceKey c \<longleftrightarrow> map_of a ''canopen.node_id'' = map_of c ''canopen.node_id''"
  using assms by (auto simp: resourceKey_eq split: option.splits)

lemma map_rmAttrs_update:
  "i < length md \<Longrightarrow> map rmAttrs (md[i := (md ! i)\<lparr>rmMetrics := ms\<rparr>]) = map rmAttrs md"
  by (simp add: map_update list_update_same_conv)

lemma MetricsAdd_attrs:
  assumes "mb_wf b" "MetricsAdd now b p = Some b'"
  shows "map rmAttrs (mbMd b') =
     (if resourceKey (mpResourceAttrs p) \<in> resourceKey ` set (map rmAttrs (mbMd b))
      then map rmAttrs (mbMd b) else map rmAttrs (mbMd b) @ [mpResourceAttrs p])"
proof -
  let ?k = "resourceKey (mpResourceAttrs p)"
  obtain b1 i where b1: "resourceMetrics b (mpResourceAttrs p) = (b1, i)" by force
  note s1 = resourceMetrics_spec [OF assms(1) b1]
  obtain b2 j where b2: "metricHandle b1 i p = Some (b2, j)"
    using assms(2) by (auto simp: MetricsAdd_def b1 split: option.splits)
  have "map rmAttrs (mbMd b') = map rmAttrs (mbMd b2)"
    using assms(2) by (auto simp: MetricsAdd_def b1 b2 modify_at_Some map_rmAttrs_update)
  also have "\<dots> = map rmAttrs (mbMd b1)"
    using b2 by (auto simp: metricHandle_def Let_def map_rmAttrs_update split: option.splits if_splits)
  finally have eq: "map rmAttrs (mbMd b') = map rmAttrs (mbMd b1)" .
  have mem: "?k \<in> resourceKey ` set (map rmAttrs (mbMd b)) \<longleftrightarrow> mbResources b ?k \<noteq> None"
  proof -
    have "mbResources b ?k \<noteq> None \<longleftrightarrow> (\<exists>n < length (mbMd b). mb_key b n = ?k)"
      using assms(1) by (auto simp: mb_wf_def)
    then show ?thesis by (auto simp: mb_key_def set_conv_nth image_iff) 
  qed
  show ?thesis
    unfolding eq mem using b1 by (auto simp: resourceMetrics_def Let_def split: option.splits)
qed

section \<open>Properties of the builders\<close>

text \<open>
  C24. The metrics builder refines a bag of points: adding to a well-formed builder panics
  exactly when the batch already holds a metric of that name, under the same resource key,
  of the other kind; otherwise the builder stays well-formed and holds one more data point,
  with the point's name, value, attributes and time.
\<close>

theorem MetricsAdd_refines_bag:
  assumes "mb_good b"
  shows "case MetricsAdd now b p of
      None \<Rightarrow> kind_clash b p
    | Some b' \<Rightarrow> \<not> kind_clash b p \<and> mb_good b' \<and> mb_items b' = add_mset (metric_item now p) (mb_items b)"
proof (cases "MetricsAdd now b p")
  case None
  then show ?thesis using MetricsAdd_None_iff [of b now p] assms by (simp add: mb_good_def)
next
  case (Some b')
  have "\<not> kind_clash b p"
    using Some assms MetricsAdd_None_iff [of b now p] by (simp add: mb_good_def)
  then show ?thesis
    using metrics.good_add [OF assms Some] metrics.content_add [OF assms Some] Some by simp
qed

theorem MetricsAdd_refines_bag_witness:
  "\<exists>b'. MetricsAdd 7 NewMetricsBuilder
      \<lparr>mpResourceAttrs = [(''canopen.interface'', ''can0'')], mpName = ''speed'', mpUnit = [], mpKind = KindGauge,
       mpValue = 1, mpAttributes = None, mpTimestamp = None\<rparr> = Some b' \<and> mb_good b'"
  using MetricsAdd_refines_bag [OF metrics.good_fresh, where now = 7 and p =
      "\<lparr>mpResourceAttrs = [(''canopen.interface'', ''can0'')], mpName = ''speed'', mpUnit = [], mpKind = KindGauge,
       mpValue = 1, mpAttributes = None, mpTimestamp = None\<rparr>"]
  by (auto simp: kind_clash_def NewMetricsBuilder_def split: option.splits)

text \<open>
  C26. Grouping: a point opens a new resource only when its \<open>resourceKey\<close> is new; otherwise it
  is filed under the resource of the first point with that key, whose attributes stay as they
  were. For points of one interface the keys are equal exactly when the node ids are, so the
  other resource attributes (canopen.cob_id, canopen.sdo.index and subindex) do not separate
  resources.
\<close>

theorem MetricsAdd_grouping:
  assumes "mb_good b" "MetricsAdd now b p = Some b'"
    "map_of (mpResourceAttrs p) ''canopen.interface'' = map_of a ''canopen.interface''"
  shows "map rmAttrs (mbMd b') =
      (if resourceKey (mpResourceAttrs p) \<in> resourceKey ` set (map rmAttrs (mbMd b))
       then map rmAttrs (mbMd b) else map rmAttrs (mbMd b) @ [mpResourceAttrs p]) \<and>
     (resourceKey (mpResourceAttrs p) = resourceKey a \<longleftrightarrow>
       map_of (mpResourceAttrs p) ''canopen.node_id'' = map_of a ''canopen.node_id'')"
  using MetricsAdd_attrs assms resourceKey_same_interface [OF assms(3)] by (auto simp: mb_good_def)

definition sample_point :: "string \<Rightarrow> MetricPoint" where
  "sample_point cob = \<lparr>mpResourceAttrs = [(''canopen.interface'', ''can0''), (''canopen.cob_id'', cob)],
     mpName = ''canopen.raw.frames'', mpUnit = [], mpKind = KindSum, mpValue = 1, mpAttributes = None, mpTimestamp = None\<rparr>"

text \<open>Two raw frames on different COB-IDs in one batch: one resource, with the first COB-ID.\<close>

theorem MetricsAdd_grouping_witness:
  "\<exists>b1 b2. MetricsAdd 7 NewMetricsBuilder (sample_point ''0x50E'') = Some b1 \<and>
     MetricsAdd 8 b1 (sample_point ''0x50F'') = Some b2 \<and>
     map rmAttrs (mbMd b2) = [[(''canopen.interface'', ''can0''), (''canopen.cob_id'', ''0x50E'')]]"
proof -
  obtain b1 where b1: "MetricsAdd 7 NewMetricsBuilder (sample_point ''0x50E'') = Some b1"
    using MetricsAdd_None_iff [of NewMetricsBuilder 7 "sample_point ''0x50E''"] metrics.good_fresh
    by (auto simp: kind_clash_def NewMetricsBuilder_def mb_good_def)
  have g1: "mb_good b1" using metrics.good_add [OF metrics.good_fresh b1] .
  have md1: "map rmAttrs (mbMd b1) = [mpResourceAttrs (sample_point ''0x50E'')]"
    using MetricsAdd_grouping [OF metrics.good_fresh b1 refl] by (simp add: NewMetricsBuilder_def)
  have "mbMd b1 = mbMd b1 \<and> \<not> kind_clash b1 (sample_point ''0x50F'')"
    using b1 by (auto simp: MetricsAdd_def resourceMetrics_def metricHandle_def NewMetricsBuilder_def
        modify_at_def newMetric_def sample_point_def kind_clash_def data_kind_def Let_def)
  then obtain b2 where b2: "MetricsAdd 8 b1 (sample_point ''0x50F'') = Some b2"
    using MetricsAdd_None_iff [of b1 8 "sample_point ''0x50F''"] g1 by (auto simp: mb_good_def)
  have "map rmAttrs (mbMd b2) = [mpResourceAttrs (sample_point ''0x50E'')]"
    using MetricsAdd_grouping [OF g1 b2 refl] md1 by (simp add: sample_point_def resourceKey_def)
  then show ?thesis using b1 b2 by (simp add: sample_point_def)
qed

text \<open>
  C25. The logs builder refines a bag of records: adding to a well-formed builder never panics
  and adds exactly the one record, with its body (a raw value before a map before the text),
  severity and attributes; emitting hands out all of them and leaves a fresh builder.
\<close>

theorem LogsAdd_refines_bag:
  assumes "lb_good b"
  shows "\<exists>b'. LogsAdd now b r = Some b' \<and> lb_good b' \<and> lb_items b' = add_mset (log_item now r) (lb_items b) \<and>
     ld_items (fst (LogsEmit b')) = lb_items b' \<and> snd (LogsEmit b') = NewLogsBuilder \<and> \<not> LogsEmpty b'"
proof -
  obtain b' where b': "LogsAdd now b r = Some b'" "lb_good b'" "lb_items b' = add_mset (log_item now r) (lb_items b)"
    using LogsAdd_total [OF assms] by blast
  then have "\<not> LogsEmpty b'" using logs.empty_iff by simp
  then show ?thesis using b' logs.emit_batch logs.emit_reset by blast
qed

theorem LogsAdd_refines_bag_witness:
  "\<exists>b'. LogsAdd 7 NewLogsBuilder
      \<lparr>lrResourceAttrs = [(''canopen.interface'', ''can0'')], lrTimestamp = None, lrSeverity = SeverityNumberInfo,
       lrBody = ''x'', lrBodyValue = None, lrBodyMap = None, lrAttributes = []\<rparr> = Some b' \<and> \<not> LogsEmpty b'"
  using LogsAdd_refines_bag [OF logs.good_fresh, where now = 7] by blast

end
