(* ===== verification/SdoObserver.thy ===== *)
theory SdoObserver
  imports Prelude
begin

unbundle bit_operations_syntax

section \<open>internal/sdoobserver: passive reassembly of SDO transfers\<close>

text \<open>
  Models internal/sdoobserver/observer.go: the per-channel transfer state, expedited and
  segmented uploads and downloads, aborts and the toggle-bit check. \<open>Direction\<close> is a Go
  string; the two constants the package declares are constructors, any other text is
  \<open>OtherDirection\<close>. The map of transfer pointers is a partial map of transfer records; a
  write through a pointer is an update of the map at its key, since each transfer is
  reachable from its key only. Every byte access is behind the length check of
  \<open>ObserveOnChannel\<close>.
\<close>

datatype Direction = ClientToServer | ServerToClient | OtherDirection string

definition sdoFrameLength :: nat where
  "sdoFrameLength = 8"

record Event =
  evNodeID :: u8
  evDirection :: Direction
  evOperation :: string
  evIndex :: u16
  evSubIndex :: u8
  evData :: bytes
  evAbortCode :: "u32 option"

record transfer =
  trNodeID :: u8
  trDirection :: Direction
  trOperation :: string
  trIndex :: u16
  trSubIndex :: u8
  trUploadInitiated :: bool
  trToggle :: bool
  trData :: bytes

record Observer =
  transfers :: "u32 \<rightharpoonup> transfer"

definition NewObserver :: Observer where
  "NewObserver = \<lparr>transfers = Map.empty\<rparr>"

datatype obs_error = TruncatedFrame u8 nat | UnknownDirection Direction | UnexpectedToggle u8

text \<open>A Go result \<open>(*Event, error)\<close>: the error, or the event if there is one.\<close>

type_synonym obs_result = "obs_error + Event option"

definition objectAddress :: "bytes \<Rightarrow> u16 \<times> u8" where
  "objectAddress frame = (ucast (frame ! 1) OR push_bit 8 (ucast (frame ! 2)), frame ! 3)"

definition expeditedData :: "u8 \<Rightarrow> bytes \<Rightarrow> bytes" where
  "expeditedData command frame =
     (if command AND 0x01 = 0 then take 4 (drop 4 frame)
      else let unused = unat (drop_bit 2 command AND 0x03) in take (4 - unused) (drop 4 frame))"

definition complete :: "transfer \<Rightarrow> bytes \<Rightarrow> Event" where
  "complete tr data =
     \<lparr>evNodeID = trNodeID tr, evDirection = trDirection tr, evOperation = trOperation tr,
      evIndex = trIndex tr, evSubIndex = trSubIndex tr, evData = data, evAbortCode = None\<rparr>"

definition newTransfer :: "u8 \<Rightarrow> Direction \<Rightarrow> string \<Rightarrow> u16 \<Rightarrow> u8 \<Rightarrow> transfer" where
  "newTransfer nodeID direction operation index subIndex =
     \<lparr>trNodeID = nodeID, trDirection = direction, trOperation = operation, trIndex = index,
      trSubIndex = subIndex, trUploadInitiated = False, trToggle = False, trData = []\<rparr>"

definition observeSegment ::
  "Observer \<Rightarrow> u32 \<Rightarrow> u8 \<Rightarrow> Direction \<Rightarrow> u8 \<Rightarrow> bytes \<Rightarrow> Observer \<times> obs_result" where
  "observeSegment obs channelKey nodeID direction command frame =
     (case transfers obs channelKey of
        None \<Rightarrow> (obs, Inr None)
      | Some tr \<Rightarrow>
          if trDirection tr \<noteq> direction then (obs, Inr None)
          else if trOperation tr = ''upload'' \<and> \<not> trUploadInitiated tr then (obs, Inr None)
          else
            let toggle = (command AND 0x10 \<noteq> 0)
            in if toggle \<noteq> trToggle tr
               then (obs\<lparr>transfers := (transfers obs)(channelKey := None)\<rparr>, Inl (UnexpectedToggle nodeID))
               else
                 let last = (command AND 0x01 \<noteq> 0);
                     unused = (if last then unat (drop_bit 1 command AND 0x07) else 0);
                     data = trData tr @ take (7 - unused) (drop 1 frame);
                     tr' = tr\<lparr>trData := data, trToggle := \<not> trToggle tr\<rparr>
                 in if \<not> last
                    then (obs\<lparr>transfers := (transfers obs)(channelKey \<mapsto> tr')\<rparr>, Inr None)
                    else (obs\<lparr>transfers := (transfers obs)(channelKey := None)\<rparr>,
                          Inr (Some (complete tr' data))))"

definition observeClient ::
  "Observer \<Rightarrow> u32 \<Rightarrow> u8 \<Rightarrow> u8 \<Rightarrow> bytes \<Rightarrow> Observer \<times> obs_result" where
  "observeClient obs channelKey nodeID command frame =
     (if command = 0x40 then
        (case objectAddress frame of (index, subIndex) \<Rightarrow>
          (obs\<lparr>transfers := (transfers obs)
             (channelKey \<mapsto> newTransfer nodeID ServerToClient ''upload'' index subIndex)\<rparr>, Inr None))
      else if command AND 0xE0 = 0x20 then
        (case objectAddress frame of (index, subIndex) \<Rightarrow>
          if command AND 0x02 \<noteq> 0
          then (obs, Inr (Some
            \<lparr>evNodeID = nodeID, evDirection = ClientToServer, evOperation = ''download'',
             evIndex = index, evSubIndex = subIndex, evData = expeditedData command frame,
             evAbortCode = None\<rparr>))
          else (obs\<lparr>transfers := (transfers obs)
             (channelKey \<mapsto> newTransfer nodeID ClientToServer ''download'' index subIndex)\<rparr>, Inr None))
      else if command AND 0xE0 \<noteq> 0 then (obs, Inr None)
      else observeSegment obs channelKey nodeID ClientToServer command frame)"

definition observeServer ::
  "Observer \<Rightarrow> u32 \<Rightarrow> u8 \<Rightarrow> u8 \<Rightarrow> bytes \<Rightarrow> Observer \<times> obs_result" where
  "observeServer obs channelKey nodeID command frame =
     (case transfers obs channelKey of
        None \<Rightarrow> (obs, Inr None)
      | Some tr \<Rightarrow>
          if trOperation tr = ''upload'' \<and> command AND 0xE0 = 0x40 then
            (case objectAddress frame of (index, subIndex) \<Rightarrow>
              if index \<noteq> trIndex tr \<or> subIndex \<noteq> trSubIndex tr then (obs, Inr None)
              else if command AND 0x02 \<noteq> 0 then
                (obs\<lparr>transfers := (transfers obs)(channelKey := None)\<rparr>,
                 Inr (Some (complete tr (expeditedData command frame))))
              else (obs\<lparr>transfers := (transfers obs)(channelKey \<mapsto> tr\<lparr>trUploadInitiated := True\<rparr>)\<rparr>,
                    Inr None))
          else if trOperation tr = ''download'' \<and> command = 0x60 then (obs, Inr None)
          else if command AND 0xE0 \<noteq> 0 then (obs, Inr None)
          else observeSegment obs channelKey nodeID ServerToClient command frame)"

definition abortCodeOf :: "bytes \<Rightarrow> u32" where
  "abortCodeOf frame = ucast (frame ! 4) OR push_bit 8 (ucast (frame ! 5)) OR
     push_bit 16 (ucast (frame ! 6)) OR push_bit 24 (ucast (frame ! 7))"

definition ObserveOnChannel ::
  "Observer \<Rightarrow> u32 \<Rightarrow> u8 \<Rightarrow> Direction \<Rightarrow> bytes \<Rightarrow> Observer \<times> obs_result" where
  "ObserveOnChannel obs channelKey nodeID direction frame =
     (if length frame = 0 then (obs, Inr None)
      else if length frame < sdoFrameLength then (obs, Inl (TruncatedFrame nodeID (length frame)))
      else
        let command = frame ! 0
        in if direction = ServerToClient \<and> command = 0x80 then
             (case objectAddress frame of (index, subIndex) \<Rightarrow>
               (obs\<lparr>transfers := (transfers obs)(channelKey := None)\<rparr>,
                Inr (Some \<lparr>evNodeID = nodeID, evDirection = direction, evOperation = ''abort'',
                  evIndex = index, evSubIndex = subIndex, evData = [],
                  evAbortCode = Some (abortCodeOf frame)\<rparr>)))
           else (case direction of
               ClientToServer \<Rightarrow> observeClient obs channelKey nodeID command frame
             | ServerToClient \<Rightarrow> observeServer obs channelKey nodeID command frame
             | OtherDirection _ \<Rightarrow> (obs, Inl (UnknownDirection direction))))"

definition Observe :: "Observer \<Rightarrow> u8 \<Rightarrow> Direction \<Rightarrow> bytes \<Rightarrow> Observer \<times> obs_result" where
  "Observe obs nodeID direction frame = ObserveOnChannel obs (ucast nodeID) nodeID direction frame"

section \<open>Channels are independent\<close>

text \<open>
  A machine whose state is a map from keys, where a step for a key reads and writes that key
  only. The sniffer relies on this: one observer serves all SDO channels, and frames of
  different channels interleave on the bus.
\<close>

locale keyed_machine =
  fixes step :: "('k \<rightharpoonup> 's) \<Rightarrow> 'k \<Rightarrow> 'i \<Rightarrow> ('k \<rightharpoonup> 's) \<times> 'o"
  assumes step_other: "k' \<noteq> k \<Longrightarrow> fst (step m k i) k' = m k'"
    and step_local: "m k = m' k \<Longrightarrow> fst (step m k i) k = fst (step m' k i) k \<and> snd (step m k i) = snd (step m' k i)"
begin

primrec run :: "('k \<rightharpoonup> 's) \<Rightarrow> ('k \<times> 'i) list \<Rightarrow> ('k \<rightharpoonup> 's) \<times> ('k \<times> 'o) list" where
  "run m [] = (m, [])"
| "run m (x # xs) =
     (let (m1, out) = step m (fst x) (snd x); (m2, outs) = run m1 xs in (m2, (fst x, out) # outs))"

lemma run_Cons:
  "fst (run m (x # xs)) = fst (run (fst (step m (fst x) (snd x))) xs)"
  "snd (run m (x # xs)) = (fst x, snd (step m (fst x) (snd x))) # snd (run (fst (step m (fst x) (snd x))) xs)"
  by (simp_all add: split_beta Let_def)

definition only :: "'k \<Rightarrow> ('k \<times> 'x) list \<Rightarrow> ('k \<times> 'x) list" where
  "only k xs = filter (\<lambda>x. fst x = k) xs"

lemma run_cong:
  "m k = m' k \<Longrightarrow> fst (run m (only k xs)) k = fst (run m' (only k xs)) k \<and> snd (run m (only k xs)) = snd (run m' (only k xs))"
proof (induction xs arbitrary: m m')
  case (Cons x xs)
  show ?case
  proof (cases "fst x = k")
    case True
    let ?m1 = "fst (step m k (snd x))" and ?m1' = "fst (step m' k (snd x))"
    have st: "?m1 k = ?m1' k" "snd (step m k (snd x)) = snd (step m' k (snd x))"
      using step_local [of m k m' "snd x", OF Cons.prems] by blast+
    have ih: "fst (run ?m1 (only k xs)) k = fst (run ?m1' (only k xs)) k" "snd (run ?m1 (only k xs)) = snd (run ?m1' (only k xs))"
      using Cons.IH [of ?m1 ?m1', OF st(1)] by blast+
    have eq: "only k (x # xs) = x # only k xs" using True by (simp add: only_def)
    show ?thesis
      unfolding eq run_Cons True using ih st(2) by simp
  next
    case False
    then have "only k (x # xs) = only k xs" by (simp add: only_def)
    then show ?thesis using Cons.IH [of m m', OF Cons.prems] by simp
  qed
qed (simp add: only_def)

lemma run_only:
  "fst (run m xs) k = fst (run m (only k xs)) k \<and> only k (snd (run m xs)) = snd (run m (only k xs))"
proof (induction xs arbitrary: m)
  case (Cons x xs)
  let ?m1 = "fst (step m (fst x) (snd x))"
  show ?case
  proof (cases "fst x = k")
    case True
    then have eq: "only k (x # xs) = x # only k xs" by (simp add: only_def)
    show ?thesis
      unfolding eq run_Cons using Cons.IH [of ?m1] True by (simp add: only_def)
  next
    case False
    then have "?m1 k = m k" by (simp add: step_other)
    note same = run_cong [of ?m1 k m xs, OF this]
    have "only k (x # xs) = only k xs" "only k ((fst x, out) # ys) = only k ys" for out :: 'o and ys
      using False by (simp_all add: only_def)
    then show ?thesis
      unfolding run_Cons using Cons.IH [of ?m1] same by simp
  qed
qed (simp add: only_def)

end

text \<open>The observer as such a machine: an input is the node, the direction and the payload.\<close>

definition obs_step ::
  "(u32 \<rightharpoonup> transfer) \<Rightarrow> u32 \<Rightarrow> u8 \<times> Direction \<times> bytes \<Rightarrow> (u32 \<rightharpoonup> transfer) \<times> obs_result" where
  "obs_step m k i = (case i of (nodeID, direction, frame) \<Rightarrow>
     (case ObserveOnChannel \<lparr>transfers = m\<rparr> k nodeID direction frame of (obs, r) \<Rightarrow> (transfers obs, r)))"

lemmas observe_defs = ObserveOnChannel_def observeClient_def observeServer_def observeSegment_def

lemma observeSegment_other:
  "k' \<noteq> k \<Longrightarrow> transfers (fst (observeSegment obs k n d c f)) k' = transfers obs k'"
  by (auto simp: observeSegment_def Let_def split: option.splits)

lemma observe_other:
  "k' \<noteq> k \<Longrightarrow> transfers (fst (ObserveOnChannel obs k n d f)) k' = transfers obs k'"
  by (auto simp: ObserveOnChannel_def observeClient_def observeServer_def observeSegment_other Let_def
      split: option.splits Direction.splits prod.splits)

lemma observeSegment_local:
  "transfers obs k = transfers obs' k \<Longrightarrow>
     transfers (fst (observeSegment obs k n d c f)) k = transfers (fst (observeSegment obs' k n d c f)) k \<and>
     snd (observeSegment obs k n d c f) = snd (observeSegment obs' k n d c f)"
  by (auto simp: observeSegment_def Let_def split: option.splits)

lemma observe_local:
  "transfers obs k = transfers obs' k \<Longrightarrow>
     transfers (fst (ObserveOnChannel obs k n d f)) k = transfers (fst (ObserveOnChannel obs' k n d f)) k \<and>
     snd (ObserveOnChannel obs k n d f) = snd (ObserveOnChannel obs' k n d f)"
  using observeSegment_local [of obs k obs' n]
  by (auto simp: ObserveOnChannel_def observeClient_def observeServer_def Let_def
      split: option.splits Direction.splits prod.splits)

interpretation channels: keyed_machine obs_step
proof unfold_locales
  show "fst (obs_step m k i) k' = m k'" if "k' \<noteq> k" for k' k m i
    using observe_other [OF that, of "\<lparr>transfers = m\<rparr>"] by (simp add: obs_step_def split_beta)
  show "fst (obs_step m k i) k = fst (obs_step m' k i) k \<and> snd (obs_step m k i) = snd (obs_step m' k i)"
    if "m k = m' k" for m k m' i
    using observe_local [of "\<lparr>transfers = m\<rparr>" k "\<lparr>transfers = m'\<rparr>"] that
    by (simp add: obs_step_def split_beta)
qed

section \<open>Reassembly of what a conforming device sends\<close>

text \<open>
  The frames of CiA 301 transfers, as a sender builds them: an address is two little-endian
  index bytes and the sub-index; a segment carries seven bytes, the last one says how many of
  its bytes are unused; the toggle bit starts at 0 and alternates.
\<close>

definition address :: "u16 \<Rightarrow> u8 \<Rightarrow> bytes" where
  "address index subIndex = [ucast index, ucast (drop_bit 8 index), subIndex]"

definition toggle_bit :: "bool \<Rightarrow> u8" where
  "toggle_bit t = (if t then 0x10 else 0)"

definition last_command :: "bool \<Rightarrow> nat \<Rightarrow> u8" where
  "last_command t unused = toggle_bit t OR push_bit 1 (of_nat unused) OR 1"

definition last_segment :: "bool \<Rightarrow> bytes \<Rightarrow> bytes" where
  "last_segment t bs = last_command t (7 - length bs) # bs @ replicate (7 - length bs) 0"

fun segments :: "bool \<Rightarrow> bytes \<Rightarrow> bytes list" where
  "segments t bs =
     (if length bs \<le> 7 then [last_segment t bs]
      else (toggle_bit t # take 7 bs) # segments (\<not> t) (drop 7 bs))"

declare segments.simps [simp del]

text \<open>A segment as the observer sees it: which frame it is, whether it ends the transfer.\<close>

lemma last_command_facts:
  assumes "u \<le> 7"
  shows "last_command t u AND 0xE0 = 0" "(last_command t u AND 0x10 \<noteq> 0) = t" "last_command t u AND 1 \<noteq> 0"
    "unat (drop_bit 1 (last_command t u) AND 7) = u"
proof -
  have "u \<in> {0, 1, 2, 3, 4, 5, 6, 7}" using assms by auto
  then show "last_command t u AND 0xE0 = 0" "(last_command t u AND 0x10 \<noteq> 0) = t" "last_command t u AND 1 \<noteq> 0"
    "unat (drop_bit 1 (last_command t u) AND 7) = u"
    by (auto simp: last_command_def toggle_bit_def)
qed

lemma toggle_bit_facts:
  "toggle_bit t AND 0xE0 = 0" "(toggle_bit t AND 0x10 \<noteq> 0) = t" "toggle_bit t AND 1 = 0"
  by (auto simp: toggle_bit_def)

lemma objectAddress_address:
  "objectAddress (c # address index subIndex @ rest) = (index, subIndex)"
proof -
  have "(ucast (ucast index :: u8) OR push_bit 8 (ucast (ucast (drop_bit 8 index) :: u8)) :: u16) = index"
    by (rule bit_word_eqI) (auto simp: bit_simps)
  then show ?thesis by (simp add: objectAddress_def address_def)
qed

text \<open>The state of a running transfer, ready for its segments.\<close>

definition ready :: "transfer \<Rightarrow> Direction \<Rightarrow> bool" where
  "ready tr d \<longleftrightarrow> trDirection tr = d \<and> (trOperation tr = ''upload'' \<longrightarrow> trUploadInitiated tr)"

lemma observeSegment_last:
  assumes "transfers obs k = Some tr" "ready tr d" "length bs \<le> 7"
  shows "observeSegment obs k n d (last_command (trToggle tr) (7 - length bs)) (last_segment (trToggle tr) bs) =
    (obs\<lparr>transfers := (transfers obs)(k := None)\<rparr>, Inr (Some (complete tr (trData tr @ bs))))"
  using assms last_command_facts [of "7 - length bs" "trToggle tr"]
  by (auto simp: observeSegment_def ready_def Let_def last_segment_def complete_def)

lemma observeSegment_more:
  assumes "transfers obs k = Some tr" "ready tr d" "7 \<le> length bs"
  shows "observeSegment obs k n d (toggle_bit (trToggle tr)) (toggle_bit (trToggle tr) # take 7 bs) =
    (obs\<lparr>transfers := (transfers obs)(k \<mapsto> tr\<lparr>trData := trData tr @ take 7 bs, trToggle := \<not> trToggle tr\<rparr>)\<rparr>, Inr None)"
  using assms toggle_bit_facts [of "trToggle tr"]
  by (auto simp: observeSegment_def ready_def Let_def)

text \<open>A frame of the sender's direction with a segment command reaches \<open>observeSegment\<close>.\<close>

lemma segment_dispatch:
  assumes "length frame = 8" "frame ! 0 = c" "c AND 0xE0 = 0" "transfers obs k = Some tr" "ready tr d"
    "d = ClientToServer \<or> d = ServerToClient"
  shows "ObserveOnChannel obs k n d frame = observeSegment obs k n d c frame"
proof -
  have "c \<noteq> 0x40" "c \<noteq> 0x80" "c \<noteq> 0x60" using assms(3) by auto
  then show ?thesis
    using assms by (auto simp: ObserveOnChannel_def sdoFrameLength_def observeClient_def observeServer_def)
qed

text \<open>Running a list of payloads of one direction through the observer, keeping the results.\<close>

primrec feed :: "Observer \<Rightarrow> u32 \<Rightarrow> u8 \<Rightarrow> (Direction \<times> bytes) list \<Rightarrow> Observer \<times> obs_result list" where
  "feed obs k n [] = (obs, [])"
| "feed obs k n (x # xs) =
     (let (obs1, r) = ObserveOnChannel obs k n (fst x) (snd x); (obs2, rs) = feed obs1 k n xs in (obs2, r # rs))"

lemma feed_append:
  "feed obs k n (xs @ ys) =
     (let (obs1, rs) = feed obs k n xs; (obs2, rs') = feed obs1 k n ys in (obs2, rs @ rs'))"
  by (induction xs arbitrary: obs) (simp_all add: split_beta Let_def)

text \<open>
  What the other side sends between the segments changes nothing: a client's segment requests
  during an upload, a server's acknowledgements during a download.
\<close>

definition filler :: "Direction \<Rightarrow> bool \<Rightarrow> Direction \<times> bytes" where
  "filler d t = (case d of
     ServerToClient \<Rightarrow> (ClientToServer, (0x60 OR toggle_bit t) # replicate 7 0)
   | _ \<Rightarrow> (ServerToClient, (0x20 OR toggle_bit t) # replicate 7 0))"

lemma filler_ignored:
  assumes "transfers obs k = Some tr" "trDirection tr = d" "d = ClientToServer \<or> d = ServerToClient"
    "trOperation tr = (if d = ServerToClient then ''upload'' else ''download'')"
  shows "ObserveOnChannel obs k n (fst (filler d t)) (snd (filler d t)) = (obs, Inr None)"
  using assms
  by (auto simp: filler_def ObserveOnChannel_def sdoFrameLength_def observeClient_def observeServer_def toggle_bit_def)

text \<open>The conversation from the first segment on: an upload segment follows the client's request
  for it, a download segment is followed by the server's acknowledgement.\<close>

fun dialog :: "Direction \<Rightarrow> bool \<Rightarrow> bytes \<Rightarrow> (Direction \<times> bytes) list" where
  "dialog d t bs =
     (if length bs \<le> 7
      then (if d = ServerToClient then [filler d t, (d, last_segment t bs)] else [(d, last_segment t bs)])
      else (if d = ServerToClient then [filler d t, (d, toggle_bit t # take 7 bs)]
            else [(d, toggle_bit t # take 7 bs), filler d t]) @ dialog d (\<not> t) (drop 7 bs))"

declare dialog.simps [simp del]

lemma dialog_reassembles:
  assumes "transfers obs k = Some tr" "ready tr d" "d = ClientToServer \<or> d = ServerToClient"
    "trOperation tr = (if d = ServerToClient then ''upload'' else ''download'')" "trToggle tr = t"
  shows "\<exists>m. feed obs k n (dialog d t bs) =
    (obs\<lparr>transfers := (transfers obs)(k := None)\<rparr>,
     replicate m (Inr None) @ [Inr (Some (complete tr (trData tr @ bs)))])"
  using assms
proof (induction d t bs arbitrary: obs tr rule: dialog.induct)
  case (1 d t bs)
  have fill: "ObserveOnChannel obs k n (fst (filler d t)) (snd (filler d t)) = (obs, Inr None)"
    using "1.prems" by (intro filler_ignored) (auto simp: ready_def)
  show ?case
  proof (cases "length bs \<le> 7")
    case True
    have "ObserveOnChannel obs k n d (last_segment t bs) =
        (obs\<lparr>transfers := (transfers obs)(k := None)\<rparr>, Inr (Some (complete tr (trData tr @ bs))))"
      using segment_dispatch [of "last_segment t bs" "last_command t (7 - length bs)" obs k tr d n]
        observeSegment_last [of obs k tr d bs n] last_command_facts(1) [of "7 - length bs" t] True "1.prems"
      by (simp add: last_segment_def)
    then have "feed obs k n (dialog d t bs) = (obs\<lparr>transfers := (transfers obs)(k := None)\<rparr>,
        replicate (if d = ServerToClient then 1 else 0) (Inr None) @ [Inr (Some (complete tr (trData tr @ bs)))])"
      using True fill by (auto simp: dialog.simps [of d t bs])
    then show ?thesis by blast
  next
    case False
    let ?tr = "tr\<lparr>trData := trData tr @ take 7 bs, trToggle := \<not> t\<rparr>"
    let ?obs = "obs\<lparr>transfers := (transfers obs)(k \<mapsto> ?tr)\<rparr>"
    have step: "ObserveOnChannel obs k n d (toggle_bit t # take 7 bs) = (?obs, Inr None)"
      using segment_dispatch [of "toggle_bit t # take 7 bs" "toggle_bit t" obs k tr d n]
        observeSegment_more [of obs k tr d bs n] toggle_bit_facts(1) [of t] False "1.prems"
      by simp
    have fill': "ObserveOnChannel ?obs k n (fst (filler d t)) (snd (filler d t)) = (?obs, Inr None)"
      by (rule filler_ignored [of ?obs k ?tr]) (use "1.prems" in \<open>simp_all add: ready_def\<close>)
    have "\<exists>m. feed ?obs k n (dialog d (\<not> t) (drop 7 bs)) =
        (?obs\<lparr>transfers := (transfers ?obs)(k := None)\<rparr>,
         replicate m (Inr None) @ [Inr (Some (complete ?tr (trData ?tr @ drop 7 bs)))])"
      by (rule "1.IH" [OF False]) (use "1.prems" in \<open>simp_all add: ready_def\<close>)
    then obtain m where "feed ?obs k n (dialog d (\<not> t) (drop 7 bs)) =
        (?obs\<lparr>transfers := (transfers ?obs)(k := None)\<rparr>,
         replicate m (Inr None) @ [Inr (Some (complete ?tr (trData ?tr @ drop 7 bs)))])"
      by blast
    then have "feed obs k n (dialog d t bs) = (obs\<lparr>transfers := (transfers obs)(k := None)\<rparr>,
        replicate (Suc (Suc m)) (Inr None) @ [Inr (Some (complete tr (trData tr @ bs)))])"
      using False fill fill' step by (auto simp: dialog.simps [of d t bs] complete_def)
    then show ?thesis by blast
  qed
qed

definition upload_conversation :: "u16 \<Rightarrow> u8 \<Rightarrow> bytes \<Rightarrow> bytes \<Rightarrow> (Direction \<times> bytes) list" where
  "upload_conversation index subIndex size4 bs =
     (ClientToServer, 0x40 # address index subIndex @ [0, 0, 0, 0]) #
     (ServerToClient, 0x41 # address index subIndex @ size4) # dialog ServerToClient False bs"

definition download_conversation :: "u16 \<Rightarrow> u8 \<Rightarrow> bytes \<Rightarrow> bytes \<Rightarrow> (Direction \<times> bytes) list" where
  "download_conversation index subIndex size4 bs =
     (ClientToServer, 0x21 # address index subIndex @ size4) #
     (ServerToClient, 0x60 # address index subIndex @ [0, 0, 0, 0]) # dialog ClientToServer False bs"

text \<open>The event of a finished transfer.\<close>

definition transfer_event :: "u8 \<Rightarrow> Direction \<Rightarrow> string \<Rightarrow> u16 \<Rightarrow> u8 \<Rightarrow> bytes \<Rightarrow> Event" where
  "transfer_event n d operation index subIndex data =
     \<lparr>evNodeID = n, evDirection = d, evOperation = operation, evIndex = index, evSubIndex = subIndex,
      evData = data, evAbortCode = None\<rparr>"

lemma complete_newTransfer:
  "complete (newTransfer n d operation index subIndex\<lparr>trUploadInitiated := u\<rparr>) data =
     transfer_event n d operation index subIndex data"
  "complete (newTransfer n d operation index subIndex) data = transfer_event n d operation index subIndex data"
  by (simp_all add: complete_def newTransfer_def transfer_event_def)

lemma length_address [simp]: "length (address index subIndex) = 3"
  by (simp add: address_def)

lemma upload_request_step:
  "ObserveOnChannel obs k n ClientToServer (0x40 # address index subIndex @ [0, 0, 0, 0]) =
     (obs\<lparr>transfers := (transfers obs)(k \<mapsto> newTransfer n ServerToClient ''upload'' index subIndex)\<rparr>, Inr None)"
  by (simp add: ObserveOnChannel_def sdoFrameLength_def observeClient_def objectAddress_address)

lemma upload_init_step:
  assumes "transfers obs k = Some (newTransfer n ServerToClient ''upload'' index subIndex)" "length size4 = 4"
  shows "ObserveOnChannel obs k n ServerToClient (0x41 # address index subIndex @ size4) =
     (obs\<lparr>transfers := (transfers obs)
        (k \<mapsto> newTransfer n ServerToClient ''upload'' index subIndex\<lparr>trUploadInitiated := True\<rparr>)\<rparr>, Inr None)"
  using assms
  by (simp add: ObserveOnChannel_def sdoFrameLength_def observeServer_def objectAddress_address)
    (simp add: newTransfer_def)

lemma download_init_step:
  assumes "length size4 = 4"
  shows "ObserveOnChannel obs k n ClientToServer (0x21 # address index subIndex @ size4) =
     (obs\<lparr>transfers := (transfers obs)(k \<mapsto> newTransfer n ClientToServer ''download'' index subIndex)\<rparr>, Inr None)"
  using assms
  by (simp add: ObserveOnChannel_def sdoFrameLength_def observeClient_def objectAddress_address)

lemma download_confirm_step:
  assumes "transfers obs k = Some tr" "trOperation tr = ''download''"
  shows "ObserveOnChannel obs k n ServerToClient (0x60 # address index subIndex @ [0, 0, 0, 0]) = (obs, Inr None)"
  using assms by (simp add: ObserveOnChannel_def sdoFrameLength_def observeServer_def)

lemma conversation_result:
  assumes "feed obs k n xs = (obs1, replicate m (Inr None))"
    "feed obs1 k n ys = (obs2, replicate m' (Inr None) @ [r])"
  shows "\<exists>m. feed obs k n (xs @ ys) = (obs2, replicate m (Inr None) @ [r])"
  by (rule exI [of _ "m + m'"]) (simp add: feed_append assms replicate_add)

lemma upload_reassembles:
  assumes "length size4 = 4"
  shows "\<exists>m. feed obs k n (upload_conversation index subIndex size4 bs) =
     (obs\<lparr>transfers := (transfers obs)(k := None)\<rparr>,
      replicate m (Inr None) @ [Inr (Some (transfer_event n ServerToClient ''upload'' index subIndex bs))])"
proof -
  let ?tr = "newTransfer n ServerToClient ''upload'' index subIndex\<lparr>trUploadInitiated := True\<rparr>"
  let ?obs = "obs\<lparr>transfers := (transfers obs)(k \<mapsto> ?tr)\<rparr>"
  have pre: "feed obs k n [(ClientToServer, 0x40 # address index subIndex @ [0, 0, 0, 0]),
      (ServerToClient, 0x41 # address index subIndex @ size4)] = (?obs, replicate 2 (Inr None))"
    using assms by (simp add: upload_request_step upload_init_step numeral_2_eq_2)
  obtain m where "feed ?obs k n (dialog ServerToClient False bs) =
      (?obs\<lparr>transfers := (transfers ?obs)(k := None)\<rparr>,
       replicate m (Inr None) @ [Inr (Some (complete ?tr (trData ?tr @ bs)))])"
    using dialog_reassembles [of ?obs k ?tr ServerToClient False n bs]
    by (auto simp: ready_def newTransfer_def)
  then have post: "feed ?obs k n (dialog ServerToClient False bs) = (obs\<lparr>transfers := (transfers obs)(k := None)\<rparr>,
       replicate m (Inr None) @ [Inr (Some (transfer_event n ServerToClient ''upload'' index subIndex bs))])"
    unfolding complete_newTransfer by (simp add: newTransfer_def)
  show ?thesis
    using conversation_result [OF pre post] by (simp add: upload_conversation_def)
qed

lemma download_reassembles:
  assumes "length size4 = 4"
  shows "\<exists>m. feed obs k n (download_conversation index subIndex size4 bs) =
     (obs\<lparr>transfers := (transfers obs)(k := None)\<rparr>,
      replicate m (Inr None) @ [Inr (Some (transfer_event n ClientToServer ''download'' index subIndex bs))])"
proof -
  let ?tr = "newTransfer n ClientToServer ''download'' index subIndex"
  let ?obs = "obs\<lparr>transfers := (transfers obs)(k \<mapsto> ?tr)\<rparr>"
  have tr: "transfers ?obs k = Some ?tr" "trOperation ?tr = ''download''" by (simp_all add: newTransfer_def)
  have pre: "feed obs k n [(ClientToServer, 0x21 # address index subIndex @ size4),
      (ServerToClient, 0x60 # address index subIndex @ [0, 0, 0, 0])] = (?obs, replicate 2 (Inr None))"
    using assms by (simp add: download_init_step download_confirm_step [OF tr] numeral_2_eq_2)
  obtain m where "feed ?obs k n (dialog ClientToServer False bs) =
      (?obs\<lparr>transfers := (transfers ?obs)(k := None)\<rparr>,
       replicate m (Inr None) @ [Inr (Some (complete ?tr (trData ?tr @ bs)))])"
    using dialog_reassembles [of ?obs k ?tr ClientToServer False n bs]
    by (auto simp: ready_def newTransfer_def)
  then have post: "feed ?obs k n (dialog ClientToServer False bs) = (obs\<lparr>transfers := (transfers obs)(k := None)\<rparr>,
       replicate m (Inr None) @ [Inr (Some (transfer_event n ClientToServer ''download'' index subIndex bs))])"
    unfolding complete_newTransfer by (simp add: newTransfer_def)
  show ?thesis
    using conversation_result [OF pre post] by (simp add: download_conversation_def)
qed

subsection \<open>Expedited transfers\<close>

text \<open>One to four bytes travel in the initiation frame; the command says how many are unused.\<close>

definition expedited_command :: "u8 \<Rightarrow> nat \<Rightarrow> u8" where
  "expedited_command base len = base OR push_bit 2 (of_nat (4 - len)) OR 3"

definition expedited_frame :: "u8 \<Rightarrow> u16 \<Rightarrow> u8 \<Rightarrow> bytes \<Rightarrow> bytes" where
  "expedited_frame base index subIndex bs =
     expedited_command base (length bs) # address index subIndex @ bs @ replicate (4 - length bs) 0"

lemma expedited_command_facts:
  assumes "base = 0x40 \<or> base = 0x20" "1 \<le> len" "len \<le> 4"
  shows "expedited_command base len AND 0xE0 = base" "expedited_command base len AND 2 \<noteq> 0"
    "expedited_command base len AND 1 \<noteq> 0" "expedited_command base len \<noteq> 0x40" "expedited_command base len \<noteq> 0x80"
    "unat (drop_bit 2 (expedited_command base len) AND 3) = 4 - len"
proof -
  have "len \<in> {1, 2, 3, 4}" using assms by auto
  then show "expedited_command base len AND 0xE0 = base" "expedited_command base len AND 2 \<noteq> 0"
    "expedited_command base len AND 1 \<noteq> 0" "expedited_command base len \<noteq> 0x40" "expedited_command base len \<noteq> 0x80"
    "unat (drop_bit 2 (expedited_command base len) AND 3) = 4 - len"
    using assms(1) by (auto simp: expedited_command_def)
qed

lemma expeditedData_frame:
  assumes "base = 0x40 \<or> base = 0x20" "1 \<le> length bs" "length bs \<le> 4"
  shows "expeditedData (expedited_command base (length bs)) (expedited_frame base index subIndex bs) = bs"
  using expedited_command_facts [OF assms] assms
  by (simp add: expeditedData_def expedited_frame_def address_def Let_def)

lemma expedited_upload_step:
  assumes "transfers obs k = Some (newTransfer n ServerToClient ''upload'' index subIndex)"
    "1 \<le> length bs" "length bs \<le> 4"
  shows "ObserveOnChannel obs k n ServerToClient (expedited_frame 0x40 index subIndex bs) =
     (obs\<lparr>transfers := (transfers obs)(k := None)\<rparr>,
      Inr (Some (transfer_event n ServerToClient ''upload'' index subIndex bs)))"
proof -
  let ?f = "expedited_frame 0x40 index subIndex bs"
  note facts = expedited_command_facts [of "0x40" "length bs"]
  have "length ?f = 8" "?f ! 0 = expedited_command 0x40 (length bs)" "objectAddress ?f = (index, subIndex)"
    using assms by (simp_all add: expedited_frame_def objectAddress_address)
  then show ?thesis
    using assms facts expeditedData_frame [of "0x40" bs index subIndex]
    by (simp add: ObserveOnChannel_def sdoFrameLength_def observeServer_def complete_newTransfer)
      (simp add: newTransfer_def complete_def transfer_event_def)
qed

lemma expedited_download_step:
  assumes "1 \<le> length bs" "length bs \<le> 4"
  shows "ObserveOnChannel obs k n ClientToServer (expedited_frame 0x20 index subIndex bs) =
     (obs, Inr (Some (transfer_event n ClientToServer ''download'' index subIndex bs)))"
proof -
  let ?f = "expedited_frame 0x20 index subIndex bs"
  note facts = expedited_command_facts [of "0x20" "length bs"]
  have "length ?f = 8" "?f ! 0 = expedited_command 0x20 (length bs)" "objectAddress ?f = (index, subIndex)"
    using assms by (simp_all add: expedited_frame_def objectAddress_address)
  then show ?thesis
    using assms facts expeditedData_frame [of "0x20" bs index subIndex]
    by (simp add: ObserveOnChannel_def sdoFrameLength_def observeClient_def transfer_event_def)
qed

section \<open>Invariant of the observer\<close>

text \<open>
  An upload collects server segments, a download client segments; only an upload is ever
  initiated, and it has no data before; every collected segment but the last had seven
  bytes, and the expected toggle bit is the parity of their number.
\<close>

definition transfer_inv :: "transfer \<Rightarrow> bool" where
  "transfer_inv tr \<longleftrightarrow>
     (trOperation tr = ''upload'' \<and> trDirection tr = ServerToClient \<or>
      trOperation tr = ''download'' \<and> trDirection tr = ClientToServer \<and> \<not> trUploadInitiated tr) \<and>
     7 dvd length (trData tr) \<and> (trToggle tr \<longleftrightarrow> odd (length (trData tr) div 7)) \<and>
     (trOperation tr = ''upload'' \<longrightarrow> \<not> trUploadInitiated tr \<longrightarrow> trData tr = [])"

definition obs_inv :: "Observer \<Rightarrow> bool" where
  "obs_inv obs \<longleftrightarrow> (\<forall>k tr. transfers obs k = Some tr \<longrightarrow> transfer_inv tr)"

text \<open>What an event may look like.\<close>

definition event_ok :: "Event \<Rightarrow> bool" where
  "event_ok e \<longleftrightarrow>
     (case evAbortCode e of
        Some _ \<Rightarrow> evOperation e = ''abort'' \<and> evDirection e = ServerToClient \<and> evData e = []
      | None \<Rightarrow> evOperation e = ''upload'' \<and> evDirection e = ServerToClient \<or>
                evOperation e = ''download'' \<and> evDirection e = ClientToServer)"

definition result_ok :: "obs_result \<Rightarrow> bool" where
  "result_ok r = (case r of Inr (Some e) \<Rightarrow> event_ok e | _ \<Rightarrow> True)"

lemma result_ok_simps [simp]: "result_ok (Inl err)" "result_ok (Inr None)" "result_ok (Inr (Some e)) = event_ok e"
  by (simp_all add: result_ok_def)

lemma obs_inv_upd:
  "obs_inv obs \<Longrightarrow> transfer_inv tr \<Longrightarrow> obs_inv (obs\<lparr>transfers := (transfers obs)(k \<mapsto> tr)\<rparr>)"
  "obs_inv obs \<Longrightarrow> obs_inv (obs\<lparr>transfers := (transfers obs)(k := None)\<rparr>)"
  by (auto simp: obs_inv_def)

lemma transfer_inv_new [simp]:
  "transfer_inv (newTransfer n ServerToClient ''upload'' index subIndex)"
  "transfer_inv (newTransfer n ClientToServer ''download'' index subIndex)"
  by (simp_all add: transfer_inv_def newTransfer_def)

lemma event_ok_complete: "transfer_inv tr \<Longrightarrow> event_ok (complete tr data)"
  by (auto simp: transfer_inv_def event_ok_def complete_def)

lemma transfer_inv_segment:
  assumes "transfer_inv tr" "length seg = 7" "trOperation tr = ''upload'' \<longrightarrow> trUploadInitiated tr"
  shows "transfer_inv (tr\<lparr>trData := trData tr @ seg, trToggle := \<not> trToggle tr\<rparr>)"
proof -
  obtain q where "length (trData tr) = 7 * q" using assms(1) by (auto simp: transfer_inv_def)
  then show ?thesis using assms by (auto simp: transfer_inv_def)
qed

lemma observeSegment_inv:
  assumes "obs_inv obs" "8 \<le> length frame" "observeSegment obs k n d c frame = (obs', r)"
  shows "obs_inv obs' \<and> result_ok r"
proof (cases "transfers obs k")
  case None
  then show ?thesis using assms by (auto simp: observeSegment_def)
next
  case (Some tr)
  then have inv: "transfer_inv tr" using assms(1) by (simp add: obs_inv_def)
  have "length (take (7 - 0) (drop 1 frame)) = 7" using assms(2) by simp
  then show ?thesis
    using assms Some inv transfer_inv_segment [OF inv, of "take 7 (drop 1 frame)"]
    by (auto simp: observeSegment_def Let_def obs_inv_upd complete_def event_ok_def transfer_inv_def
        split: if_splits)
qed

lemma observeClient_inv:
  assumes "obs_inv obs" "8 \<le> length frame" "observeClient obs k n c frame = (obs', r)"
  shows "obs_inv obs' \<and> result_ok r"
  using assms observeSegment_inv [OF assms(1,2)]
  by (auto simp: observeClient_def obs_inv_upd event_ok_def split: if_splits prod.splits)

lemma observeServer_inv:
  assumes "obs_inv obs" "8 \<le> length frame" "observeServer obs k n c frame = (obs', r)"
  shows "obs_inv obs' \<and> result_ok r"
proof (cases "transfers obs k")
  case None
  then show ?thesis using assms by (auto simp: observeServer_def)
next
  case (Some tr)
  then have inv: "transfer_inv tr" using assms(1) by (simp add: obs_inv_def)
  have "transfer_inv (tr\<lparr>trUploadInitiated := True\<rparr>)" if "trOperation tr = ''upload''"
    using inv that by (auto simp: transfer_inv_def)
  then show ?thesis
    using assms Some inv observeSegment_inv [OF assms(1,2)]
    by (auto simp: observeServer_def obs_inv_upd event_ok_complete split: if_splits prod.splits)
qed

lemma ObserveOnChannel_inv:
  assumes "obs_inv obs" "ObserveOnChannel obs k n d frame = (obs', r)"
  shows "obs_inv obs' \<and> result_ok r"
proof (cases "length frame < 8")
  case True
  then show ?thesis using assms by (auto simp: ObserveOnChannel_def sdoFrameLength_def split: if_splits)
next
  case False
  then show ?thesis
    using assms observeClient_inv [OF assms(1), of frame k n] observeServer_inv [OF assms(1), of frame k n]
    by (auto simp: ObserveOnChannel_def sdoFrameLength_def Let_def obs_inv_upd event_ok_def
        split: if_splits prod.splits Direction.splits)
qed

text \<open>A run over the frames of all channels.\<close>

primrec obs_run ::
  "Observer \<Rightarrow> (u32 \<times> u8 \<times> Direction \<times> bytes) list \<Rightarrow> Observer \<times> (u32 \<times> obs_result) list" where
  "obs_run obs [] = (obs, [])"
| "obs_run obs (x # xs) =
     (case x of (k, n, d, f) \<Rightarrow>
        (case ObserveOnChannel obs k n d f of (obs1, r) \<Rightarrow>
           (case obs_run obs1 xs of (obs2, rs) \<Rightarrow> (obs2, (k, r) # rs))))"

lemma Observer_fold: "\<lparr>transfers = transfers obs\<rparr> = (obs :: Observer)"
  by simp

lemma obs_run_channels:
  "channels.run (transfers obs) xs = (transfers (fst (obs_run obs xs)), snd (obs_run obs xs))"
proof (induction xs arbitrary: obs)
  case (Cons x xs)
  obtain k n d f where x: "x = (k, n, d, f)" by (cases x) auto
  obtain obs1 r where o: "ObserveOnChannel obs k n d f = (obs1, r)" by force
  have "obs_step (transfers obs) k (n, d, f) = (transfers obs1, r)"
    using o by (simp add: obs_step_def Observer_fold)
  then show ?case
    using Cons.IH [of obs1] x o by (simp add: split_beta)
qed simp

lemma obs_run_inv: "obs_inv obs \<Longrightarrow> obs_inv (fst (obs_run obs xs)) \<and> (\<forall>x \<in> set (snd (obs_run obs xs)). result_ok (snd x))"
proof (induction xs arbitrary: obs)
  case (Cons x xs)
  obtain k n d f where x: "x = (k, n, d, f)" by (cases x) auto
  obtain obs1 r where o: "ObserveOnChannel obs k n d f = (obs1, r)" by force
  have "obs_inv obs1 \<and> result_ok r" using ObserveOnChannel_inv [OF Cons.prems o] .
  then show ?case using Cons.IH [of obs1] x o by (simp add: split_beta)
qed simp

section \<open>An upload event has a request and a confirmation behind it\<close>

definition is_request :: "u16 \<Rightarrow> u8 \<Rightarrow> Direction \<times> bytes \<Rightarrow> bool" where
  "is_request index subIndex x \<longleftrightarrow> fst x = ClientToServer \<and> 8 \<le> length (snd x) \<and> snd x ! 0 = 0x40 \<and>
     objectAddress (snd x) = (index, subIndex)"

definition is_confirmation :: "u16 \<Rightarrow> u8 \<Rightarrow> Direction \<times> bytes \<Rightarrow> bool" where
  "is_confirmation index subIndex x \<longleftrightarrow> fst x = ServerToClient \<and> 8 \<le> length (snd x) \<and>
     snd x ! 0 AND 0xE0 = 0x40 \<and> objectAddress (snd x) = (index, subIndex)"

definition backed :: "(Direction \<times> bytes) set \<Rightarrow> Observer \<Rightarrow> u32 \<Rightarrow> bool" where
  "backed seen obs k \<longleftrightarrow> (\<forall>tr. transfers obs k = Some tr \<longrightarrow> trOperation tr = ''upload'' \<longrightarrow>
     (\<exists>x \<in> seen. is_request (trIndex tr) (trSubIndex tr) x) \<and>
     (trUploadInitiated tr \<longrightarrow> (\<exists>x \<in> seen. is_confirmation (trIndex tr) (trSubIndex tr) x)))"

definition event_backed :: "(Direction \<times> bytes) set \<Rightarrow> obs_result \<Rightarrow> bool" where
  "event_backed seen r \<longleftrightarrow> (\<forall>e. r = Inr (Some e) \<longrightarrow> evOperation e = ''upload'' \<longrightarrow>
     (\<exists>x \<in> seen. is_request (evIndex e) (evSubIndex e) x) \<and>
     (\<exists>x \<in> seen. is_confirmation (evIndex e) (evSubIndex e) x))"

lemma backed_mono: "backed A obs k \<Longrightarrow> A \<subseteq> B \<Longrightarrow> backed B obs k"
  unfolding backed_def by blast

lemma backed_clear [simp]: "backed seen (obs\<lparr>transfers := (transfers obs)(k := None)\<rparr>) k"
  by (simp add: backed_def)

lemma backed_update:
  assumes "backed seen obs k" "transfers obs k = Some tr"
    "trOperation tr' = trOperation tr" "trIndex tr' = trIndex tr" "trSubIndex tr' = trSubIndex tr"
    "trUploadInitiated tr' = trUploadInitiated tr"
  shows "backed seen (obs\<lparr>transfers := (transfers obs)(k \<mapsto> tr')\<rparr>) k"
  using assms by (simp add: backed_def)

lemma backed_download:
  "trOperation tr \<noteq> ''upload'' \<Longrightarrow> backed seen (obs\<lparr>transfers := (transfers obs)(k \<mapsto> tr)\<rparr>) k"
  by (simp add: backed_def)

lemma event_backed_simps [simp]: "event_backed seen (Inl err)" "event_backed seen (Inr None)"
  by (simp_all add: event_backed_def)

lemma event_backed_other: "evOperation e \<noteq> ''upload'' \<Longrightarrow> event_backed seen (Inr (Some e))"
  by (simp add: event_backed_def)

lemma event_backed_complete:
  assumes "backed seen obs k" "transfers obs k = Some tr" "trOperation tr = ''upload'' \<longrightarrow> trUploadInitiated tr"
    "trOperation tr' = trOperation tr" "trIndex tr' = trIndex tr" "trSubIndex tr' = trSubIndex tr"
  shows "event_backed seen (Inr (Some (complete tr' data)))"
  using assms by (simp add: backed_def event_backed_def complete_def)

lemmas backed_intros = backed_clear backed_update backed_download event_backed_complete event_backed_other

lemma observeSegment_backed:
  assumes "backed seen obs k"
  shows "backed seen (fst (observeSegment obs k n d c frame)) k \<and>
    event_backed seen (snd (observeSegment obs k n d c frame))"
proof (cases "transfers obs k")
  case None
  then show ?thesis using assms by (simp add: observeSegment_def)
next
  case (Some tr)
  then show ?thesis
    using assms
    by (auto simp: observeSegment_def Let_def intro: backed_update [OF assms Some] event_backed_complete [OF assms Some])
qed

lemma observeClient_backed:
  assumes "backed seen obs k" "fst x = ClientToServer" "8 \<le> length (snd x)" "x \<in> seen"
  shows "backed seen (fst (observeClient obs k n (snd x ! 0) (snd x))) k \<and>
    event_backed seen (snd (observeClient obs k n (snd x ! 0) (snd x)))"
proof -
  obtain index subIndex where a: "objectAddress (snd x) = (index, subIndex)" by force
  have "backed seen (obs\<lparr>transfers := (transfers obs)
      (k \<mapsto> newTransfer n ServerToClient ''upload'' index subIndex)\<rparr>) k" if "snd x ! 0 = 0x40"
    using that assms a by (auto simp: backed_def newTransfer_def is_request_def)
  then show ?thesis
    using assms(1) a observeSegment_backed [OF assms(1)]
    by (auto simp: observeClient_def newTransfer_def intro: backed_download event_backed_other)
qed

lemma observeServer_backed:
  assumes "backed seen obs k" "fst x = ServerToClient" "8 \<le> length (snd x)" "x \<in> seen"
  shows "backed seen (fst (observeServer obs k n (snd x ! 0) (snd x))) k \<and>
    event_backed seen (snd (observeServer obs k n (snd x ! 0) (snd x)))"
proof (cases "transfers obs k")
  case None
  then show ?thesis using assms by (simp add: observeServer_def)
next
  case (Some tr)
  obtain index subIndex where a: "objectAddress (snd x) = (index, subIndex)" by force
  have "backed seen (obs\<lparr>transfers := (transfers obs)(k \<mapsto> tr\<lparr>trUploadInitiated := True\<rparr>)\<rparr>) k \<and>
      event_backed seen (Inr (Some (complete tr data)))"
    if "trOperation tr = ''upload''" "is_confirmation (trIndex tr) (trSubIndex tr) x" for data
    using that assms(1,4) Some by (auto simp: backed_def event_backed_def complete_def)
  then show ?thesis
    using assms a Some observeSegment_backed [OF assms(1)]
    by (auto simp: observeServer_def is_confirmation_def)
qed

lemma observe_backed:
  assumes "backed seen obs k"
  shows "backed (insert x seen) (fst (ObserveOnChannel obs k n (fst x) (snd x))) k \<and>
    event_backed (insert x seen) (snd (ObserveOnChannel obs k n (fst x) (snd x)))"
proof -
  have b: "backed (insert x seen) obs k" using assms(1) by (rule backed_mono) auto
  show ?thesis
    using b observeClient_backed [OF b] observeServer_backed [OF b]
    by (auto simp: ObserveOnChannel_def sdoFrameLength_def Let_def
        split: prod.splits Direction.splits intro: event_backed_other)
qed

lemma feed_backed:
  "backed seen obs k \<Longrightarrow>
     backed (seen \<union> set xs) (fst (feed obs k n xs)) k \<and>
     (\<forall>i < length xs. event_backed (seen \<union> set (take (Suc i) xs)) (snd (feed obs k n xs) ! i))"
proof (induction xs arbitrary: obs seen)
  case (Cons x xs)
  obtain obs1 r where o: "ObserveOnChannel obs k n (fst x) (snd x) = (obs1, r)" by force
  have b: "backed (insert x seen) obs1 k" "event_backed (insert x seen) r"
    using observe_backed [OF Cons.prems, of x n] o by simp_all
  show ?case
    using Cons.IH [OF b(1)] b(2) o by (auto simp: split_beta nth_Cons split: nat.splits)
qed simp

section \<open>Properties\<close>

text \<open>
  C8. Segmented upload round trip. Whatever data a conforming server uploads in segments, in
  answer to a client's request and with the client's segment requests in between, the observer
  reports exactly one event, at the last segment: the upload of that object with exactly that
  data; every earlier frame yields neither event nor error, and the channel's state is gone
  afterwards. This holds from any observer state and for data of any length.
\<close>

theorem segmented_upload_observed:
  assumes "length size4 = 4"
  shows "\<exists>m. feed obs k n (upload_conversation index subIndex size4 bs) =
     (obs\<lparr>transfers := (transfers obs)(k := None)\<rparr>,
      replicate m (Inr None) @ [Inr (Some (transfer_event n ServerToClient ''upload'' index subIndex bs))])"
  by (rule upload_reassembles [OF assms])

theorem segmented_upload_observed_witness:
  "\<exists>m. feed NewObserver 5 5 (upload_conversation 0x1008 0 [10, 0, 0, 0] [1, 2, 3, 4, 5, 6, 7, 8, 9, 10]) =
     (NewObserver\<lparr>transfers := (transfers NewObserver)(5 := None)\<rparr>,
      replicate m (Inr None) @ [Inr (Some (transfer_event 5 ServerToClient ''upload'' 0x1008 0
        [1, 2, 3, 4, 5, 6, 7, 8, 9, 10]))])"
  by (rule segmented_upload_observed) simp

text \<open>
  C27. Segmented download round trip: the same for data that a client downloads to the server,
  with the server's acknowledgements between the client's segments.
\<close>

theorem segmented_download_observed:
  assumes "length size4 = 4"
  shows "\<exists>m. feed obs k n (download_conversation index subIndex size4 bs) =
     (obs\<lparr>transfers := (transfers obs)(k := None)\<rparr>,
      replicate m (Inr None) @ [Inr (Some (transfer_event n ClientToServer ''download'' index subIndex bs))])"
  by (rule download_reassembles [OF assms])

theorem segmented_download_observed_witness:
  "\<exists>m. feed NewObserver 5 5 (download_conversation 0x2000 3 [8, 0, 0, 0] [1, 2, 3, 4, 5, 6, 7, 8]) =
     (NewObserver\<lparr>transfers := (transfers NewObserver)(5 := None)\<rparr>,
      replicate m (Inr None) @ [Inr (Some (transfer_event 5 ClientToServer ''download'' 0x2000 3
        [1, 2, 3, 4, 5, 6, 7, 8]))])"
  by (rule segmented_download_observed) simp

text \<open>
  C28. Expedited transfers: one to four bytes that travel in the initiation frame are reported
  exactly, without the padding. An upload needs the client's request first and clears the
  channel; a download is reported at once and leaves the channel's state alone.
\<close>

theorem expedited_transfers_observed:
  assumes "1 \<le> length bs" "length bs \<le> 4"
  shows "feed obs k n [(ClientToServer, 0x40 # address index subIndex @ [0, 0, 0, 0]),
                       (ServerToClient, expedited_frame 0x40 index subIndex bs)] =
      (obs\<lparr>transfers := (transfers obs)(k := None)\<rparr>,
       [Inr None, Inr (Some (transfer_event n ServerToClient ''upload'' index subIndex bs))]) \<and>
    feed obs k n [(ClientToServer, expedited_frame 0x20 index subIndex bs)] =
      (obs, [Inr (Some (transfer_event n ClientToServer ''download'' index subIndex bs))])"
  using assms expedited_upload_step [of "obs\<lparr>transfers := (transfers obs)
      (k \<mapsto> newTransfer n ServerToClient ''upload'' index subIndex)\<rparr>" k n index subIndex bs]
  by (simp add: upload_request_step expedited_download_step)

theorem expedited_transfers_observed_witness:
  "feed NewObserver 5 5 [(ClientToServer, 0x40 # address 0x2000 1 @ [0, 0, 0, 0]),
                         (ServerToClient, expedited_frame 0x40 0x2000 1 [0x2A, 1])] =
      (NewObserver\<lparr>transfers := (transfers NewObserver)(5 := None)\<rparr>,
       [Inr None, Inr (Some (transfer_event 5 ServerToClient ''upload'' 0x2000 1 [0x2A, 1]))]) \<and>
    feed NewObserver 5 5 [(ClientToServer, expedited_frame 0x20 0x2000 1 [0x2A, 1])] =
      (NewObserver, [Inr (Some (transfer_event 5 ClientToServer ''download'' 0x2000 1 [0x2A, 1]))])"
  by (rule expedited_transfers_observed) simp_all

text \<open>
  C29. Channels do not disturb each other. However the frames of several SDO channels
  interleave on the bus, the state of a channel and the sequence of its results are what the
  observer computes from that channel's frames alone.
\<close>

theorem channels_independent:
  "transfers (fst (obs_run obs xs)) k = transfers (fst (obs_run obs (filter (\<lambda>x. fst x = k) xs))) k \<and>
   filter (\<lambda>x. fst x = k) (snd (obs_run obs xs)) = snd (obs_run obs (filter (\<lambda>x. fst x = k) xs))"
  using channels.run_only [of "transfers obs" xs k]
  by (simp add: channels.only_def obs_run_channels)

text \<open>
  C30. Invariant. After any sequence of frames, of any channels, directions, lengths and
  contents, every transfer the observer keeps is an upload collecting server segments or a
  download collecting client segments, holds a whole number of seven-byte segments, expects
  the toggle bit that this number determines, and has no data before an upload is confirmed.
  Every event reported on the way is a server abort with a code and no data, an upload by the
  server, or a download by the client.
\<close>

theorem observer_invariant:
  "obs_inv (fst (obs_run NewObserver xs)) \<and> list_all (\<lambda>(k, r). result_ok r) (snd (obs_run NewObserver xs))"
  using obs_run_inv [of NewObserver xs] by (auto simp: obs_inv_def NewObserver_def list_all_iff)

text \<open>
  C31. No upload is reported out of thin air. When the observer, started empty, reports an
  upload at the i-th frame of a channel, then among the frames up to that one there was a
  client's request for exactly that index and sub-index, and a server's upload confirmation
  for exactly that index and sub-index.
\<close>

theorem uploads_are_backed:
  assumes "i < length xs" "snd (feed NewObserver k n xs) ! i = Inr (Some e)" "evOperation e = ''upload''"
  shows "(\<exists>x \<in> set (take (Suc i) xs). is_request (evIndex e) (evSubIndex e) x) \<and>
         (\<exists>x \<in> set (take (Suc i) xs). is_confirmation (evIndex e) (evSubIndex e) x)"
proof -
  have "backed {} NewObserver k" by (simp add: backed_def NewObserver_def)
  then show ?thesis
    using feed_backed [of "{}" NewObserver k xs n] assms by (auto simp: event_backed_def)
qed

definition sample_upload :: "(Direction \<times> bytes) list" where
  "sample_upload = [(ClientToServer, [0x40, 0x08, 0x10, 0, 0, 0, 0, 0]), (ServerToClient, [0x4B, 0x08, 0x10, 0, 7, 1, 0, 0])]"

theorem uploads_are_backed_witness:
  "(\<exists>x \<in> set (take (Suc 1) sample_upload). is_request 0x1008 0 x) \<and>
   (\<exists>x \<in> set (take (Suc 1) sample_upload). is_confirmation 0x1008 0 x)"
proof -
  have "snd (feed NewObserver 5 5 sample_upload) ! 1 =
      Inr (Some (transfer_event 5 ServerToClient ''upload'' 0x1008 0 [7, 1]))"
    by (simp add: sample_upload_def observe_defs sdoFrameLength_def objectAddress_def expeditedData_def
        NewObserver_def newTransfer_def complete_def transfer_event_def)
  then show ?thesis
    using uploads_are_backed [of 1 sample_upload 5 5 "transfer_event 5 ServerToClient ''upload'' 0x1008 0 [7, 1]"]
    by (simp add: sample_upload_def transfer_event_def)
qed

end
