(* ===== verification/Transport.thy ===== *)
theory Transport
  imports Prelude "HOL-Library.Sublist" "HOL-Library.Multiset"
begin

unbundle bit_operations_syntax

section \<open>internal/cantransport: frames and connections\<close>

text \<open>
  Models internal/cantransport: the frame type and errors of cantransport.go, the in-memory
  bus of fake.go, and the SocketCAN connection of socketcan_linux.go over the operations of
  the can package, which are parameters here.

  A pointer to a \<open>fakeConn\<close> is its position in \<open>heap\<close>, the list of all connections ever
  dialed; \<open>conns\<close> is the bus's own list of attached ones. A Go \<open>select\<close> takes any ready case,
  and the default only when none is: an operation that selects returns the list of its
  possible outcomes, the empty list meaning that it blocks. The mutex makes a broadcast
  atomic; \<open>Send\<close> looks at \<open>done\<close> and the context before it takes the mutex, and \<open>Close\<close> closes
  the connection before it does, so the two halves of each are separate definitions and separate
  steps of the bus.
\<close>

record Frame =
  ID :: u32
  Extended :: bool
  Data :: bytes

datatype go_error = ErrClosed | DeadlineExceeded | Canceled | Wrapped string go_error | UnsupportedOS string string | Foreign string

definition DialTimeout :: nat where
  "DialTimeout = 5 * 1000000000"

subsection \<open>The in-memory bus\<close>

record fakeConn =
  rx :: "Frame list"
  closedDone :: bool

record FakeBus =
  conns :: "nat list"
  heap :: "fakeConn list"

definition rxCapacity :: nat where
  "rxCapacity = 256"

definition NewFakeBus :: FakeBus where
  "NewFakeBus = \<lparr>conns = [], heap = []\<rparr>"

definition Dial :: "FakeBus \<Rightarrow> FakeBus \<times> nat" where
  "Dial b =
     (let c = length (heap b)
      in (b\<lparr>heap := heap b @ [\<lparr>rx = [], closedDone = False\<rparr>], conns := conns b @ [c]\<rparr>, c))"

definition deliver :: "fakeConn \<Rightarrow> Frame \<Rightarrow> fakeConn list" where
  "deliver c f =
     (let ready = (if length (rx c) < rxCapacity then [c\<lparr>rx := rx c @ [f]\<rparr>] else []) @
                  (if closedDone c then [c] else [])
      in if ready = [] then [c] else ready)"

primrec deliverAll :: "nat list \<Rightarrow> Frame \<Rightarrow> fakeConn list \<Rightarrow> fakeConn list list" where
  "deliverAll [] f h = [h]"
| "deliverAll (c # cs) f h = concat (map (\<lambda>x. deliverAll cs f (h[c := x])) (deliver (h ! c) f))"

definition Inject :: "FakeBus \<Rightarrow> Frame \<Rightarrow> FakeBus list" where
  "Inject b f = map (\<lambda>h. b\<lparr>heap := h\<rparr>) (deliverAll (conns b) f (heap b))"

definition broadcast :: "FakeBus \<Rightarrow> nat \<Rightarrow> Frame \<Rightarrow> FakeBus list" where
  "broadcast b from f =
     map (\<lambda>h. b\<lparr>heap := h\<rparr>) (deliverAll (filter (\<lambda>c. c \<noteq> from) (conns b)) f (heap b))"

definition forget :: "FakeBus \<Rightarrow> nat \<Rightarrow> FakeBus" where
  "forget b c = b\<lparr>conns := remove1 c (conns b)\<rparr>"

text \<open>
  \<open>Recv\<close>: the channel is never closed, so its \<open>!ok\<close> branch cannot be taken; the context is
  its error once it is done.
\<close>

definition fakeRecv :: "FakeBus \<Rightarrow> nat \<Rightarrow> go_error option \<Rightarrow> (FakeBus \<times> (go_error + Frame)) list" where
  "fakeRecv b c ctxErr =
     (case rx (heap b ! c) of
        [] \<Rightarrow> []
      | f # fs \<Rightarrow> [(b\<lparr>heap := (heap b)[c := (heap b ! c)\<lparr>rx := fs\<rparr>]\<rparr>, Inr f)]) @
     (if closedDone (heap b ! c) then [(b, Inl ErrClosed)] else []) @
     (case ctxErr of None \<Rightarrow> [] | Some e \<Rightarrow> [(b, Inl e)])"

text \<open>
  \<open>Send\<close>: the select before the mutex is taken, whose None is its default case; \<open>fakeSend\<close> is
  the whole call when nothing else happens between the select and the broadcast.
\<close>

definition sendCheck :: "FakeBus \<Rightarrow> nat \<Rightarrow> go_error option \<Rightarrow> go_error option list" where
  "sendCheck b c ctxErr =
     (let ready = (if closedDone (heap b ! c) then [Some ErrClosed] else []) @
                  (case ctxErr of None \<Rightarrow> [] | Some e \<Rightarrow> [Some e])
      in if ready = [] then [None] else ready)"

definition fakeSend :: "FakeBus \<Rightarrow> nat \<Rightarrow> go_error option \<Rightarrow> Frame \<Rightarrow> (FakeBus \<times> go_error option) list" where
  "fakeSend b c ctxErr f =
     concat (map (\<lambda>checked.
       (case checked of
          Some err \<Rightarrow> [(b, Some err)]
        | None \<Rightarrow> map (\<lambda>b'. (b', None)) (broadcast b c f))) (sendCheck b c ctxErr))"

text \<open>\<open>Close\<close>: the first call closes \<open>done\<close> and then forgets the connection; later ones do nothing.\<close>

definition closeDone :: "FakeBus \<Rightarrow> nat \<Rightarrow> FakeBus" where
  "closeDone b c = b\<lparr>heap := (heap b)[c := (heap b ! c)\<lparr>closedDone := True\<rparr>]\<rparr>"

definition fakeClose :: "FakeBus \<Rightarrow> nat \<Rightarrow> FakeBus" where
  "fakeClose b c = (if closedDone (heap b ! c) then b else forget (closeDone b c) c)"

subsection \<open>SocketCAN\<close>

text \<open>
  The frame type of the can package, with the fields the code uses; its \<open>Data\<close> is an array of
  eight bytes. \<open>setDeadline\<close>, \<open>received\<close> (with the frame and the receiver's error) and
  \<open>transmit\<close> are the package's operations.
\<close>

record canFrame =
  canID :: u32
  canLength :: u8
  canData :: bytes
  canExtended :: bool

definition socketDial :: "(string \<Rightarrow> go_error + 'c) \<Rightarrow> string \<Rightarrow> go_error + 'c" where
  "socketDial dialContext iface =
     (case dialContext iface of
        Inl err \<Rightarrow> Inl (Wrapped (''cantransport: dial '' @ iface) err)
      | Inr conn \<Rightarrow> Inr conn)"

text \<open>None is the panic of slicing \<open>f.Data[:f.Length]\<close> beyond the array.\<close>

definition socketRecv ::
  "'t option \<Rightarrow> ('t option \<Rightarrow> go_error option) \<Rightarrow> bool \<Rightarrow> go_error option \<Rightarrow> canFrame \<Rightarrow>
     (go_error + Frame) option" where
  "socketRecv ctxDeadline setDeadline received recvErr f =
     (let deadlineErr = (case ctxDeadline of
        Some deadline \<Rightarrow>
          map_option (Wrapped ''cantransport: set read deadline'') (setDeadline (Some deadline))
      | None \<Rightarrow> map_option (Wrapped ''cantransport: clear read deadline'') (setDeadline None))
      in case deadlineErr of
        Some err \<Rightarrow> Some (Inl err)
      | None \<Rightarrow>
          if \<not> received then
            (case recvErr of
               Some err \<Rightarrow> Some (Inl (Wrapped ''cantransport: receive'' err))
             | None \<Rightarrow> Some (Inl ErrClosed))
          else if unat (canLength f) > length (canData f) then None
          else Some (Inr \<lparr>ID = canID f, Extended = canExtended f, Data = take (unat (canLength f)) (canData f)\<rparr>))"

definition toCanFrame :: "Frame \<Rightarrow> canFrame" where
  "toCanFrame f =
     \<lparr>canID = ID f, canLength = of_nat (length (Data f)),
      canData = take 8 (Data f @ replicate 8 0), canExtended = Extended f\<rparr>"

definition socketSend :: "(canFrame \<Rightarrow> go_error option) \<Rightarrow> Frame \<Rightarrow> go_error option" where
  "socketSend transmit f = map_option (Wrapped ''cantransport: send'') (transmit (toCanFrame f))"

definition stubDial :: "string \<Rightarrow> string \<Rightarrow> go_error + 'c" where
  "stubDial goos iface = Inl (UnsupportedOS goos iface)"

section \<open>The bus as a step relation\<close>

text \<open>
  What happened on the bus, and the runs that produce it: a run starts with the empty bus and
  each step is one critical section or one select of one goroutine, with any of its possible
  outcomes. \<open>pending\<close> holds the sends whose select has let them through and that have not taken
  the mutex yet; until they do, anything can happen, their own connection's \<open>Close\<close> included.
\<close>

datatype bus_event =
    Dialed nat | Injected Frame | SendChecked nat Frame | SentBy nat Frame | ReceivedBy nat Frame | DoneClosed nat | Forgotten nat

inductive bus_run :: "bus_event list \<Rightarrow> (nat \<times> Frame) multiset \<Rightarrow> FakeBus \<Rightarrow> bool" where
  start: "bus_run [] {#} NewFakeBus"
| dial: "bus_run es pending b \<Longrightarrow> Dial b = (b', c) \<Longrightarrow> bus_run (es @ [Dialed c]) pending b'"
| inject: "bus_run es pending b \<Longrightarrow> b' \<in> set (Inject b f) \<Longrightarrow> bus_run (es @ [Injected f]) pending b'"
| send_checked: "bus_run es pending b \<Longrightarrow> c < length (heap b) \<Longrightarrow> None \<in> set (sendCheck b c ctxErr) \<Longrightarrow>
    bus_run (es @ [SendChecked c f]) (add_mset (c, f) pending) b"
| sent: "bus_run es pending b \<Longrightarrow> (c, f) \<in># pending \<Longrightarrow> b' \<in> set (broadcast b c f) \<Longrightarrow>
    bus_run (es @ [SentBy c f]) (pending - {#(c, f)#}) b'"
| recv: "bus_run es pending b \<Longrightarrow> c < length (heap b) \<Longrightarrow> (b', Inr f) \<in> set (fakeRecv b c ctxErr) \<Longrightarrow>
    bus_run (es @ [ReceivedBy c f]) pending b'"
| close_done: "bus_run es pending b \<Longrightarrow> c < length (heap b) \<Longrightarrow> \<not> closedDone (heap b ! c) \<Longrightarrow>
    bus_run (es @ [DoneClosed c]) pending (closeDone b c)"
| forgetting: "bus_run es pending b \<Longrightarrow> c < length (heap b) \<Longrightarrow> closedDone (heap b ! c) \<Longrightarrow>
    bus_run (es @ [Forgotten c]) pending (forget b c)"

inductive_cases bus_run_emptyE: "bus_run [] pending b"

text \<open>The frames the bus offered to a connection, and those the connection received.\<close>

primrec offered :: "nat \<Rightarrow> bus_event list \<Rightarrow> Frame list" where
  "offered c [] = []"
| "offered c (e # es) =
     (case e of Injected f \<Rightarrow> [f] | SentBy d f \<Rightarrow> (if d = c then [] else [f]) | _ \<Rightarrow> []) @ offered c es"

primrec received :: "nat \<Rightarrow> bus_event list \<Rightarrow> Frame list" where
  "received c [] = []"
| "received c (e # es) = (case e of ReceivedBy d f \<Rightarrow> (if d = c then [f] else []) | _ \<Rightarrow> []) @ received c es"

lemma offered_append [simp]: "offered c (xs @ ys) = offered c xs @ offered c ys"
  by (induction xs) simp_all

lemma received_append [simp]: "received c (xs @ ys) = received c xs @ received c ys"
  by (induction xs) simp_all

subsection \<open>Delivery\<close>

lemma deliver_cases:
  assumes "x \<in> set (deliver c f)"
  shows "closedDone x = closedDone c \<and>
    (rx x = rx c \<and> (closedDone c \<or> rxCapacity \<le> length (rx c)) \<or> rx x = rx c @ [f] \<and> length (rx c) < rxCapacity)"
  using assms by (auto simp: deliver_def Let_def split: if_splits)

lemma deliverAll_cases:
  assumes "h' \<in> set (deliverAll cs f h)" "distinct cs" "set cs \<subseteq> {..<length h}"
  shows "length h' = length h \<and>
    (\<forall>c < length h. if c \<in> set cs then h' ! c \<in> set (deliver (h ! c) f) else h' ! c = h ! c)"
  using assms
proof (induction cs arbitrary: h)
  case (Cons c cs)
  then obtain x where x: "x \<in> set (deliver (h ! c) f)" "h' \<in> set (deliverAll cs f (h[c := x]))" by auto
  have "length h' = length (h[c := x]) \<and> (\<forall>d < length (h[c := x]).
      if d \<in> set cs then h' ! d \<in> set (deliver (h[c := x] ! d) f) else h' ! d = h[c := x] ! d)"
    using Cons.prems by (intro Cons.IH [OF x(2)]) auto
  moreover have "c < length h" "c \<notin> set cs" using Cons.prems by auto
  ultimately show ?case using x(1) by (simp add: nth_list_update) (metis nth_list_update_neq)
qed simp

text \<open>The shape of a bus: attached connections are distinct, exist, and have bounded queues.\<close>

definition bus_ok :: "FakeBus \<Rightarrow> bool" where
  "bus_ok b \<longleftrightarrow> distinct (conns b) \<and> set (conns b) \<subseteq> {..<length (heap b)} \<and>
     (\<forall>c \<in> set (heap b). length (rx c) \<le> rxCapacity)"

lemma bus_ok_nth: "bus_ok b \<Longrightarrow> c < length (heap b) \<Longrightarrow> length (rx (heap b ! c)) \<le> rxCapacity"
  by (simp add: bus_ok_def)

text \<open>What a delivery to the connections \<open>cs\<close> does to every connection.\<close>

definition delivered_to :: "nat set \<Rightarrow> Frame \<Rightarrow> FakeBus \<Rightarrow> FakeBus \<Rightarrow> bool" where
  "delivered_to cs f b b' \<longleftrightarrow> conns b' = conns b \<and> length (heap b') = length (heap b) \<and>
     (\<forall>c < length (heap b).
        closedDone (heap b' ! c) = closedDone (heap b ! c) \<and>
        (if c \<in> cs then
           rx (heap b' ! c) = rx (heap b ! c) \<and> (closedDone (heap b ! c) \<or> rxCapacity \<le> length (rx (heap b ! c))) \<or>
           rx (heap b' ! c) = rx (heap b ! c) @ [f] \<and> length (rx (heap b ! c)) < rxCapacity
         else rx (heap b' ! c) = rx (heap b ! c)))"

lemma deliverAll_delivered:
  assumes "bus_ok b" "b' \<in> (\<lambda>h. b\<lparr>heap := h\<rparr>) ` set (deliverAll (filter P (conns b)) f (heap b))"
  shows "delivered_to {c \<in> set (conns b). P c} f b b'"
proof -
  obtain h where h: "h \<in> set (deliverAll (filter P (conns b)) f (heap b))" "b' = b\<lparr>heap := h\<rparr>"
    using assms(2) by auto
  have "length h = length (heap b) \<and> (\<forall>c < length (heap b).
      if c \<in> set (filter P (conns b)) then h ! c \<in> set (deliver (heap b ! c) f) else h ! c = heap b ! c)"
    by (rule deliverAll_cases [OF h(1)]) (use assms(1) in \<open>auto simp: bus_ok_def\<close>)
  then show ?thesis
    using h(2) deliver_cases by (fastforce simp: delivered_to_def)
qed

lemma Inject_delivered: "bus_ok b \<Longrightarrow> b' \<in> set (Inject b f) \<Longrightarrow> delivered_to (set (conns b)) f b b'"
  using deliverAll_delivered [of b b' "\<lambda>_. True" f] by (simp add: Inject_def)

lemma fakeSend_open:
  "(b', None) \<in> set (fakeSend b c ctxErr f) \<Longrightarrow>
     \<not> closedDone (heap b ! c) \<and> ctxErr = None \<and> b' \<in> set (broadcast b c f)"
  by (auto simp: fakeSend_def sendCheck_def Let_def split: if_splits option.splits)

lemma broadcast_delivered:
  "bus_ok b \<Longrightarrow> b' \<in> set (broadcast b c f) \<Longrightarrow> delivered_to (set (conns b) - {c}) f b b'"
  using deliverAll_delivered [of b b' "\<lambda>d. d \<noteq> c" f] by (auto simp: broadcast_def set_diff_eq)

lemma fakeSend_delivered:
  "bus_ok b \<Longrightarrow> (b', None) \<in> set (fakeSend b c ctxErr f) \<Longrightarrow> delivered_to (set (conns b) - {c}) f b b'"
  using fakeSend_open [of b' b c ctxErr f] broadcast_delivered by blast

lemma fakeSend_failed: "(b', Some err) \<in> set (fakeSend b c ctxErr f) \<Longrightarrow> b' = b"
  by (auto simp: fakeSend_def split: option.splits)

lemma delivered_ok:
  assumes "bus_ok b" "delivered_to cs f b b'"
  shows "bus_ok b'"
proof -
  have "length (rx (heap b' ! c)) \<le> rxCapacity" if "c < length (heap b)" for c
    using assms bus_ok_nth [OF assms(1) that] that by (auto simp: delivered_to_def split: if_splits)
  then show ?thesis
    using assms by (auto simp: bus_ok_def delivered_to_def in_set_conv_nth)
qed

subsection \<open>Invariant of the runs\<close>

definition fifo_ok :: "bus_event list \<Rightarrow> FakeBus \<Rightarrow> bool" where
  "fifo_ok es b \<longleftrightarrow>
     (\<forall>c < length (heap b). subseq (received c es @ rx (heap b ! c)) (offered c es)) \<and>
     (\<forall>c \<ge> length (heap b). received c es = [])"

lemma fifo_delivered:
  assumes "fifo_ok es b" "delivered_to cs f b b'"
    "\<And>c. offered c [e] = (if c \<in> sent then [] else [f])" "\<And>c. received c [e] = []" "cs \<inter> sent = {}"
  shows "fifo_ok (es @ [e]) b'"
proof -
  have "subseq (received c es @ rx (heap b' ! c)) (offered c es @ offered c [e])" if "c < length (heap b)" for c
  proof -
    have s: "subseq (received c es @ rx (heap b ! c)) (offered c es)" using assms(1) that by (simp add: fifo_ok_def)
    have "rx (heap b' ! c) = rx (heap b ! c) \<or> rx (heap b' ! c) = rx (heap b ! c) @ [f] \<and> c \<notin> sent"
      using assms(2,5) that by (auto simp: delivered_to_def split: if_splits)
    then show ?thesis
    proof
      assume "rx (heap b' ! c) = rx (heap b ! c)"
      then show ?thesis using s by (simp add: list_emb_append2 subseq_rev_drop_many)
    next
      assume "rx (heap b' ! c) = rx (heap b ! c) @ [f] \<and> c \<notin> sent"
      then show ?thesis using list_emb_append_mono [OF s, of "[f]" "[f]"] assms(3) by simp
    qed
  qed
  then show ?thesis using assms(1,2,4) by (auto simp: fifo_ok_def delivered_to_def simp del: offered.simps received.simps)
qed

lemma fifo_quiet:
  assumes "fifo_ok es b" "\<And>c. offered c [e] = []" "\<And>c. received c [e] = []"
  shows "fifo_ok (es @ [e]) b"
  using assms by (simp add: fifo_ok_def del: offered.simps received.simps)

lemma bus_run_inv: "bus_run es pending b \<Longrightarrow> bus_ok b \<and> fifo_ok es b"
proof (induction rule: bus_run.induct)
  case start
  show ?case by (simp add: bus_ok_def fifo_ok_def NewFakeBus_def)
next
  case (dial es pending b b' c)
  then show ?case
    by (auto simp: Dial_def Let_def bus_ok_def fifo_ok_def nth_append rxCapacity_def less_Suc_eq)
next
  case (inject es pending b b' f)
  then have d: "delivered_to (set (conns b)) f b b'" using Inject_delivered by blast
  show ?case
    using delivered_ok [OF _ d] fifo_delivered [OF _ d, of es "Injected f" "{}"] inject by simp
next
  case (send_checked es pending b c ctxErr f)
  then show ?case using fifo_quiet [of es b "SendChecked c f"] by simp
next
  case (sent es pending b c f b')
  then have d: "delivered_to (set (conns b) - {c}) f b b'" using broadcast_delivered by blast
  show ?case
    using delivered_ok [OF _ d] fifo_delivered [OF _ d, of es "SentBy c f" "{c}"] sent by auto
next
  case (recv es pending b c b' f ctxErr)
  then obtain fs where fs: "rx (heap b ! c) = f # fs" "b' = b\<lparr>heap := (heap b)[c := (heap b ! c)\<lparr>rx := fs\<rparr>]\<rparr>"
    by (cases "rx (heap b ! c)") (auto simp: fakeRecv_def split: option.splits if_splits)
  have "length fs \<le> rxCapacity" using bus_ok_nth [of b c] recv fs by simp
  then show ?case
    using recv fs by (auto simp: bus_ok_def fifo_ok_def nth_list_update dest!: set_update_subset_insert [THEN subsetD])
next
  case (close_done es pending b c)
  then show ?case
    using bus_ok_nth [of b c]
    by (auto simp: closeDone_def bus_ok_def fifo_ok_def nth_list_update dest!: set_update_subset_insert [THEN subsetD])
next
  case (forgetting es pending b c)
  then show ?case
    by (auto simp: forget_def bus_ok_def fifo_ok_def dest: notin_set_remove1 set_remove1_subset [THEN subsetD])
qed

text \<open>Every broadcast is of a send that was let through before, and each send is broadcast at most once.\<close>

definition checked_sends :: "bus_event list \<Rightarrow> (nat \<times> Frame) multiset" where
  "checked_sends es = mset (concat (map (\<lambda>e. case e of SendChecked c f \<Rightarrow> [(c, f)] | _ \<Rightarrow> []) es))"

definition broadcast_sends :: "bus_event list \<Rightarrow> (nat \<times> Frame) multiset" where
  "broadcast_sends es = mset (concat (map (\<lambda>e. case e of SentBy c f \<Rightarrow> [(c, f)] | _ \<Rightarrow> []) es))"

lemma sends_accounted: "bus_run es pending b \<Longrightarrow> checked_sends es = broadcast_sends es + pending"
proof (induction rule: bus_run.induct)
  case (sent es pending b c f b')
  then show ?case by (auto simp: checked_sends_def broadcast_sends_def dest!: multi_member_split)
qed (simp_all add: checked_sends_def broadcast_sends_def)

section \<open>Properties\<close>

text \<open>
  C36. The bus neither invents, duplicates nor reorders frames. In every run, that is for every
  interleaving of dials, injections, receives and the two halves of sending and of closing, and
  for every choice a select makes, what a connection received so far followed by what its queue
  still holds is a subsequence of the frames the others put on the bus; a connection never
  sees its own frames, no queue exceeds 256 frames, and what was put on the bus by sends is,
  each once, what their selects let through, less the sends still waiting for the mutex.
\<close>

theorem bus_preserves_order:
  assumes "bus_run es pending b" "c < length (heap b)"
  shows "subseq (received c es @ rx (heap b ! c)) (offered c es) \<and> length (rx (heap b ! c)) \<le> 256 \<and>
    checked_sends es = broadcast_sends es + pending"
  using bus_run_inv [OF assms(1)] assms(2) bus_ok_nth [of b c] sends_accounted [OF assms(1)]
  by (simp add: fifo_ok_def rxCapacity_def)

definition sample_bus :: FakeBus where
  "sample_bus = fst (Dial (fst (Dial NewFakeBus)))"

definition sample_frame :: Frame where
  "sample_frame = \<lparr>ID = 0x123, Extended = False, Data = [1, 2]\<rparr>"

lemma sample_bus_run: "bus_run [Dialed 0, Dialed 1] {#} sample_bus"
proof -
  have "bus_run ([] @ [Dialed 0]) {#} (fst (Dial NewFakeBus))"
    by (rule bus_run.dial [OF bus_run.start]) (simp add: Dial_def NewFakeBus_def)
  then have "bus_run (([] @ [Dialed 0]) @ [Dialed 1]) {#} sample_bus"
    by (rule bus_run.dial) (simp add: Dial_def NewFakeBus_def sample_bus_def Let_def)
  then show ?thesis by simp
qed

text \<open>
  A send that is overtaken: connection 0 is closed and forgotten after the select of its send and
  before its broadcast, which still reaches connection 1.
\<close>

definition overtaken_events :: "bus_event list" where
  "overtaken_events = [Dialed 0, Dialed 1, SendChecked 0 sample_frame, DoneClosed 0, Forgotten 0, SentBy 0 sample_frame]"

definition overtaken_bus :: FakeBus where
  "overtaken_bus =
     \<lparr>conns = [1], heap = [\<lparr>rx = [], closedDone = True\<rparr>, \<lparr>rx = [sample_frame], closedDone = False\<rparr>]\<rparr>"

lemma overtaken_run: "bus_run overtaken_events {#} overtaken_bus"
proof -
  have "bus_run ([Dialed 0, Dialed 1] @ [SendChecked 0 sample_frame]) {#(0, sample_frame)#} sample_bus"
    by (rule bus_run.send_checked [OF sample_bus_run, where ctxErr = None])
      (simp_all add: sample_bus_def Dial_def NewFakeBus_def Let_def sendCheck_def)
  from bus_run.close_done [OF this, of 0]
  have "bus_run ([Dialed 0, Dialed 1, SendChecked 0 sample_frame] @ [DoneClosed 0]) {#(0, sample_frame)#} (closeDone sample_bus 0)"
    by (simp add: sample_bus_def Dial_def NewFakeBus_def Let_def)
  from bus_run.forgetting [OF this, of 0]
  have "bus_run ([Dialed 0, Dialed 1, SendChecked 0 sample_frame, DoneClosed 0] @ [Forgotten 0]) {#(0, sample_frame)#}
      (forget (closeDone sample_bus 0) 0)"
    by (simp add: sample_bus_def Dial_def NewFakeBus_def Let_def closeDone_def)
  from bus_run.sent [OF this, of 0 sample_frame overtaken_bus] show ?thesis
    by (simp add: overtaken_events_def overtaken_bus_def sample_bus_def Dial_def NewFakeBus_def Let_def closeDone_def
        forget_def broadcast_def deliver_def rxCapacity_def)
qed

theorem bus_preserves_order_witness:
  "bus_run overtaken_events {#} overtaken_bus \<and> rx (heap overtaken_bus ! 1) = [sample_frame] \<and>
     subseq (received 1 overtaken_events @ rx (heap overtaken_bus ! 1)) (offered 1 overtaken_events) \<and>
     checked_sends overtaken_events = broadcast_sends overtaken_events"
  using bus_preserves_order [OF overtaken_run, of 1] overtaken_run by (simp add: overtaken_bus_def)

text \<open>
  C37. Broadcast. On a bus whose attached connections are open, a send that succeeds appends
  the frame to the queue of every other attached connection that has room, drops it for those
  that have 256 frames waiting, and leaves the sender and the detached connections alone; it
  never blocks. A send on a closed connection puts nothing on the bus and reports the closing
  (or the context's error if both are ready).
\<close>

theorem send_broadcasts:
  assumes "bus_run es pending b" "c < length (heap b)" "\<forall>d \<in> set (conns b). \<not> closedDone (heap b ! d)"
    "(b', err) \<in> set (fakeSend b c ctxErr f)"
  shows "(err = None \<longrightarrow> (\<forall>d < length (heap b). rx (heap b' ! d) = rx (heap b ! d) @
            (if d \<in> set (conns b) \<and> d \<noteq> c \<and> length (rx (heap b ! d)) < 256 then [f] else []))) \<and>
         (err \<noteq> None \<longrightarrow> b' = b) \<and>
         (closedDone (heap b ! c) \<longrightarrow> err = Some ErrClosed \<or> err = ctxErr \<and> ctxErr \<noteq> None)"
proof (intro conjI impI allI)
  have ok: "bus_ok b" using bus_run_inv [OF assms(1)] by simp
  fix d assume "err = None" "d < length (heap b)"
  then show "rx (heap b' ! d) = rx (heap b ! d) @
      (if d \<in> set (conns b) \<and> d \<noteq> c \<and> length (rx (heap b ! d)) < 256 then [f] else [])"
    using fakeSend_delivered [OF ok, of b' c ctxErr f] assms(3,4)
    by (auto simp: delivered_to_def rxCapacity_def split: if_splits)
next
  assume "err \<noteq> None"
  then show "b' = b" using assms(4) fakeSend_failed by (cases err) auto
next
  assume "closedDone (heap b ! c)"
  then show "err = Some ErrClosed \<or> err = ctxErr \<and> ctxErr \<noteq> None"
    using assms(4) by (auto simp: fakeSend_def sendCheck_def Let_def split: if_splits option.splits)
qed

theorem send_broadcasts_witness:
  "fst (hd (fakeSend sample_bus 0 None sample_frame)) =
     sample_bus\<lparr>heap := [\<lparr>rx = [], closedDone = False\<rparr>, \<lparr>rx = [sample_frame], closedDone = False\<rparr>]\<rparr> \<and>
   rx (heap (fst (hd (fakeSend sample_bus 0 None sample_frame))) ! 1) = rx (heap sample_bus ! 1) @ [sample_frame]"
proof -
  have e: "fst (hd (fakeSend sample_bus 0 None sample_frame)) =
     sample_bus\<lparr>heap := [\<lparr>rx = [], closedDone = False\<rparr>, \<lparr>rx = [sample_frame], closedDone = False\<rparr>]\<rparr>"
    by (simp add: sample_bus_def Dial_def NewFakeBus_def Let_def fakeSend_def sendCheck_def broadcast_def deliver_def rxCapacity_def)
  have mem: "(fst (hd (fakeSend sample_bus 0 None sample_frame)), None) \<in> set (fakeSend sample_bus 0 None sample_frame)"
    by (simp add: sample_bus_def Dial_def NewFakeBus_def Let_def fakeSend_def sendCheck_def broadcast_def deliver_def rxCapacity_def)
  show ?thesis
    using e send_broadcasts [OF sample_bus_run _ _ mem]
    by (auto simp: sample_bus_def Dial_def NewFakeBus_def Let_def)
qed

text \<open>
  C38. A classic CAN frame of at most eight bytes survives the trip through SocketCAN: the
  frame that \<open>Recv\<close> builds from what \<open>Send\<close> hands to the transmitter is the frame sent.
\<close>

theorem socket_roundtrip:
  assumes "length (Data f) \<le> 8" "setDeadline ctxDeadline = None"
  shows "socketRecv ctxDeadline setDeadline True recvErr (toCanFrame f) = Some (Inr f)"
proof -
  have "unat (of_nat (length (Data f)) :: u8) = length (Data f)"
    using assms(1) by (simp add: unat_of_nat)
  then show ?thesis
    using assms by (cases f) (auto simp: socketRecv_def toCanFrame_def Let_def split: option.splits)
qed

theorem socket_roundtrip_witness:
  "socketRecv (Some (3 :: nat)) (\<lambda>_. None) True None (toCanFrame sample_frame) = Some (Inr sample_frame)"
  by (rule socket_roundtrip) (simp_all add: sample_frame_def)

end
