(* ===== verification/Sniffer.thy ===== *)
theory Sniffer
  imports Emit SdoObserver Transport "HOL-Library.Monad_Syntax"
begin

unbundle bit_operations_syntax

section \<open>internal/sniffer: classifying and decoding frames\<close>

text \<open>
  Models internal/sniffer/sniffer.go: its configuration types, the state of a \<open>Sniffer\<close>, the
  classification of a frame by COB-ID and the handlers it dispatches to. A builder that may be
  nil is an option. The outer option of a handler's result is None when the code panics: in
  the codec (an index past the end after an overflowed bounds check), in \<open>MetricsAdd\<close> (one
  metric name used with two kinds) or on a negative match offset. All calls of one
  \<open>HandleFrame\<close> share the clock reading \<open>now\<close>. Go maps that are only looked up are partial
  maps; those that are ranged over are association lists.
\<close>

subsection \<open>Function codes and NMT states\<close>

definition FuncEmergency :: u32 where "FuncEmergency = 0x080"
definition FuncSDOTx :: u32 where "FuncSDOTx = 0x580"
definition FuncSDORx :: u32 where "FuncSDORx = 0x600"
definition FuncHeartbeat :: u32 where "FuncHeartbeat = 0x700"

type_synonym NMTState = u8

definition StateBootup :: NMTState where "StateBootup = 0x00"
definition StateStopped :: NMTState where "StateStopped = 0x04"
definition StateOperational :: NMTState where "StateOperational = 0x05"
definition StatePreOperational :: NMTState where "StatePreOperational = 0x7F"

definition NMTState_String :: "NMTState \<Rightarrow> string" where
  "NMTState_String s =
     (if s = StateBootup then ''bootup''
      else if s = StateStopped then ''stopped''
      else if s = StateOperational then ''operational''
      else if s = StatePreOperational then ''pre-operational''
      else ''unknown(0x'' @ fmt_0X 2 (unat s) @ '')'')"

subsection \<open>Configuration and state\<close>

record Field =
  fName :: string
  fBitOffset :: int
  fType :: DataType
  fByteLen :: int
  fScale :: float64
  fOffset :: float64
  fUnit :: string
  fEmitMetric :: bool
  fEmitLog :: bool
  fMetricSum :: bool
  fAttributes :: "anymap option"

record PDODef =
  pdName :: string
  pdCobID :: u32
  pdFields :: "Field list"

record SDOObjectDef =
  odNodeID :: u8
  odIndex :: u16
  odSubIndex :: u8
  odFields :: "Field list"

record SDOChannel =
  scNodeID :: u8
  scClientToServerCobID :: u32
  scServerToClientCobID :: u32

record RawMatch =
  rmByteOffset :: int
  rmValue :: u8

record RawMessageDef =
  rdName :: string
  rdMatch :: "RawMatch list"
  rdFields :: "Field list"

text \<open>\<open>matches\<close>: all conditions hold; None when an offset is negative.\<close>

primrec matchesAll :: "RawMatch list \<Rightarrow> bytes \<Rightarrow> bool option" where
  "matchesAll [] data = Some True"
| "matchesAll (m # ms) data =
     (if rmByteOffset m \<ge> int (length data) then Some False
      else (case at_index data (rmByteOffset m) of
              None \<Rightarrow> None
            | Some b \<Rightarrow> if b \<noteq> rmValue m then Some False else matchesAll ms data))"

definition matches :: "RawMessageDef \<Rightarrow> bytes \<Rightarrow> bool option" where
  "matches d data = matchesAll (rdMatch d) data"

record SnifferConfig =
  InterfaceName :: string
  PDOs :: "u32 \<rightharpoonup> PDODef"
  HeartbeatEmitMetric :: bool
  HeartbeatEmitLog :: bool
  EMCYEmitMetric :: bool
  EMCYEmitLog :: bool
  SDOObjects :: "SDOObjectDef list"
  SDOChannels :: "SDOChannel list"
  RawEmitMetric :: bool
  RawEmitLog :: bool
  RawCobIDs :: "u32 set"
  RawMessages :: "u32 \<rightharpoonup> RawMessageDef list"

record sdoChannel =
  chNodeID :: u8
  chKey :: u32
  chClientCobID :: u32

type_synonym sdoKey = "u8 \<times> u16 \<times> u8"

record Sniffer =
  cfg :: SnifferConfig
  nmtState :: "u8 \<rightharpoonup> NMTState"
  sdo :: Observer
  sdoByCobID :: "u32 \<rightharpoonup> sdoChannel"
  sdoIndex :: "sdoKey \<rightharpoonup> SDOObjectDef"

definition indexObjects :: "SDOObjectDef list \<Rightarrow> sdoKey \<rightharpoonup> SDOObjectDef" where
  "indexObjects objects =
     foldl (\<lambda>m object.
       let key = (odNodeID object, odIndex object, odSubIndex object)
       in if m key = None then m(key \<mapsto> object) else m) Map.empty objects"

definition indexChannels :: "SDOChannel list \<Rightarrow> u32 \<rightharpoonup> sdoChannel" where
  "indexChannels channels =
     foldl (\<lambda>m channel.
       let entry = \<lparr>chNodeID = scNodeID channel, chKey = scClientToServerCobID channel,
                    chClientCobID = scClientToServerCobID channel\<rparr>
       in m(scClientToServerCobID channel \<mapsto> entry, scServerToClientCobID channel \<mapsto> entry))
       Map.empty channels"

definition NewSniffer :: "SnifferConfig \<Rightarrow> Sniffer" where
  "NewSniffer c =
     \<lparr>cfg = c, nmtState = Map.empty, sdo = NewObserver,
      sdoByCobID = (if length (SDOChannels c) = 0 then Map.empty else indexChannels (SDOChannels c)),
      sdoIndex = indexObjects (SDOObjects c)\<rparr>"

subsection \<open>Emission\<close>

text \<open>The guard \<open>if enabled && builder != nil { builder.Add(...) }\<close> of every handler.\<close>

definition addMetric :: "int \<Rightarrow> bool \<Rightarrow> MetricsBuilder option \<Rightarrow> MetricPoint \<Rightarrow> MetricsBuilder option option" where
  "addMetric now enabled metrics p =
     (case metrics of
        Some b \<Rightarrow> if enabled then map_option Some (MetricsAdd now b p) else Some metrics
      | None \<Rightarrow> Some None)"

definition addLog :: "int \<Rightarrow> bool \<Rightarrow> LogsBuilder option \<Rightarrow> LogRecord \<Rightarrow> LogsBuilder option option" where
  "addLog now enabled logs r =
     (case logs of
        Some b \<Rightarrow> if enabled then map_option Some (LogsAdd now b r) else Some logs
      | None \<Rightarrow> Some None)"

type_synonym outcome = "(MetricsBuilder option \<times> LogsBuilder option) option"

definition resourceAttrs :: "Sniffer \<Rightarrow> strmap" where
  "resourceAttrs s = [(''canopen.interface'', InterfaceName (cfg s))]"

text \<open>The variables of the loop of \<open>emitFields\<close>.\<close>

record fieldLoop =
  flMetrics :: "MetricsBuilder option"
  flBodyMap :: anymap
  flLogAttrs :: anymap
  flHaveLog :: bool

definition fieldPoint :: "strmap \<Rightarrow> Field \<Rightarrow> Value \<Rightarrow> MetricPoint" where
  "fieldPoint res f v =
     \<lparr>mpResourceAttrs = res, mpName = fName f, mpUnit = fUnit f,
      mpKind = (if fMetricSum f then KindSum else KindGauge),
      mpValue = ApplyScale v (fScale f) (fOffset f), mpAttributes = fAttributes f, mpTimestamp = None\<rparr>"

definition setAll :: "anymap \<Rightarrow> anymap \<Rightarrow> anymap" where
  "setAll m new = foldl (\<lambda>m (k, v). AList.update k v m) m new"

definition emitField ::
  "int \<Rightarrow> bytes \<Rightarrow> strmap \<Rightarrow> bool \<Rightarrow> Field \<Rightarrow> fieldLoop \<Rightarrow> fieldLoop option" where
  "emitField now data res haveLogs f st =
     do {
       r \<leftarrow> Decode data (fType f) (fBitOffset f) (fByteLen f);
       case r of
         Inl err \<Rightarrow> Some st
       | Inr v \<Rightarrow> do {
           ms \<leftarrow> addMetric now (fEmitMetric f) (flMetrics st) (fieldPoint res f v);
           let st1 = st\<lparr>flMetrics := ms\<rparr>;
           Some (if fEmitLog f \<and> haveLogs
                 then st1\<lparr>flHaveLog := True,
                       flBodyMap := AList.update (fName f) (BodyValue v (fScale f) (fOffset f)) (flBodyMap st1),
                       flLogAttrs := setAll (flLogAttrs st1) (entries (fAttributes f))\<rparr>
                 else st1)
         }
     }"

primrec emitFieldLoop ::
  "int \<Rightarrow> bytes \<Rightarrow> strmap \<Rightarrow> bool \<Rightarrow> Field list \<Rightarrow> fieldLoop \<Rightarrow> fieldLoop option" where
  "emitFieldLoop now data res haveLogs [] st = Some st"
| "emitFieldLoop now data res haveLogs (f # fs) st =
     do { st1 \<leftarrow> emitField now data res haveLogs f st; emitFieldLoop now data res haveLogs fs st1 }"

definition groupRecord :: "strmap \<Rightarrow> string \<Rightarrow> anymap \<Rightarrow> anymap \<Rightarrow> LogRecord" where
  "groupRecord res body bodyMap logAttrs =
     \<lparr>lrResourceAttrs = res, lrTimestamp = None, lrSeverity = SeverityNumberInfo, lrBody = body,
      lrBodyValue = (case bodyMap of [(_, value)] \<Rightarrow> Some value | _ \<Rightarrow> None),
      lrBodyMap = (if length bodyMap = 1 then None else Some bodyMap), lrAttributes = logAttrs\<rparr>"

definition emitFields ::
  "int \<Rightarrow> Field list \<Rightarrow> bytes \<Rightarrow> strmap \<Rightarrow> anymap \<Rightarrow> string \<Rightarrow>
     MetricsBuilder option \<Rightarrow> LogsBuilder option \<Rightarrow> outcome" where
  "emitFields now fieldDefs data res contextAttrs body metrics logs =
     do {
       st \<leftarrow> emitFieldLoop now data res (logs \<noteq> None) fieldDefs
         \<lparr>flMetrics = metrics, flBodyMap = [], flLogAttrs = setAll [] contextAttrs, flHaveLog = False\<rparr>;
       ls \<leftarrow> (if flHaveLog st then addLog now True logs (groupRecord res body (flBodyMap st) (flLogAttrs st))
              else Some logs);
       Some (flMetrics st, ls)
     }"

subsection \<open>Handlers\<close>

definition cobName :: "u32 \<Rightarrow> string" where
  "cobName i = ''0x'' @ fmt_0X 3 (unat i)"

definition handleRawMessage ::
  "int \<Rightarrow> Sniffer \<Rightarrow> RawMessageDef \<Rightarrow> Frame \<Rightarrow> MetricsBuilder option \<Rightarrow> LogsBuilder option \<Rightarrow> outcome" where
  "handleRawMessage now s msg f metrics logs =
     emitFields now (rdFields msg) (Data f)
       (AList.update ''canopen.cob_id'' (cobName (ID f)) (resourceAttrs s))
       [(''canopen.raw.message'', AnyString (rdName msg))]
       (''canopen raw message '' @ rdName msg @ '' decoded'') metrics logs"

text \<open>The first raw message definition whose conditions hold; the outer None is a panic.\<close>

primrec firstMatch :: "RawMessageDef list \<Rightarrow> bytes \<Rightarrow> RawMessageDef option option" where
  "firstMatch [] data = Some None"
| "firstMatch (msg # msgs) data =
     (case matches msg data of
        None \<Rightarrow> None
      | Some True \<Rightarrow> Some (Some msg)
      | Some False \<Rightarrow> firstMatch msgs data)"

definition rawPoint :: "Sniffer \<Rightarrow> Frame \<Rightarrow> MetricPoint" where
  "rawPoint s f =
     \<lparr>mpResourceAttrs = AList.update ''canopen.cob_id'' (cobName (ID f)) (resourceAttrs s),
      mpName = ''canopen.raw.frames'', mpUnit = [], mpKind = KindSum, mpValue = 1,
      mpAttributes = Some [(''canopen.raw.data'', AnyString (fmt_bytes_X (Data f)))], mpTimestamp = None\<rparr>"

definition rawRecord :: "Sniffer \<Rightarrow> Frame \<Rightarrow> LogRecord" where
  "rawRecord s f =
     \<lparr>lrResourceAttrs = AList.update ''canopen.cob_id'' (cobName (ID f)) (resourceAttrs s),
      lrTimestamp = None, lrSeverity = SeverityNumberInfo,
      lrBody = ''canopen raw frame on '' @ cobName (ID f) @ '': '' @ fmt_bytes_X (Data f),
      lrBodyValue = None, lrBodyMap = None,
      lrAttributes = [(''canopen.cob_id'', AnyString (cobName (ID f))),
        (''canopen.raw.data'', AnyString (fmt_bytes_X (Data f)))]\<rparr>"

definition handleRaw ::
  "int \<Rightarrow> Sniffer \<Rightarrow> Frame \<Rightarrow> MetricsBuilder option \<Rightarrow> LogsBuilder option \<Rightarrow> outcome" where
  "handleRaw now s f metrics logs =
     do {
       m \<leftarrow> firstMatch (case RawMessages (cfg s) (ID f) of None \<Rightarrow> [] | Some msgs \<Rightarrow> msgs) (Data f);
       case m of
         Some msg \<Rightarrow> handleRawMessage now s msg f metrics logs
       | None \<Rightarrow> do {
           ms \<leftarrow> addMetric now (RawEmitMetric (cfg s)) metrics (rawPoint s f);
           ls \<leftarrow> addLog now (RawEmitLog (cfg s)) logs (rawRecord s f);
           Some (ms, ls)
         }
     }"

definition handlePDO ::
  "int \<Rightarrow> Sniffer \<Rightarrow> PDODef \<Rightarrow> Frame \<Rightarrow> MetricsBuilder option \<Rightarrow> LogsBuilder option \<Rightarrow> outcome" where
  "handlePDO now s pdo f metrics logs =
     emitFields now (pdFields pdo) (Data f) (resourceAttrs s)
       [(''canopen.pdo.name'', AnyString (pdName pdo))]
       (''canopen pdo '' @ pdName pdo @ '' decoded'') metrics logs"

definition nodeAttrs :: "Sniffer \<Rightarrow> u8 \<Rightarrow> strmap" where
  "nodeAttrs s nodeID = AList.update ''canopen.node_id'' (fmt_d (unat nodeID)) (resourceAttrs s)"

definition heartbeatPoint :: "Sniffer \<Rightarrow> u8 \<Rightarrow> NMTState \<Rightarrow> MetricPoint" where
  "heartbeatPoint s nodeID state =
     \<lparr>mpResourceAttrs = nodeAttrs s nodeID, mpName = ''canopen.node.nmt_state'', mpUnit = [],
      mpKind = KindGauge, mpValue = f64_of_int (uint state), mpAttributes = None, mpTimestamp = None\<rparr>"

definition heartbeatRecord :: "Sniffer \<Rightarrow> u8 \<Rightarrow> NMTState \<Rightarrow> LogRecord" where
  "heartbeatRecord s nodeID state =
     \<lparr>lrResourceAttrs = nodeAttrs s nodeID, lrTimestamp = None, lrSeverity = SeverityNumberInfo,
      lrBody = ''canopen node '' @ fmt_d (unat nodeID) @ '' NMT state changed to '' @ NMTState_String state,
      lrBodyValue = None, lrBodyMap = None,
      lrAttributes = [(''canopen.node_id'', AnyInt (uint nodeID)),
        (''canopen.nmt_state'', AnyString (NMTState_String state))]\<rparr>"

definition handleHeartbeat ::
  "int \<Rightarrow> Sniffer \<Rightarrow> u8 \<Rightarrow> Frame \<Rightarrow> MetricsBuilder option \<Rightarrow> LogsBuilder option \<Rightarrow>
     (Sniffer \<times> MetricsBuilder option \<times> LogsBuilder option) option" where
  "handleHeartbeat now s nodeID f metrics logs =
     (if length (Data f) < 1 then Some (s, metrics, logs)
      else
        let state = Data f ! 0;
            changed = (nmtState s nodeID \<noteq> Some state);
            s' = s\<lparr>nmtState := (nmtState s)(nodeID \<mapsto> state)\<rparr>
        in do {
             ms \<leftarrow> addMetric now (HeartbeatEmitMetric (cfg s)) metrics (heartbeatPoint s nodeID state);
             ls \<leftarrow> addLog now (HeartbeatEmitLog (cfg s) \<and> changed) logs (heartbeatRecord s nodeID state);
             Some (s', ms, ls)
           })"

definition emcyErrorCodeDescription :: "u16 \<Rightarrow> string" where
  "emcyErrorCodeDescription code =
     (let high = drop_bit 8 code
      in if code = 0x0000 then ''error reset / no error''
         else if high = 0x10 then ''generic error''
         else if high = 0x20 then ''current''
         else if high = 0x30 then ''voltage''
         else if high = 0x40 then ''temperature''
         else if high = 0x50 then ''device hardware''
         else if high = 0x60 then ''device software''
         else if high = 0x70 then ''additional modules''
         else if high = 0x80 then ''monitoring''
         else if high = 0x90 then ''external error''
         else if high = 0xF0 then ''additional functions''
         else if high = 0xFF then ''device specific''
         else ''unknown'')"

definition emcyPoint :: "Sniffer \<Rightarrow> u8 \<Rightarrow> u8 \<Rightarrow> MetricPoint" where
  "emcyPoint s nodeID errReg =
     \<lparr>mpResourceAttrs = nodeAttrs s nodeID, mpName = ''canopen.node.emcy_error_register'', mpUnit = [],
      mpKind = KindGauge, mpValue = f64_of_int (uint errReg), mpAttributes = None, mpTimestamp = None\<rparr>"

definition emcyRecord :: "Sniffer \<Rightarrow> u8 \<Rightarrow> u16 \<Rightarrow> u8 \<Rightarrow> LogRecord" where
  "emcyRecord s nodeID errCode errReg =
     \<lparr>lrResourceAttrs = nodeAttrs s nodeID, lrTimestamp = None,
      lrSeverity = (if errCode = 0 then SeverityNumberInfo else SeverityNumberWarn),
      lrBody = ''canopen node '' @ fmt_d (unat nodeID) @ '' emergency: code=0x'' @ fmt_0X 4 (unat errCode) @
        '' ('' @ emcyErrorCodeDescription errCode @ '') register=0x'' @ fmt_0X 2 (unat errReg),
      lrBodyValue = None, lrBodyMap = None,
      lrAttributes = [(''canopen.node_id'', AnyInt (uint nodeID)),
        (''canopen.emcy.error_code'', AnyInt (uint errCode)),
        (''canopen.emcy.register'', AnyInt (uint errReg))]\<rparr>"

definition handleEMCY ::
  "int \<Rightarrow> Sniffer \<Rightarrow> u8 \<Rightarrow> Frame \<Rightarrow> LogsBuilder option \<Rightarrow> MetricsBuilder option \<Rightarrow> outcome" where
  "handleEMCY now s nodeID f logs metrics =
     (if length (Data f) < 3 then Some (metrics, logs)
      else
        let errCode = ucast (Data f ! 0) OR push_bit 8 (ucast (Data f ! 1));
            errReg = Data f ! 2
        in do {
             ms \<leftarrow> addMetric now (EMCYEmitMetric (cfg s)) metrics (emcyPoint s nodeID errReg);
             ls \<leftarrow> addLog now (EMCYEmitLog (cfg s)) logs (emcyRecord s nodeID errCode errReg);
             Some (ms, ls)
           })"

definition direction_string :: "Direction \<Rightarrow> string" where
  "direction_string d = (case d of
     ClientToServer \<Rightarrow> ''client_to_server'' | ServerToClient \<Rightarrow> ''server_to_client'' | OtherDirection x \<Rightarrow> x)"

definition sdoResource :: "Sniffer \<Rightarrow> Event \<Rightarrow> strmap" where
  "sdoResource s event =
     AList.update ''canopen.sdo.subindex'' (''0x'' @ fmt_0X 2 (unat (evSubIndex event)))
       (AList.update ''canopen.sdo.index'' (''0x'' @ fmt_0X 4 (unat (evIndex event)))
         (nodeAttrs s (evNodeID event)))"

definition sdoContext :: "Event \<Rightarrow> anymap" where
  "sdoContext event =
     [(''canopen.node_id'', AnyInt (uint (evNodeID event))),
      (''canopen.sdo.index'', AnyInt (uint (evIndex event))),
      (''canopen.sdo.subindex'', AnyInt (uint (evSubIndex event))),
      (''canopen.sdo.direction'', AnyString (direction_string (evDirection event))),
      (''canopen.sdo.operation'', AnyString (evOperation event))]"

definition sdoBody :: "Event \<Rightarrow> string" where
  "sdoBody event =
     ''canopen SDO object 0x'' @ fmt_0X 4 (unat (evIndex event)) @ '':'' @
       fmt_0X 2 (unat (evSubIndex event)) @ '' decoded''"

definition emitTypedSDO ::
  "int \<Rightarrow> Sniffer \<Rightarrow> Event \<Rightarrow> MetricsBuilder option \<Rightarrow> LogsBuilder option \<Rightarrow> outcome" where
  "emitTypedSDO now s event metrics logs =
     (if evAbortCode event \<noteq> None then Some (metrics, logs)
      else (case sdoIndex s (evNodeID event, evIndex event, evSubIndex event) of
              None \<Rightarrow> Some (metrics, logs)
            | Some object \<Rightarrow>
                emitFields now (odFields object) (evData event) (sdoResource s event) (sdoContext event)
                  (sdoBody event) metrics logs))"

definition handleSDO ::
  "int \<Rightarrow> Sniffer \<Rightarrow> u32 \<Rightarrow> u8 \<Rightarrow> Direction \<Rightarrow> Frame \<Rightarrow> MetricsBuilder option \<Rightarrow> LogsBuilder option \<Rightarrow>
     (Sniffer \<times> MetricsBuilder option \<times> LogsBuilder option) option" where
  "handleSDO now s channelKey nodeID direction f metrics logs =
     (case ObserveOnChannel (sdo s) channelKey nodeID direction (Data f) of
        (obs, r) \<Rightarrow>
          (let s' = s\<lparr>sdo := obs\<rparr>
           in case r of
                Inr (Some event) \<Rightarrow>
                  map_option (\<lambda>(ms, ls). (s', ms, ls)) (emitTypedSDO now s' event metrics logs)
              | _ \<Rightarrow> Some (s', metrics, logs)))"

text \<open>A handler that leaves the sniffer's own state alone.\<close>

definition stateless :: "Sniffer \<Rightarrow> outcome \<Rightarrow> (Sniffer \<times> MetricsBuilder option \<times> LogsBuilder option) option" where
  "stateless s r = map_option (\<lambda>(ms, ls). (s, ms, ls)) r"

definition HandleFrame ::
  "int \<Rightarrow> Sniffer \<Rightarrow> Frame \<Rightarrow> MetricsBuilder option \<Rightarrow> LogsBuilder option \<Rightarrow>
     (Sniffer \<times> MetricsBuilder option \<times> LogsBuilder option) option" where
  "HandleFrame now s f metrics logs =
     (if Extended f then Some (s, metrics, logs)
      else if ID f \<in> RawCobIDs (cfg s) then stateless s (handleRaw now s f metrics logs)
      else case PDOs (cfg s) (ID f) of
        Some pdo \<Rightarrow> stateless s (handlePDO now s pdo f metrics logs)
      | None \<Rightarrow>
          (case sdoByCobID s (ID f) of
             Some channel \<Rightarrow>
               (let direction = (if ID f = chClientCobID channel then ClientToServer else ServerToClient)
                in handleSDO now s (chKey channel) (chNodeID channel) direction f metrics logs)
           | None \<Rightarrow>
               (let funcCode = ID f AND NOT 0x7F;
                    nodeID = ucast (ID f AND 0x7F)
                in if funcCode = FuncHeartbeat then handleHeartbeat now s nodeID f metrics logs
                   else if funcCode = FuncEmergency then
                     (if nodeID \<noteq> 0 then stateless s (handleEMCY now s nodeID f logs metrics)
                      else Some (s, metrics, logs))
                   else if funcCode = FuncSDOTx then
                     (if nodeID \<noteq> 0 then handleSDO now s (ID f - 0x580) nodeID ServerToClient f metrics logs
                      else Some (s, metrics, logs))
                   else if funcCode = FuncSDORx then
                     (if nodeID \<noteq> 0 then handleSDO now s (ID f - 0x600) nodeID ClientToServer f metrics logs
                      else Some (s, metrics, logs))
                   else Some (s, metrics, logs))))"

section \<open>What a frame contributes\<close>

text \<open>
  An abstract reading of the sniffer: a frame belongs to one class, by ranges of COB-IDs; a
  class contributes a list of points and a list of records, computed from the declared fields
  without loops or builders. \<open>HandleFrame\<close> adds exactly these to the builders it is given.
\<close>

definition decoded :: "bytes \<Rightarrow> Field list \<Rightarrow> (Field \<times> Value) list" where
  "decoded data fs = List.map_filter (\<lambda>f.
     case Decode data (fType f) (fBitOffset f) (fByteLen f) of Some (Inr v) \<Rightarrow> Some (f, v) | _ \<Rightarrow> None) fs"

definition fieldPoints :: "strmap \<Rightarrow> bytes \<Rightarrow> Field list \<Rightarrow> MetricPoint list" where
  "fieldPoints res data fs = [fieldPoint res f v. (f, v) \<leftarrow> decoded data fs, fEmitMetric f]"

definition logged :: "bytes \<Rightarrow> Field list \<Rightarrow> (Field \<times> Value) list" where
  "logged data fs = filter (\<lambda>(f, v). fEmitLog f) (decoded data fs)"

definition bodyEntries :: "(Field \<times> Value) list \<Rightarrow> anymap" where
  "bodyEntries xs = map (\<lambda>(f, v). (fName f, BodyValue v (fScale f) (fOffset f))) xs"

definition fieldRecords :: "strmap \<Rightarrow> anymap \<Rightarrow> string \<Rightarrow> bytes \<Rightarrow> Field list \<Rightarrow> LogRecord list" where
  "fieldRecords res ctx body data fs =
     (let xs = logged data fs
      in if xs = [] then []
         else [groupRecord res body (setAll [] (bodyEntries xs))
                (setAll [] (ctx @ concat (map (\<lambda>(f, v). entries (fAttributes f)) xs)))])"

definition addPoints :: "int \<Rightarrow> MetricsBuilder option \<Rightarrow> MetricPoint list \<Rightarrow> MetricsBuilder option option" where
  "addPoints now metrics ps =
     (case metrics of None \<Rightarrow> Some None | Some b \<Rightarrow> map_option Some (metrics.add_all now b ps))"

definition addRecords :: "int \<Rightarrow> LogsBuilder option \<Rightarrow> LogRecord list \<Rightarrow> LogsBuilder option option" where
  "addRecords now logs rs =
     (case logs of None \<Rightarrow> Some None | Some b \<Rightarrow> map_option Some (logs.add_all now b rs))"

definition decodable :: "bytes \<Rightarrow> Field \<Rightarrow> bool" where
  "decodable data f \<longleftrightarrow> Decode data (fType f) (fBitOffset f) (fByteLen f) \<noteq> None"

subsection \<open>The field loop\<close>

lemma setAll_append: "setAll m (xs @ ys) = setAll (setAll m xs) ys"
  by (simp add: setAll_def)

lemma setAll_Nil [simp]: "setAll m [] = m"
  by (simp add: setAll_def)

lemma addPoints_Nil [simp]: "addPoints now ms [] = Some ms"
  by (cases ms) (simp_all add: addPoints_def)

lemma addRecords_Nil [simp]: "addRecords now ls [] = Some ls"
  by (cases ls) (simp_all add: addRecords_def)

lemma addPoints_Cons: "addPoints now ms (p # ps) = Option.bind (addMetric now True ms p) (\<lambda>ms'. addPoints now ms' ps)"
  by (cases ms) (auto simp: addPoints_def addMetric_def split: option.splits)

lemma addPoints_single: "addPoints now ms (if e then [p] else []) = addMetric now e ms p"
  by (cases ms) (auto simp: addPoints_def addMetric_def split: option.splits)

lemma addRecords_single: "addRecords now ls (if e then [r] else []) = addLog now e ls r"
  by (cases ls) (auto simp: addRecords_def addLog_def split: option.splits)

lemma addRecords_one: "addRecords now ls [r] = addLog now True ls r"
  using addRecords_single [of now ls True r] by simp

lemma addPoints_append: "addPoints now ms (ps @ qs) = Option.bind (addPoints now ms ps) (\<lambda>ms'. addPoints now ms' qs)"
  by (induction ps arbitrary: ms) (simp_all add: addPoints_Cons)

lemma decoded_simps:
  "decoded data [] = []"
  "Decode data (fType f) (fBitOffset f) (fByteLen f) = Some (Inr v) \<Longrightarrow> decoded data (f # fs) = (f, v) # decoded data fs"
  "Decode data (fType f) (fBitOffset f) (fByteLen f) = Some (Inl e) \<Longrightarrow> decoded data (f # fs) = decoded data fs"
  by (simp_all add: decoded_def List.map_filter_def)

text \<open>The loop, as its final variables in terms of the comprehension.\<close>

lemma emitFieldLoop_spec:
  assumes "\<forall>f \<in> set fs. decodable data f"
  shows "emitFieldLoop now data res haveLogs fs st =
     map_option (\<lambda>ms. st\<lparr>flMetrics := ms,
        flBodyMap := (if haveLogs then setAll (flBodyMap st) (bodyEntries (logged data fs)) else flBodyMap st),
        flLogAttrs := (if haveLogs
          then setAll (flLogAttrs st) (concat (map (\<lambda>(f, v). entries (fAttributes f)) (logged data fs)))
          else flLogAttrs st),
        flHaveLog := (flHaveLog st \<or> haveLogs \<and> logged data fs \<noteq> [])\<rparr>)
       (addPoints now (flMetrics st) (fieldPoints res data fs))"
  using assms
proof (induction fs arbitrary: st)
  case (Cons f fs)
  obtain r where r: "Decode data (fType f) (fBitOffset f) (fByteLen f) = Some r"
    using Cons.prems by (auto simp: decodable_def)
  show ?case
  proof (cases r)
    case (Inl e)
    then show ?thesis
      using r Cons by (simp add: emitField_def decoded_simps logged_def fieldPoints_def)
  next
    case (Inr v)
    have pts: "fieldPoints res data (f # fs) = (if fEmitMetric f then [fieldPoint res f v] else []) @ fieldPoints res data fs"
      and lg: "logged data (f # fs) = (if fEmitLog f then [(f, v)] else []) @ logged data fs"
      using r Inr by (simp_all add: fieldPoints_def logged_def decoded_simps)
    have "setAll m ((k, x) # xs) = setAll (AList.update k x m) xs" for m k and x :: any and xs
      by (simp add: setAll_def)
    then show ?thesis
      using r Inr Cons.IH Cons.prems
      by (cases "addMetric now (fEmitMetric f) (flMetrics st) (fieldPoint res f v)")
        (auto simp: emitField_def pts lg addPoints_append addPoints_single setAll_append bodyEntries_def
          intro!: map_option_cong)
  qed
qed (simp add: logged_def fieldPoints_def decoded_def List.map_filter_def bodyEntries_def)

lemma emitFields_spec:
  assumes "\<forall>f \<in> set fs. decodable data f"
  shows "emitFields now fs data res ctx body metrics logs =
     do { ms \<leftarrow> addPoints now metrics (fieldPoints res data fs);
          ls \<leftarrow> addRecords now logs (fieldRecords res ctx body data fs);
          Some (ms, ls) }"
proof -
  have rec: "addRecords now logs (fieldRecords res ctx body data fs) =
      (if logs \<noteq> None \<and> logged data fs \<noteq> []
       then addLog now True logs (groupRecord res body (setAll [] (bodyEntries (logged data fs)))
              (setAll [] (ctx @ concat (map (\<lambda>(f, v). entries (fAttributes f)) (logged data fs)))))
       else Some logs)"
  proof (cases logs)
    case None
    then show ?thesis by (simp add: addRecords_def)
  next
    case (Some b)
    then show ?thesis by (simp add: fieldRecords_def Let_def addRecords_one)
  qed
  show ?thesis
    unfolding emitFields_def emitFieldLoop_spec [OF assms] rec
    by (cases "addPoints now metrics (fieldPoints res data fs)")
      (auto simp: setAll_append)
qed

subsection \<open>Classes of frames\<close>

datatype frame_class =
    Ignored
  | RawUndecoded
  | RawDecoded RawMessageDef
  | PDOFrame PDODef
  | HeartbeatFrame u8
  | EmcyFrame u8
  | SdoFrame u32 u8 Direction

text \<open>A condition of a raw message, read on natural numbers.\<close>

definition condition_holds :: "bytes \<Rightarrow> RawMatch \<Rightarrow> bool" where
  "condition_holds data m \<longleftrightarrow> rmByteOffset m < int (length data) \<and> data ! nat (rmByteOffset m) = rmValue m"

definition rawDefs :: "Sniffer \<Rightarrow> Frame \<Rightarrow> RawMessageDef list" where
  "rawDefs s f = (case RawMessages (cfg s) (ID f) of None \<Rightarrow> [] | Some msgs \<Rightarrow> msgs)"

definition offsets_ok :: "RawMessageDef \<Rightarrow> bool" where
  "offsets_ok msg \<longleftrightarrow> (\<forall>m \<in> set (rdMatch msg). 0 \<le> rmByteOffset m)"

text \<open>
  The node of a function code is the identifier's distance from its base; node 0 of the
  emergency and SDO ranges (SYNC among them) belongs to no class, node 0 of the heartbeat
  range does.
\<close>

definition in_range :: "nat \<Rightarrow> nat \<Rightarrow> nat \<Rightarrow> bool" where
  "in_range base low i \<longleftrightarrow> base + low \<le> i \<and> i < base + 128"

definition frame_class :: "Sniffer \<Rightarrow> Frame \<Rightarrow> frame_class" where
  "frame_class s f =
     (let i = unat (ID f); node = (\<lambda>base. of_nat (i - base))
      in if Extended f then Ignored
         else if ID f \<in> RawCobIDs (cfg s) then
           (case List.find (\<lambda>msg. \<forall>m \<in> set (rdMatch msg). condition_holds (Data f) m) (rawDefs s f) of
              Some msg \<Rightarrow> RawDecoded msg
            | None \<Rightarrow> RawUndecoded)
         else if PDOs (cfg s) (ID f) \<noteq> None then PDOFrame (the (PDOs (cfg s) (ID f)))
         else (case sdoByCobID s (ID f) of
             Some channel \<Rightarrow> SdoFrame (chKey channel) (chNodeID channel)
               (if ID f = chClientCobID channel then ClientToServer else ServerToClient)
           | None \<Rightarrow>
               if in_range 0x700 0 i then HeartbeatFrame (node 0x700)
               else if in_range 0x080 1 i then EmcyFrame (node 0x080)
               else if in_range 0x580 1 i then SdoFrame (of_nat (i - 0x580)) (node 0x580) ServerToClient
               else if in_range 0x600 1 i then SdoFrame (of_nat (i - 0x600)) (node 0x600) ClientToServer
               else Ignored))"

text \<open>The bit masks of the code select the same ranges.\<close>

lemma func_code_range:
  fixes i :: u32
  assumes "base AND 0x7F = 0"
  shows "i AND NOT 0x7F = base \<longleftrightarrow> unat base \<le> unat i \<and> unat i < unat base + 128"
proof -
  have m: "(0x7F :: u32) = mask 7" by (simp add: mask_eq_exp_minus_1)
  have clear: "unat (i AND NOT 0x7F) = unat i - unat i mod 128"
  proof -
    have "i AND NOT 0x7F = push_bit 7 (drop_bit 7 i)"
      unfolding m by (rule bit_word_eqI) (auto simp: bit_simps)
    then have "i AND NOT 0x7F = i - (i AND 0x7F)"
      using bits_ident [of 7 i] by (simp add: m take_bit_eq_mask eq_diff_eq)
    moreover have "unat (i AND 0x7F) = unat i mod 128"
      unfolding m by (simp add: unat_and_mask)
    moreover have "unat i mod 128 \<le> unat i" by simp
    ultimately show ?thesis by (simp add: unat_sub_if')
  qed
  have "unat base mod 128 = 0"
  proof -
    have "unat (base AND 0x7F) = unat base mod 128"
      unfolding m by (simp add: unat_and_mask)
    then show ?thesis using assms by simp
  qed
  then obtain q where q: "unat base = 128 * q" by (metis dvd_def mod_0_imp_dvd)
  have "unat i - unat i mod 128 = 128 * (unat i div 128)" by (simp add: minus_mod_eq_mult_div)
  moreover have "n div 128 = q \<longleftrightarrow> 128 * q \<le> n \<and> n < 128 * q + 128" for n :: nat
    by auto
  ultimately show ?thesis
    unfolding word_unat_eq_iff clear q by simp
qed

lemma in_range_word:
  fixes i :: u32
  assumes "base AND 0x7F = 0" "unat base = b"
  shows "in_range b 0 (unat i) \<longleftrightarrow> i AND NOT 0x7F = base"
    "in_range b 1 (unat i) \<longleftrightarrow> i AND NOT 0x7F = base \<and> (ucast (i AND 0x7F) :: u8) \<noteq> 0"
    "i AND NOT 0x7F = base \<Longrightarrow> (of_nat (unat i - b) :: u8) = ucast (i AND 0x7F)"
    "i AND NOT 0x7F = base \<Longrightarrow> (of_nat (unat i - b) :: u32) = i - base"
proof -
  have m: "(0x7F :: u32) = mask 7" by (simp add: mask_eq_exp_minus_1)
  have low: "unat (i AND 0x7F) = unat i mod 128"
    unfolding m by (simp add: unat_and_mask)
  have "unat (base AND 0x7F) = b mod 128"
    using assms(2) unfolding m by (simp add: unat_and_mask)
  then have b: "b mod 128 = 0" using assms(1) by simp
  have r: "i AND NOT 0x7F = base \<longleftrightarrow> b \<le> unat i \<and> unat i < b + 128"
    using func_code_range [OF assms(1)] assms(2) by simp
  show "in_range b 0 (unat i) \<longleftrightarrow> i AND NOT 0x7F = base" unfolding r by (simp add: in_range_def)
  have d: "unat i - b = unat i mod 128" if le: "b \<le> unat i" and less: "unat i < b + 128"
  proof -
    obtain q where q: "b = 128 * q" by (rule dvdE [OF mod_0_imp_dvd [OF b]])
    obtain k where "unat i = b + k" using le_Suc_ex [OF le] by blast
    then show ?thesis using less q by simp
  qed
  have z: "(ucast (i AND 0x7F) :: u8) = of_nat (unat i mod 128)"
    by (metis low of_nat_unat)
  have "(of_nat (unat i mod 128) :: u8) = 0 \<longleftrightarrow> unat i mod 128 = 0"
  proof -
    have "unat i mod 128 < 128" by simp
    then have "unat (of_nat (unat i mod 128) :: u8) = unat i mod 128" by (simp add: unat_of_nat)
    then show ?thesis by (metis unat_eq_zero)
  qed
  then show "in_range b 1 (unat i) \<longleftrightarrow> i AND NOT 0x7F = base \<and> (ucast (i AND 0x7F) :: u8) \<noteq> 0"
    unfolding r z using d by (auto simp: in_range_def)
  show "(of_nat (unat i - b) :: u8) = ucast (i AND 0x7F)" if "i AND NOT 0x7F = base"
    using that d unfolding r z by simp
  show "(of_nat (unat i - b) :: u32) = i - base" if "i AND NOT 0x7F = base"
    using that unfolding r assms(2) [symmetric] by (simp add: of_nat_diff)
qed

subsection \<open>The contribution of a class\<close>

definition rawResource :: "Sniffer \<Rightarrow> Frame \<Rightarrow> strmap" where
  "rawResource s f = AList.update ''canopen.cob_id'' (cobName (ID f)) (resourceAttrs s)"

text \<open>The completed transfer a frame reports, aborts left out, and the object declared for it.\<close>

definition sdo_event :: "Sniffer \<Rightarrow> u32 \<Rightarrow> u8 \<Rightarrow> Direction \<Rightarrow> Frame \<Rightarrow> Event option" where
  "sdo_event s key n d f = (case snd (ObserveOnChannel (sdo s) key n d (Data f)) of
     Inr (Some e) \<Rightarrow> if evAbortCode e = None then Some e else None | _ \<Rightarrow> None)"

definition sdo_object :: "Sniffer \<Rightarrow> Event \<Rightarrow> SDOObjectDef option" where
  "sdo_object s e = sdoIndex s (evNodeID e, evIndex e, evSubIndex e)"

definition sdo_decoded :: "Sniffer \<Rightarrow> u32 \<Rightarrow> u8 \<Rightarrow> Direction \<Rightarrow> Frame \<Rightarrow> (Event \<times> SDOObjectDef) option" where
  "sdo_decoded s key n d f =
     Option.bind (sdo_event s key n d f) (\<lambda>e. map_option (Pair e) (sdo_object s e))"

text \<open>The fields a frame makes the sniffer decode, with the payload they are read from.\<close>

fun class_fields :: "Sniffer \<Rightarrow> Frame \<Rightarrow> frame_class \<Rightarrow> Field list \<times> bytes" where
  "class_fields s f (RawDecoded msg) = (rdFields msg, Data f)"
| "class_fields s f (PDOFrame pdo) = (pdFields pdo, Data f)"
| "class_fields s f (SdoFrame key n d) =
     (case sdo_decoded s key n d f of Some (e, object) \<Rightarrow> (odFields object, evData e) | None \<Rightarrow> ([], []))"
| "class_fields s f _ = ([], [])"

fun class_state :: "Sniffer \<Rightarrow> Frame \<Rightarrow> frame_class \<Rightarrow> Sniffer" where
  "class_state s f (HeartbeatFrame n) =
     (if Data f = [] then s else s\<lparr>nmtState := (nmtState s)(n \<mapsto> Data f ! 0)\<rparr>)"
| "class_state s f (SdoFrame key n d) = s\<lparr>sdo := fst (ObserveOnChannel (sdo s) key n d (Data f))\<rparr>"
| "class_state s f _ = s"

fun class_points :: "Sniffer \<Rightarrow> Frame \<Rightarrow> frame_class \<Rightarrow> MetricPoint list" where
  "class_points s f Ignored = []"
| "class_points s f RawUndecoded = (if RawEmitMetric (cfg s) then [rawPoint s f] else [])"
| "class_points s f (RawDecoded msg) = fieldPoints (rawResource s f) (Data f) (rdFields msg)"
| "class_points s f (PDOFrame pdo) = fieldPoints (resourceAttrs s) (Data f) (pdFields pdo)"
| "class_points s f (HeartbeatFrame n) =
     (if Data f \<noteq> [] \<and> HeartbeatEmitMetric (cfg s) then [heartbeatPoint s n (Data f ! 0)] else [])"
| "class_points s f (EmcyFrame n) =
     (if 3 \<le> length (Data f) \<and> EMCYEmitMetric (cfg s) then [emcyPoint s n (Data f ! 2)] else [])"
| "class_points s f (SdoFrame key n d) =
     (case sdo_decoded s key n d f of
        Some (e, object) \<Rightarrow> fieldPoints (sdoResource s e) (evData e) (odFields object) | None \<Rightarrow> [])"

definition emcyCode :: "bytes \<Rightarrow> u16" where
  "emcyCode data = of_nat (le_nat (take 2 data))"

fun class_records :: "Sniffer \<Rightarrow> Frame \<Rightarrow> frame_class \<Rightarrow> LogRecord list" where
  "class_records s f Ignored = []"
| "class_records s f RawUndecoded = (if RawEmitLog (cfg s) then [rawRecord s f] else [])"
| "class_records s f (RawDecoded msg) =
     fieldRecords (rawResource s f) [(''canopen.raw.message'', AnyString (rdName msg))]
       (''canopen raw message '' @ rdName msg @ '' decoded'') (Data f) (rdFields msg)"
| "class_records s f (PDOFrame pdo) =
     fieldRecords (resourceAttrs s) [(''canopen.pdo.name'', AnyString (pdName pdo))]
       (''canopen pdo '' @ pdName pdo @ '' decoded'') (Data f) (pdFields pdo)"
| "class_records s f (HeartbeatFrame n) =
     (if Data f \<noteq> [] \<and> HeartbeatEmitLog (cfg s) \<and> nmtState s n \<noteq> Some (Data f ! 0)
      then [heartbeatRecord s n (Data f ! 0)] else [])"
| "class_records s f (EmcyFrame n) =
     (if 3 \<le> length (Data f) \<and> EMCYEmitLog (cfg s)
      then [emcyRecord s n (emcyCode (Data f)) (Data f ! 2)] else [])"
| "class_records s f (SdoFrame key n d) =
     (case sdo_decoded s key n d f of
        Some (e, object) \<Rightarrow> fieldRecords (sdoResource s e) (sdoContext e) (sdoBody e) (evData e) (odFields object)
      | None \<Rightarrow> [])"

definition frame_safe :: "Sniffer \<Rightarrow> Frame \<Rightarrow> bool" where
  "frame_safe s f \<longleftrightarrow>
     (case class_fields s f (frame_class s f) of (fs, data) \<Rightarrow> \<forall>fd \<in> set fs. decodable data fd) \<and>
     (ID f \<in> RawCobIDs (cfg s) \<longrightarrow> (\<forall>msg \<in> set (rawDefs s f). offsets_ok msg))"

text \<open>What \<open>HandleFrame\<close> should do, from the class.\<close>

definition contribute ::
  "int \<Rightarrow> Sniffer \<Rightarrow> Frame \<Rightarrow> frame_class \<Rightarrow> MetricsBuilder option \<Rightarrow> LogsBuilder option \<Rightarrow>
     (Sniffer \<times> MetricsBuilder option \<times> LogsBuilder option) option" where
  "contribute now s f c metrics logs =
     do { ms \<leftarrow> addPoints now metrics (class_points s f c);
          ls \<leftarrow> addRecords now logs (class_records s f c);
          Some (class_state s f c, ms, ls) }"

subsection \<open>The handlers against their classes\<close>

lemma stateless_contribute:
  "stateless s (do { ms \<leftarrow> a; ls \<leftarrow> b; Some (ms, ls) }) = do { ms \<leftarrow> a; ls \<leftarrow> b; Some (s, ms, ls) }"
  by (cases a; cases b) (simp_all add: stateless_def)

lemma Pair_contribute:
  "map_option (Pair s) (Option.bind a (\<lambda>ms. Option.bind b (\<lambda>ls. Some (ms, ls)))) =
     Option.bind a (\<lambda>ms. Option.bind b (\<lambda>ls. Some (s, ms, ls)))"
  by (cases a; cases b) simp_all

lemma add_disabled: "addMetric now False metrics p = Some metrics" "addLog now False logs r = Some logs"
  by (simp_all add: addMetric_def addLog_def split: option.split)

lemma matchesAll_spec:
  "\<forall>m \<in> set ms. 0 \<le> rmByteOffset m \<Longrightarrow> matchesAll ms data = Some (\<forall>m \<in> set ms. condition_holds data m)"
  by (induction ms) (auto simp: condition_holds_def at_index_def)

lemma firstMatch_spec:
  "\<forall>msg \<in> set msgs. offsets_ok msg \<Longrightarrow>
     firstMatch msgs data = Some (List.find (\<lambda>msg. \<forall>m \<in> set (rdMatch msg). condition_holds data m) msgs)"
  by (induction msgs) (simp_all add: matches_def matchesAll_spec offsets_ok_def split: bool.split)

lemma handleRaw_spec:
  assumes "\<not> Extended f" "ID f \<in> RawCobIDs (cfg s)" "frame_safe s f"
  shows "stateless s (handleRaw now s f metrics logs) = contribute now s f (frame_class s f) metrics logs"
proof -
  have off: "\<forall>msg \<in> set (rawDefs s f). offsets_ok msg" using assms by (simp add: frame_safe_def)
  let ?m = "List.find (\<lambda>msg. \<forall>m \<in> set (rdMatch msg). condition_holds (Data f) m) (rawDefs s f)"
  have first: "firstMatch (rawDefs s f) (Data f) = Some ?m" by (rule firstMatch_spec [OF off])
  show ?thesis
  proof (cases ?m)
    case None
    then have "frame_class s f = RawUndecoded" using assms by (simp add: frame_class_def)
    then show ?thesis
      using first None
      by (simp add: handleRaw_def contribute_def stateless_contribute addPoints_single addRecords_single
          flip: rawDefs_def)
  next
    case (Some msg)
    then have c: "frame_class s f = RawDecoded msg" using assms by (simp add: frame_class_def)
    then have "\<forall>fd \<in> set (rdFields msg). decodable (Data f) fd" using assms(3) by (simp add: frame_safe_def)
    then show ?thesis
      using first Some c
      by (simp add: handleRaw_def handleRawMessage_def contribute_def stateless_contribute emitFields_spec rawResource_def
          flip: rawDefs_def)
  qed
qed

lemma handleSDO_spec:
  assumes "\<forall>fd \<in> set (fst (class_fields s f (SdoFrame key n d))). decodable (snd (class_fields s f (SdoFrame key n d))) fd"
  shows "handleSDO now s key n d f metrics logs = contribute now s f (SdoFrame key n d) metrics logs"
proof -
  obtain obs r where o: "ObserveOnChannel (sdo s) key n d (Data f) = (obs, r)" by force
  have attrs: "sdoResource (s\<lparr>sdo := obs\<rparr>) e = sdoResource s e" for e
    by (simp add: sdoResource_def nodeAttrs_def resourceAttrs_def)
  show ?thesis
  proof (cases "sdo_decoded s key n d f")
    case None
    then show ?thesis
      using o by (auto simp: handleSDO_def contribute_def sdo_decoded_def sdo_event_def sdo_object_def emitTypedSDO_def
          split: sum.splits option.splits if_splits)
  next
    case (Some eo)
    then obtain e object where eo: "eo = (e, object)" "r = Inr (Some e)" "evAbortCode e = None"
      "sdoIndex s (evNodeID e, evIndex e, evSubIndex e) = Some object"
      using o by (auto simp: sdo_decoded_def sdo_event_def sdo_object_def split: sum.splits option.splits if_splits)
    have "\<forall>fd \<in> set (odFields object). decodable (evData e) fd" using assms Some eo(1) by simp
    note spec = emitFields_spec [OF this, of now "sdoResource s e" "sdoContext e" "sdoBody e" metrics logs]
    show ?thesis
      using o Some eo
      by (simp add: handleSDO_def contribute_def emitTypedSDO_def attrs spec Pair_contribute)
  qed
qed

lemma emcyCode_eq:
  "3 \<le> length data \<Longrightarrow> ucast (data ! 0) OR push_bit 8 (ucast (data ! 1)) = emcyCode data"
proof -
  assume "3 \<le> length data"
  then obtain a b rest where d: "data = a # b # rest" by (metis Suc_le_length_iff numeral_3_eq_3)
  have "(ucast a OR push_bit 8 (ucast b) :: u16) = ucast a + push_bit 8 (ucast b)"
    by (rule disjunctive_add [symmetric]) (auto simp: bit_simps dest: bit_imp_le_length)
  then show ?thesis by (simp add: d emcyCode_def push_bit_eq_mult)
qed

lemma handleEMCY_spec:
  "stateless s (handleEMCY now s n f logs metrics) = contribute now s f (EmcyFrame n) metrics logs"
  using emcyCode_eq [of "Data f"]
  by (auto simp: add_disabled handleEMCY_def contribute_def stateless_contribute addPoints_single addRecords_single Let_def
      stateless_def [of s "Some (metrics, logs)"])

lemma handleHeartbeat_spec:
  "handleHeartbeat now s n f metrics logs = contribute now s f (HeartbeatFrame n) metrics logs"
  by (cases "Data f") (auto simp: handleHeartbeat_def contribute_def addPoints_single addRecords_single Let_def)

lemma handlePDO_spec:
  assumes "\<forall>fd \<in> set (pdFields pdo). decodable (Data f) fd"
  shows "stateless s (handlePDO now s pdo f metrics logs) = contribute now s f (PDOFrame pdo) metrics logs"
  by (simp add: handlePDO_def contribute_def emitFields_spec [OF assms] stateless_contribute)

text \<open>The whole dispatch.\<close>

lemma HandleFrame_contribute:
  assumes "frame_safe s f"
  shows "HandleFrame now s f metrics logs = contribute now s f (frame_class s f) metrics logs"
proof -
  have ignored: "contribute now s f Ignored metrics logs = Some (s, metrics, logs)"
    by (simp add: contribute_def)
  consider "Extended f" | "\<not> Extended f" "ID f \<in> RawCobIDs (cfg s)"
    | "\<not> Extended f" "ID f \<notin> RawCobIDs (cfg s)" "PDOs (cfg s) (ID f) \<noteq> None"
    | "\<not> Extended f" "ID f \<notin> RawCobIDs (cfg s)" "PDOs (cfg s) (ID f) = None" "sdoByCobID s (ID f) \<noteq> None"
    | "\<not> Extended f" "ID f \<notin> RawCobIDs (cfg s)" "PDOs (cfg s) (ID f) = None" "sdoByCobID s (ID f) = None"
    by blast
  then show ?thesis
  proof cases
    case 1 then show ?thesis by (simp add: HandleFrame_def frame_class_def ignored)
  next
    case 2 then show ?thesis using handleRaw_spec assms by (simp add: HandleFrame_def)
  next
    case 3
    then obtain pdo where p: "PDOs (cfg s) (ID f) = Some pdo" by blast
    then have c: "frame_class s f = PDOFrame pdo" using 3 by (simp add: frame_class_def)
    then have "\<forall>fd \<in> set (pdFields pdo). decodable (Data f) fd" using assms by (simp add: frame_safe_def)
    then show ?thesis using 3 p c handlePDO_spec by (simp add: HandleFrame_def)
  next
    case 4
    then obtain ch where p: "sdoByCobID s (ID f) = Some ch" by blast
    let ?d = "if ID f = chClientCobID ch then ClientToServer else ServerToClient"
    have c: "frame_class s f = SdoFrame (chKey ch) (chNodeID ch) ?d"
      using 4 p by (simp add: frame_class_def)
    have "handleSDO now s (chKey ch) (chNodeID ch) ?d f metrics logs = contribute now s f (frame_class s f) metrics logs"
      unfolding c by (rule handleSDO_spec) (use assms c in \<open>simp add: frame_safe_def split_beta\<close>)
    then show ?thesis using 4 p by (simp add: HandleFrame_def Let_def)
  next
    case 5
    note rng = in_range_word [of "0x700" "0x700" "ID f"] in_range_word [of "0x080" "0x080" "ID f"]
      in_range_word [of "0x580" "0x580" "ID f"] in_range_word [of "0x600" "0x600" "ID f"]
    have sdo: "handleSDO now s key n d f metrics logs = contribute now s f (SdoFrame key n d) metrics logs"
      if "frame_class s f = SdoFrame key n d" for key n d
      by (rule handleSDO_spec) (use assms that in \<open>simp add: frame_safe_def split_beta\<close>)
    show ?thesis
      using 5 rng sdo handleHeartbeat_spec [of now s _ f metrics logs] handleEMCY_spec [of s now _ f logs metrics]
      by (auto simp: HandleFrame_def frame_class_def Let_def FuncHeartbeat_def FuncEmergency_def FuncSDOTx_def
          FuncSDORx_def ignored)
  qed
qed

section \<open>Runs of the sniffer\<close>

text \<open>The receive loop's use of the sniffer: frames in order, each with its clock reading.\<close>

primrec sniff_run ::
  "Sniffer \<Rightarrow> (int \<times> Frame) list \<Rightarrow> MetricsBuilder option \<Rightarrow> LogsBuilder option \<Rightarrow>
     (Sniffer \<times> MetricsBuilder option \<times> LogsBuilder option) option" where
  "sniff_run s [] metrics logs = Some (s, metrics, logs)"
| "sniff_run s (x # xs) metrics logs =
     do { (s1, ms, ls) \<leftarrow> HandleFrame (fst x) s (snd x) metrics logs; sniff_run s1 xs ms ls }"

text \<open>What the frames contribute, in order.\<close>

record contribution =
  coClass :: frame_class
  coTime :: int
  coPoints :: "MetricPoint list"
  coRecords :: "LogRecord list"

definition contribution_of :: "int \<Rightarrow> Sniffer \<Rightarrow> Frame \<Rightarrow> contribution" where
  "contribution_of now s f =
     (let c = frame_class s f
      in \<lparr>coClass = c, coTime = now, coPoints = class_points s f c, coRecords = class_records s f c\<rparr>)"

definition next_state :: "Sniffer \<Rightarrow> Frame \<Rightarrow> Sniffer" where
  "next_state s f = class_state s f (frame_class s f)"

primrec contributions :: "Sniffer \<Rightarrow> (int \<times> Frame) list \<Rightarrow> contribution list" where
  "contributions s [] = []"
| "contributions s (x # xs) = contribution_of (fst x) s (snd x) # contributions (next_state s (snd x)) xs"

definition all_points :: "contribution list \<Rightarrow> (int \<times> MetricPoint) list" where
  "all_points cs = concat (map (\<lambda>c. map (Pair (coTime c)) (coPoints c)) cs)"

definition all_records :: "contribution list \<Rightarrow> (int \<times> LogRecord) list" where
  "all_records cs = concat (map (\<lambda>c. map (Pair (coTime c)) (coRecords c)) cs)"

lemma all_points_simps:
  "all_points [] = []" "all_points (c # cs) = map (Pair (coTime c)) (coPoints c) @ all_points cs"
  by (simp_all add: all_points_def)

lemma all_records_simps:
  "all_records [] = []" "all_records (c # cs) = map (Pair (coTime c)) (coRecords c) @ all_records cs"
  by (simp_all add: all_records_def)

lemma all_records_same_time:
  "\<forall>x \<in> set cs. coTime x = t \<Longrightarrow> all_records cs = map (Pair t) (concat (map coRecords cs))"
  by (induction cs) (simp_all add: all_records_simps)

subsection \<open>Metric kinds\<close>

text \<open>Every instrument of the batch has the kind that \<open>K\<close> gives its name.\<close>

definition kinds_ok :: "(string \<Rightarrow> MetricKind) \<Rightarrow> MetricsBuilder \<Rightarrow> bool" where
  "kinds_ok K b \<longleftrightarrow> (\<forall>rm \<in> set (mbMd b). \<forall>m \<in> set (rmMetrics rm). data_kind (mData m) = K (mName m))"

lemma appendPoint_kind: "appendPoint k dp d = Some d' \<Longrightarrow> data_kind d' = data_kind d"
  by (cases "(k, dp, d)" rule: appendPoint.cases) (auto simp: data_kind_def)

lemma kinds_ok_no_clash: "kinds_ok K b \<Longrightarrow> mpKind p = K (mpName p) \<Longrightarrow> \<not> kind_clash b p"
  by (auto simp: kinds_ok_def kind_clash_def)

lemma data_kind_newMetric: "data_kind (mData (newMetric p)) = mpKind p" "mName (newMetric p) = mpName p"
  by (simp_all add: newMetric_def data_kind_def split: MetricKind.split)

lemma kinds_ok_nth:
  "kinds_ok K b \<Longrightarrow> i < length (mbMd b) \<Longrightarrow> m \<in> set (rmMetrics (mbMd b ! i)) \<Longrightarrow> data_kind (mData m) = K (mName m)"
  using nth_mem by (fastforce simp: kinds_ok_def)

lemma MetricsAdd_kinds:
  assumes "kinds_ok K b" "mpKind p = K (mpName p)" "MetricsAdd now b p = Some b'"
  shows "kinds_ok K b'"
proof -
  obtain b1 i where b1: "resourceMetrics b (mpResourceAttrs p) = (b1, i)" by force
  have k1: "kinds_ok K b1"
    using assms(1) b1 by (auto simp: resourceMetrics_def Let_def kinds_ok_def split: option.splits)
  obtain b2 j where b2: "metricHandle b1 i p = Some (b2, j)"
    using assms(3) by (auto simp: MetricsAdd_def b1 split: option.splits)
  note k1i = kinds_ok_nth [OF k1, of i]
  have k2: "kinds_ok K b2"
    using k1 k1i b2 assms(2)
    by (auto simp: metricHandle_def Let_def kinds_ok_def data_kind_newMetric split: option.splits if_splits
        dest!: set_update_subset_insert [THEN subsetD])
  let ?rm = "mbMd b2 ! i" and ?m = "rmMetrics (mbMd b2 ! i) ! j"
  obtain d where d: "appendPoint (mpKind p) (dataPoint now p) (mData ?m) = Some d" "i < length (mbMd b2)"
    "j < length (rmMetrics ?rm)"
    "mbMd b' = (mbMd b2)[i := ?rm\<lparr>rmMetrics := (rmMetrics ?rm)[j := ?m\<lparr>mData := d\<rparr>]\<rparr>]"
    using assms(3) by (auto simp: MetricsAdd_def b1 b2(1) modify_at_Some)
  then show ?thesis
    using k2 appendPoint_kind [OF d(1)] kinds_ok_nth [OF k2 d(2)] nth_mem [OF d(3)]
    by (auto simp: kinds_ok_def dest!: set_update_subset_insert [THEN subsetD])
qed

lemma add_all_kinds:
  assumes "mb_good b" "kinds_ok K b" "\<forall>p \<in> set ps. mpKind p = K (mpName p)"
  shows "\<exists>b'. metrics.add_all now b ps = Some b' \<and> mb_good b' \<and> kinds_ok K b' \<and>
    mb_items b' = mset (map (metric_item now) ps) + mb_items b"
  using assms
proof (induction ps arbitrary: b)
  case (Cons p ps)
  have "MetricsAdd now b p \<noteq> None"
    using MetricsAdd_None_iff [of b now p] kinds_ok_no_clash Cons.prems by (simp add: mb_good_def)
  then obtain b1 where b1: "MetricsAdd now b p = Some b1" by blast
  have "mb_good b1" "mb_items b1 = add_mset (metric_item now p) (mb_items b)"
    using Cons.prems(1) b1 metrics.good_add metrics.content_add by blast+
  moreover have "kinds_ok K b1" using MetricsAdd_kinds [OF Cons.prems(2) _ b1] Cons.prems(3) by simp
  ultimately show ?case using Cons.IH [of b1] Cons.prems(3) b1 by auto
qed simp

lemma logs_add_all_total:
  "lb_good b \<Longrightarrow> \<exists>b'. logs.add_all now b rs = Some b' \<and> lb_good b' \<and> lb_items b' = mset (map (log_item now) rs) + lb_items b"
proof (induction rs arbitrary: b)
  case (Cons r rs)
  then obtain b1 where b1: "LogsAdd now b r = Some b1" using LogsAdd_total by blast
  have "lb_good b1" "lb_items b1 = add_mset (log_item now r) (lb_items b)"
    using Cons.prems b1 logs.good_add logs.content_add by blast+
  then show ?case using Cons.IH [of b1] b1 by auto
qed simp

subsection \<open>Configurations the sniffer runs on without panicking\<close>

definition config_fields :: "SnifferConfig \<Rightarrow> Field set" where
  "config_fields c =
     (\<Union>pdo \<in> ran (PDOs c). set (pdFields pdo)) \<union>
     (\<Union>msgs \<in> ran (RawMessages c). \<Union>msg \<in> set msgs. set (rdFields msg)) \<union>
     (\<Union>object \<in> set (SDOObjects c). set (odFields object))"

definition field_kind :: "Field \<Rightarrow> MetricKind" where
  "field_kind f = (if fMetricSum f then KindSum else KindGauge)"

text \<open>
  Offsets and lengths that do not overflow, no negative match offset, and one kind per metric
  name, the receiver's own metrics included.
\<close>

definition config_ok :: "(string \<Rightarrow> MetricKind) \<Rightarrow> SnifferConfig \<Rightarrow> bool" where
  "config_ok K c \<longleftrightarrow>
     (\<forall>f \<in> config_fields c. fBitOffset f < 2 ^ 62 \<and> fByteLen f < 2 ^ 62 \<and> (fEmitMetric f \<longrightarrow> field_kind f = K (fName f))) \<and>
     (\<forall>msgs \<in> ran (RawMessages c). \<forall>msg \<in> set msgs. offsets_ok msg) \<and>
     K ''canopen.raw.frames'' = KindSum \<and> K ''canopen.node.nmt_state'' = KindGauge \<and>
     K ''canopen.node.emcy_error_register'' = KindGauge"

text \<open>Collected SDO data is bounded by the number of frames seen.\<close>

definition data_bounded :: "nat \<Rightarrow> Observer \<Rightarrow> bool" where
  "data_bounded n obs \<longleftrightarrow> (\<forall>k tr. transfers obs k = Some tr \<longrightarrow> length (trData tr) \<le> n)"

lemma data_bounded_upd:
  "data_bounded n obs \<Longrightarrow> n \<le> m \<Longrightarrow> length (trData tr) \<le> m \<Longrightarrow> data_bounded m (obs\<lparr>transfers := (transfers obs)(k \<mapsto> tr)\<rparr>)"
  "data_bounded n obs \<Longrightarrow> n \<le> m \<Longrightarrow> data_bounded m (obs\<lparr>transfers := (transfers obs)(k := None)\<rparr>)"
  "data_bounded n obs \<Longrightarrow> n \<le> m \<Longrightarrow> data_bounded m obs"
  by (auto simp: data_bounded_def intro: order_trans)

definition result_bounded :: "nat \<Rightarrow> obs_result \<Rightarrow> bool" where
  "result_bounded n r = (case r of Inr (Some e) \<Rightarrow> length (evData e) \<le> n | _ \<Rightarrow> True)"

lemma result_bounded_simps [simp]:
  "result_bounded n (Inl err)" "result_bounded n (Inr None)" "result_bounded n (Inr (Some e)) \<longleftrightarrow> length (evData e) \<le> n"
  by (simp_all add: result_bounded_def)

lemma length_expeditedData: "length (expeditedData c frame) \<le> 4"
  by (simp add: expeditedData_def Let_def min_le_iff_disj)

lemma observeSegment_bounded:
  assumes "data_bounded n obs"
  shows "data_bounded (n + 7) (fst (observeSegment obs k nd d c frame)) \<and>
    result_bounded (n + 7) (snd (observeSegment obs k nd d c frame))"
proof (cases "transfers obs k")
  case None
  then show ?thesis using assms by (simp add: observeSegment_def data_bounded_upd(3))
next
  case (Some tr)
  then have "length (trData tr) \<le> n" using assms by (simp add: data_bounded_def)
  then have le: "length (trData tr) + min (length frame - Suc 0) m \<le> n + 7" if "m \<le> 7" for m using that by simp
  show ?thesis
    using Some assms le
    by (auto simp: observeSegment_def Let_def complete_def intro!: data_bounded_upd [OF assms le_add1])
qed

lemma ObserveOnChannel_bounded:
  assumes "data_bounded n obs"
  shows "data_bounded (n + 7) (fst (ObserveOnChannel obs k nd d frame)) \<and>
    result_bounded (n + 7) (snd (ObserveOnChannel obs k nd d frame))"
proof -
  have small: "length (expeditedData c frame) \<le> n + 7" for c
    using length_expeditedData [of c frame] by simp
  have init: "length (trData tr) \<le> n + 7" if "transfers obs k = Some tr" for tr
    using assms that unfolding data_bounded_def by (meson trans_le_add1)
  have client: "data_bounded (n + 7) (fst (observeClient obs k nd c frame)) \<and>
      result_bounded (n + 7) (snd (observeClient obs k nd c frame))" for c
    using assms observeSegment_bounded [OF assms] small
    by (auto simp: observeClient_def newTransfer_def intro!: data_bounded_upd [OF assms le_add1] split: prod.splits)
  have server: "data_bounded (n + 7) (fst (observeServer obs k nd c frame)) \<and>
      result_bounded (n + 7) (snd (observeServer obs k nd c frame))" for c
    using assms observeSegment_bounded [OF assms] small init
    by (auto simp: observeServer_def complete_def intro!: data_bounded_upd [OF assms le_add1] split: prod.splits option.splits)
  show ?thesis
    using client server assms
    by (auto simp: ObserveOnChannel_def Let_def intro!: data_bounded_upd [OF assms le_add1] split: prod.splits Direction.splits)
qed

subsection \<open>The invariant of a run\<close>

lemma indexObjects_ran: "ran (indexObjects objects) \<subseteq> set objects"
proof -
  have "ran (foldl (\<lambda>m object. let key = (odNodeID object, odIndex object, odSubIndex object)
      in if m key = None then m(key \<mapsto> object) else m) m objects) \<subseteq> ran m \<union> set objects" for m
    by (induction objects arbitrary: m) (fastforce simp: Let_def ran_def split: if_splits)+
  from this [of Map.empty] show ?thesis by (simp add: indexObjects_def)
qed

definition sniffer_ok :: "(string \<Rightarrow> MetricKind) \<Rightarrow> nat \<Rightarrow> Sniffer \<Rightarrow> bool" where
  "sniffer_ok K n s \<longleftrightarrow> config_ok K (cfg s) \<and> ran (sdoIndex s) \<subseteq> set (SDOObjects (cfg s)) \<and> data_bounded (7 * n) (sdo s)"

lemma sniffer_ok_New: "config_ok K c \<Longrightarrow> sniffer_ok K 0 (NewSniffer c)"
  using indexObjects_ran by (simp add: sniffer_ok_def NewSniffer_def NewObserver_def data_bounded_def)

lemma sniffer_ok_class:
  assumes "sniffer_ok K n s"
  shows "sniffer_ok K (Suc n) (class_state s f c)"
proof -
  have "data_bounded (7 * Suc n) (sdo s)"
    using assms by (auto simp: sniffer_ok_def intro: data_bounded_upd(3))
  moreover have "data_bounded (7 * Suc n) (fst (ObserveOnChannel (sdo s) key nd d frame))" for key nd d frame
    using assms ObserveOnChannel_bounded [of "7 * n" "sdo s" key nd d frame] by (simp add: sniffer_ok_def add.commute)
  ultimately show ?thesis
    using assms by (cases c) (simp_all add: sniffer_ok_def)
qed

lemma frame_class_raw: "frame_class s f = RawDecoded msg \<Longrightarrow> msg \<in> set (rawDefs s f)"
  by (auto simp: frame_class_def Let_def find_Some_iff split: if_splits option.splits dest: nth_mem)

lemma frame_class_pdo: "frame_class s f = PDOFrame pdo \<Longrightarrow> pdo \<in> ran (PDOs (cfg s))"
  by (auto simp: frame_class_def Let_def ran_def split: if_splits option.splits)

lemma rawDefs_ran: "msg \<in> set (rawDefs s f) \<Longrightarrow> \<exists>msgs \<in> ran (RawMessages (cfg s)). msg \<in> set msgs"
  by (cases "RawMessages (cfg s) (ID f)") (auto simp: rawDefs_def intro: ranI)

text \<open>All fields a frame decodes are declared, and their payload is bounded.\<close>

lemma class_fields_declared:
  assumes "sniffer_ok K n s" "class_fields s f (frame_class s f) = (fs, data)"
  shows "set fs \<subseteq> config_fields (cfg s)" "length data \<le> max (length (Data f)) (7 * n + 7)"
proof -
  have sub: "ran (sdoIndex s) \<subseteq> set (SDOObjects (cfg s))" and b: "data_bounded (7 * n) (sdo s)"
    using assms(1) by (simp_all add: sniffer_ok_def)
  have obj: "object \<in> set (SDOObjects (cfg s)) \<and> length (evData e) \<le> 7 * n + 7"
    if "sdo_decoded s key nd d f = Some (e, object)" for key nd d e object
  proof -
    have "snd (ObserveOnChannel (sdo s) key nd d (Data f)) = Inr (Some e)" "sdo_object s e = Some object"
      using that by (auto simp: sdo_decoded_def sdo_event_def split: sum.splits option.splits if_splits bind_splits)
    then show ?thesis
      using ObserveOnChannel_bounded [OF b, of key nd d "Data f"] sub by (auto simp: sdo_object_def ran_def)
  qed
  show "set fs \<subseteq> config_fields (cfg s)"
    using assms(2) frame_class_raw [of s f] rawDefs_ran [of _ s f] frame_class_pdo [of s f] obj
    by (cases "frame_class s f") (fastforce simp: config_fields_def split: option.splits)+
  show "length data \<le> max (length (Data f)) (7 * n + 7)"
    using assms(2) obj by (cases "frame_class s f") (fastforce split: option.splits)+
qed

lemma decodable_bounded:
  assumes "fBitOffset fd < 2 ^ 62" "fByteLen fd < 2 ^ 62" "length data < 2 ^ 53"
  shows "decodable data fd"
proof -
  have "fBitOffset fd div 8 < 2 ^ 62" using assms(1) by simp
  moreover have "BitWidth (fType fd) \<le> 64" by (cases "fType fd") (simp_all add: BitWidth_def)
  ultimately have "\<not> end_overflows (fType fd) (fBitOffset fd) (fByteLen fd)"
    using assms(1,2) unfolding end_overflows_def by auto
  then show ?thesis
    using Decode_None_iff [of "fBitOffset fd" "fByteLen fd" data "fType fd"] assms by (simp add: decodable_def)
qed

lemma config_decodable:
  assumes "config_ok K c" "fd \<in> config_fields c" "length data < 2 ^ 53"
  shows "decodable data fd"
  using decodable_bounded [OF _ _ assms(3), of fd] assms(1,2) by (auto simp: config_ok_def)

lemma sniffer_ok_safe:
  assumes "sniffer_ok K n s" "n < 2 ^ 50" "length (Data f) < 2 ^ 50"
  shows "frame_safe s f"
proof -
  obtain fs data where d: "class_fields s f (frame_class s f) = (fs, data)" by force
  have "length data \<le> max (length (Data f)) (7 * n + 7)" by (rule class_fields_declared(2) [OF assms(1) d])
  also have "\<dots> < 2 ^ 53" using assms(2,3) by simp
  finally have len: "length data < 2 ^ 53" .
  have ok: "config_ok K (cfg s)" using assms(1) by (simp add: sniffer_ok_def)
  then have "\<forall>fd \<in> set fs. decodable data fd"
    using class_fields_declared(1) [OF assms(1) d] config_decodable [OF ok _ len] by blast
  moreover have "\<forall>msg \<in> set (rawDefs s f). offsets_ok msg"
    using ok rawDefs_ran [of _ s f] by (fastforce simp: config_ok_def)
  ultimately show ?thesis by (simp add: frame_safe_def d)
qed

lemma fieldPoints_kinds:
  assumes "config_ok K c" "set fs \<subseteq> config_fields c" "p \<in> set (fieldPoints res data fs)"
  shows "mpKind p = K (mpName p)"
proof -
  obtain f v where f: "(f, v) \<in> set (decoded data fs)" "fEmitMetric f" "p = fieldPoint res f v"
    using assms(3) by (auto simp: fieldPoints_def)
  have "f \<in> set fs" using f(1) by (auto simp: decoded_def List.map_filter_def split: option.splits sum.splits)
  then show ?thesis
    using assms(1,2) f(2,3) unfolding config_ok_def fieldPoint_def field_kind_def by auto
qed

lemma class_points_kinds:
  assumes "sniffer_ok K n s" "p \<in> set (class_points s f (frame_class s f))"
  shows "mpKind p = K (mpName p)"
proof -
  have ok: "config_ok K (cfg s)" using assms(1) by (simp add: sniffer_ok_def)
  obtain fs data where d: "class_fields s f (frame_class s f) = (fs, data)" by force
  note kinds = fieldPoints_kinds [OF ok class_fields_declared(1) [OF assms(1) d]]
  show ?thesis
    using assms(2) ok d kinds
    by (cases "frame_class s f")
      (auto simp: config_ok_def rawPoint_def heartbeatPoint_def emcyPoint_def split: if_splits option.splits)
qed

lemma contribute_ok:
  assumes "mb_good mb" "kinds_ok K mb" "lb_good lb" "\<forall>p \<in> set (class_points s f c). mpKind p = K (mpName p)"
  shows "\<exists>mb' lb'. contribute now s f c (Some mb) (Some lb) = Some (class_state s f c, Some mb', Some lb') \<and>
    mb_good mb' \<and> kinds_ok K mb' \<and> lb_good lb' \<and>
    mb_items mb' = mset (map (metric_item now) (class_points s f c)) + mb_items mb \<and>
    lb_items lb' = mset (map (log_item now) (class_records s f c)) + lb_items lb"
proof -
  obtain mb' where "metrics.add_all now mb (class_points s f c) = Some mb'" "mb_good mb'" "kinds_ok K mb'"
    "mb_items mb' = mset (map (metric_item now) (class_points s f c)) + mb_items mb"
    using add_all_kinds [OF assms(1,2,4)] by blast
  moreover obtain lb' where "logs.add_all now lb (class_records s f c) = Some lb'" "lb_good lb'"
    "lb_items lb' = mset (map (log_item now) (class_records s f c)) + lb_items lb"
    using logs_add_all_total [OF assms(3)] by blast
  ultimately show ?thesis by (auto simp: contribute_def addPoints_def addRecords_def)
qed

lemma run_ok:
  assumes "sniffer_ok K n s" "n + length xs < 2 ^ 50" "\<forall>x \<in> set xs. length (Data (snd x)) < 2 ^ 50"
    "mb_good mb" "kinds_ok K mb" "lb_good lb"
  shows "\<exists>mb' lb'. sniff_run s xs (Some mb) (Some lb) = Some (foldl next_state s (map snd xs), Some mb', Some lb') \<and>
    mb_good mb' \<and> lb_good lb' \<and>
    mb_items mb' = mset (map (\<lambda>(now, p). metric_item now p) (all_points (contributions s xs))) + mb_items mb \<and>
    lb_items lb' = mset (map (\<lambda>(now, r). log_item now r) (all_records (contributions s xs))) + lb_items lb"
  using assms
proof (induction xs arbitrary: s n mb lb)
  case (Cons x xs)
  obtain now f where x: "x = (now, f)" by force
  let ?c = "frame_class s f"
  have "frame_safe s f" by (rule sniffer_ok_safe) (use Cons.prems x in auto)
  note step = HandleFrame_contribute [OF this, of now]
  have kinds: "\<forall>p \<in> set (class_points s f ?c). mpKind p = K (mpName p)"
    using class_points_kinds [OF Cons.prems(1)] by blast
  obtain mb1 lb1 where 1: "contribute now s f ?c (Some mb) (Some lb) = Some (class_state s f ?c, Some mb1, Some lb1)"
    "mb_good mb1" "kinds_ok K mb1" "lb_good lb1"
    "mb_items mb1 = mset (map (metric_item now) (class_points s f ?c)) + mb_items mb"
    "lb_items lb1 = mset (map (log_item now) (class_records s f ?c)) + lb_items lb"
    using contribute_ok [OF Cons.prems(4-6) kinds] by blast
  have ok1: "sniffer_ok K (Suc n) (next_state s f)"
    using sniffer_ok_class [OF Cons.prems(1)] by (simp add: next_state_def)
  obtain mb' lb' where 2: "sniff_run (next_state s f) xs (Some mb1) (Some lb1) =
      Some (foldl next_state (next_state s f) (map snd xs), Some mb', Some lb')" "mb_good mb'" "lb_good lb'"
    "mb_items mb' = mset (map (\<lambda>(now, p). metric_item now p) (all_points (contributions (next_state s f) xs))) + mb_items mb1"
    "lb_items lb' = mset (map (\<lambda>(now, r). log_item now r) (all_records (contributions (next_state s f) xs))) + lb_items lb1"
    using Cons.IH [OF ok1, of mb1 lb1] Cons.prems(2,3) 1(2-4) by auto
  have "sniff_run s (x # xs) (Some mb) (Some lb) = Some (foldl next_state s (map snd (x # xs)), Some mb', Some lb')"
    using step 1(1) 2(1) x by (simp flip: next_state_def)
  moreover have "mb_items mb' = mset (map (\<lambda>(now, p). metric_item now p) (all_points (contributions s (x # xs)))) + mb_items mb"
    using 1(5) 2(4) x by (simp add: all_points_simps contribution_of_def Let_def multiset.map_comp comp_def)
  moreover have "lb_items lb' = mset (map (\<lambda>(now, r). log_item now r) (all_records (contributions s (x # xs)))) + lb_items lb"
    using 1(6) 2(5) x by (simp add: all_records_simps contribution_of_def Let_def multiset.map_comp comp_def)
  ultimately show ?case using 2(2,3) by blast
qed (simp add: all_points_simps all_records_simps)

subsection \<open>What a run keeps\<close>

lemma class_state_keeps [simp]:
  "cfg (class_state s f c) = cfg s" "sdoByCobID (class_state s f c) = sdoByCobID s" "sdoIndex (class_state s f c) = sdoIndex s"
  by (cases c; simp)+

lemma next_state_keeps [simp]:
  "cfg (next_state s f) = cfg s" "sdoByCobID (next_state s f) = sdoByCobID s" "sdoIndex (next_state s f) = sdoIndex s"
  by (simp_all add: next_state_def)

lemma frame_class_next [simp]: "frame_class (next_state s f) = frame_class s"
  by (rule ext) (simp add: frame_class_def rawDefs_def Let_def)

lemma attrs_next [simp]:
  "resourceAttrs (next_state s f) = resourceAttrs s" "nodeAttrs (next_state s f) = nodeAttrs s"
  "heartbeatRecord (next_state s f) = heartbeatRecord s" "sdoResource (next_state s f) = sdoResource s"
  by (simp_all add: resourceAttrs_def nodeAttrs_def heartbeatRecord_def sdoResource_def fun_eq_iff)

subsection \<open>NMT states\<close>

definition heartbeats :: "Sniffer \<Rightarrow> u8 \<Rightarrow> (int \<times> Frame) list \<Rightarrow> NMTState list" where
  "heartbeats s n xs = [Data f ! 0. (now, f) \<leftarrow> xs, frame_class s f = HeartbeatFrame n \<and> Data f \<noteq> []]"

lemma heartbeats_next [simp]: "heartbeats (next_state s f) = heartbeats s"
  by (simp add: heartbeats_def fun_eq_iff)

primrec changes :: "NMTState option \<Rightarrow> NMTState list \<Rightarrow> NMTState list" where
  "changes prev [] = []"
| "changes prev (x # xs) = (if prev = Some x then [] else [x]) @ changes (Some x) xs"

lemma changes_remdups: "x # changes (Some x) xs = remdups_adj (x # xs)" "changes None xs = remdups_adj xs"
proof -
  show 1: "x # changes (Some x) xs = remdups_adj (x # xs)" for x xs
    by (induction xs arbitrary: x) (auto simp del: remdups_adj.simps(3) simp: remdups_adj_Cons')
  show "changes None xs = remdups_adj xs" using 1 by (cases xs) auto
qed

lemma heartbeat_records:
  assumes "HeartbeatEmitLog (cfg s)"
  shows "concat (map coRecords (filter (\<lambda>c. coClass c = HeartbeatFrame n) (contributions s xs))) =
    map (heartbeatRecord s n) (changes (nmtState s n) (heartbeats s n xs))"
  using assms
proof (induction xs arbitrary: s)
  case (Cons x xs)
  obtain now f where x: "x = (now, f)" by force
  have ih: "concat (map coRecords (filter (\<lambda>c. coClass c = HeartbeatFrame n) (contributions (next_state s f) xs))) =
      map (heartbeatRecord s n) (changes (nmtState (next_state s f) n) (heartbeats s n xs))"
    using Cons.IH [of "next_state s f"] Cons.prems by simp
  show ?case
  proof (cases "frame_class s f = HeartbeatFrame n")
    case True
    then show ?thesis
      using ih x Cons.prems
      by (cases "Data f") (auto simp: contribution_of_def Let_def next_state_def heartbeats_def)
  next
    case False
    then have "nmtState (next_state s f) n = nmtState s n"
      by (cases "frame_class s f") (auto simp: next_state_def)
    then show ?thesis
      using ih x False by (simp add: contribution_of_def Let_def heartbeats_def)
  qed
qed (simp add: heartbeats_def)

subsection \<open>Observed SDO transfers of a declared object\<close>

definition result_points :: "Sniffer \<Rightarrow> obs_result \<Rightarrow> MetricPoint list" where
  "result_points s r = (case r of
     Inr (Some e) \<Rightarrow>
       (if evAbortCode e = None then
          (case sdo_object s e of Some object \<Rightarrow> fieldPoints (sdoResource s e) (evData e) (odFields object) | None \<Rightarrow> [])
        else [])
   | _ \<Rightarrow> [])"

lemma result_points_simps:
  "result_points s (Inr None) = []"
  "result_points s (Inr (Some e)) =
     (if evAbortCode e = None then
        (case sdo_object s e of Some object \<Rightarrow> fieldPoints (sdoResource s e) (evData e) (odFields object) | None \<Rightarrow> [])
      else [])"
  by (simp_all add: result_points_def)

lemma class_points_sdo:
  "class_points s f (SdoFrame key n d) = result_points s (snd (ObserveOnChannel (sdo s) key n d (Data f)))"
  by (auto simp: result_points_def sdo_decoded_def sdo_event_def split: sum.splits option.splits if_splits bind_splits)

definition result_records :: "Sniffer \<Rightarrow> obs_result \<Rightarrow> LogRecord list" where
  "result_records s r = (case r of
     Inr (Some e) \<Rightarrow>
       (if evAbortCode e = None then
          (case sdo_object s e of
             Some object \<Rightarrow> fieldRecords (sdoResource s e) (sdoContext e) (sdoBody e) (evData e) (odFields object)
           | None \<Rightarrow> [])
        else [])
   | _ \<Rightarrow> [])"

lemma result_records_simps:
  "result_records s (Inr None) = []"
  "result_records s (Inr (Some e)) =
     (if evAbortCode e = None then
        (case sdo_object s e of
           Some object \<Rightarrow> fieldRecords (sdoResource s e) (sdoContext e) (sdoBody e) (evData e) (odFields object)
         | None \<Rightarrow> [])
      else [])"
  by (simp_all add: result_records_def)

lemma class_records_sdo:
  "class_records s f (SdoFrame key n d) = result_records s (snd (ObserveOnChannel (sdo s) key n d (Data f)))"
  by (auto simp: result_records_def sdo_decoded_def sdo_event_def split: sum.splits option.splits if_splits bind_splits)

lemma result_next:
  "result_points (next_state s f) = result_points s" "result_records (next_state s f) = result_records s"
  by (simp_all add: result_points_def result_records_def sdo_object_def fun_eq_iff split: sum.split option.split)

text \<open>The frames of a conversation on a channel, as bus frames.\<close>

definition sdo_frame :: "u32 \<Rightarrow> u32 \<Rightarrow> Direction \<times> bytes \<Rightarrow> Frame" where
  "sdo_frame clientID serverID x =
     \<lparr>ID = (if fst x = ClientToServer then clientID else serverID), Extended = False, Data = snd x\<rparr>"

lemma sdo_contributions:
  assumes "\<forall>x \<in> set conv. frame_class s (sdo_frame a b x) = SdoFrame key n (fst x)"
  shows "all_points (contributions s (map (\<lambda>x. (now, sdo_frame a b x)) conv)) =
      map (Pair now) (concat (map (result_points s) (snd (feed (sdo s) key n conv))))"
    "all_records (contributions s (map (\<lambda>x. (now, sdo_frame a b x)) conv)) =
      map (Pair now) (concat (map (result_records s) (snd (feed (sdo s) key n conv))))"
proof -
  have "all_points (contributions s (map (\<lambda>x. (now, sdo_frame a b x)) conv)) =
      map (Pair now) (concat (map (result_points s) (snd (feed (sdo s) key n conv)))) \<and>
    all_records (contributions s (map (\<lambda>x. (now, sdo_frame a b x)) conv)) =
      map (Pair now) (concat (map (result_records s) (snd (feed (sdo s) key n conv))))"
  using assms
proof (induction conv arbitrary: s)
  case (Cons x conv)
  obtain obs r where o: "ObserveOnChannel (sdo s) key n (fst x) (snd x) = (obs, r)" by force
  let ?f = "sdo_frame a b x"
  have c: "frame_class s ?f = SdoFrame key n (fst x)" and d: "Data ?f = snd x"
    using Cons.prems by (simp_all add: sdo_frame_def)
  have st: "sdo (next_state s ?f) = obs" using c d o by (simp add: next_state_def)
  have "all_points (contributions (next_state s ?f) (map (\<lambda>x. (now, sdo_frame a b x)) conv)) =
      map (Pair now) (concat (map (result_points s) (snd (feed obs key n conv)))) \<and>
    all_records (contributions (next_state s ?f) (map (\<lambda>x. (now, sdo_frame a b x)) conv)) =
      map (Pair now) (concat (map (result_records s) (snd (feed obs key n conv))))"
    using Cons.IH [of "next_state s ?f"] Cons.prems st by (simp add: result_next)
  then show ?case
    using c d o by (simp add: all_points_simps all_records_simps contribution_of_def Let_def class_points_sdo class_records_sdo
        split_beta del: class_points.simps class_records.simps)
qed (simp add: all_points_simps all_records_simps)
  then show "all_points (contributions s (map (\<lambda>x. (now, sdo_frame a b x)) conv)) =
      map (Pair now) (concat (map (result_points s) (snd (feed (sdo s) key n conv))))"
    "all_records (contributions s (map (\<lambda>x. (now, sdo_frame a b x)) conv)) =
      map (Pair now) (concat (map (result_records s) (snd (feed (sdo s) key n conv))))"
    by simp_all
qed

text \<open>The default SDO channel of a node, not claimed by a configured raw, PDO or SDO identifier.\<close>

definition default_channel :: "Sniffer \<Rightarrow> u8 \<Rightarrow> bool" where
  "default_channel s n \<longleftrightarrow> n \<noteq> 0 \<and> n < 128 \<and>
     (\<forall>i \<in> {0x580 + ucast n, 0x600 + ucast n}. i \<notin> RawCobIDs (cfg s) \<and> PDOs (cfg s) i = None \<and> sdoByCobID s i = None)"

lemma unat_ucast_u8 [simp]: "unat (ucast (b :: u8) :: u32) = unat b"
proof -
  have "unat b < 256" by simp
  then show ?thesis by (simp add: unsigned_ucast_eq take_bit_nat_eq_self del: unat_u8_less)
qed

lemma default_channel_class:
  assumes "default_channel s n" "fst x = ClientToServer \<or> fst x = ServerToClient"
  shows "frame_class s (sdo_frame (0x600 + ucast n) (0x580 + ucast n) x) = SdoFrame (ucast n) n (fst x)"
proof -
  have n: "0 < unat n" "unat n < 128"
    using assms(1) by (simp_all add: default_channel_def word_less_nat_alt unat_gt_0)
  have u: "unat (0x580 + ucast n :: u32) = 0x580 + unat n" "unat (0x600 + ucast n :: u32) = 0x600 + unat n"
    using n by (simp_all add: unat_word_ariths)
  show ?thesis
    using assms n u
    by (auto simp: frame_class_def sdo_frame_def default_channel_def in_range_def Let_def)
qed

subsection \<open>The log record of a field group\<close>

lemma map_of_setAll: "map_of (setAll m xs) = map_of m ++ map_of (rev xs)"
  unfolding setAll_def
proof (induction xs arbitrary: m)
  case (Cons x xs)
  obtain k v where x: "x = (k, v)" by force
  have "map_of (AList.update k v m) ++ map_of (rev xs) = map_of m ++ map_of (rev xs @ [x])"
    by (simp add: x update_conv' map_add_assoc [symmetric] fun_eq_iff map_add_def split: option.splits)
  then show ?case using Cons x by simp
qed simp

lemma setAll_keys:
  "distinct (map fst m) \<Longrightarrow> distinct (map fst (setAll m xs)) \<and> fst ` set (setAll m xs) = fst ` set m \<union> fst ` set xs"
  unfolding setAll_def
proof (induction xs arbitrary: m)
  case (Cons x xs)
  obtain k v where x: "x = (k, v)" by force
  have "distinct (map fst (AList.update k v m))" using Cons.prems by (rule distinct_update)
  moreover have "fst ` set (AList.update k v m) = insert k (fst ` set m)" by (auto simp: set_map [symmetric] update_keys simp del: set_map)
  ultimately show ?case using Cons.IH [of "AList.update k v m"] x by simp
qed simp

lemma setAll_length: "length (setAll [] xs) = card (fst ` set xs)"
proof -
  have "distinct (map fst (setAll [] xs))" "fst ` set (setAll [] xs) = fst ` set xs"
    using setAll_keys [of "[]" xs] by simp_all
  then show ?thesis by (metis distinct_card length_map list.set_map)
qed

lemma map_of_same_key:
  assumes "xs \<noteq> []" "\<forall>x \<in> set xs. fst x = k"
  shows "setAll [] xs = [(k, snd (last xs))]"
proof -
  have "setAll [(k, v)] xs = [(k, snd (last ((k, v) # xs)))]" for v
    using assms(2) unfolding setAll_def
    by (induction xs arbitrary: v) auto
  then show ?thesis using assms by (cases xs) (auto simp: setAll_def)
qed

text \<open>The body of a group's record, from the values logged.\<close>

definition group_body_ok :: "anymap \<Rightarrow> LogBody \<Rightarrow> bool" where
  "group_body_ok es body \<longleftrightarrow>
     (if \<forall>e \<in> set es. fst e = fst (hd es) then body = BodyRaw (snd (last es))
      else \<exists>m. body = BodyAsMap m \<and> distinct (map fst m) \<and> map_of m = map_of (rev es))"

lemma groupRecord_body:
  assumes "es \<noteq> []"
  shows "group_body_ok es (leBody (logEntry now (groupRecord res body (setAll [] es) attrs)))"
proof (cases "\<forall>e \<in> set es. fst e = fst (hd es)")
  case True
  then show ?thesis
    using map_of_same_key [OF assms, of "fst (hd es)"] by (simp add: group_body_ok_def logEntry_def groupRecord_def)
next
  case False
  have "length (setAll [] es) \<noteq> 1"
  proof
    assume "length (setAll [] es) = 1"
    then obtain k where "fst ` set es = {k}" by (auto simp: setAll_length card_1_singleton_iff)
    moreover have "hd es \<in> set es" using assms by simp
    ultimately show False using False by (metis image_eqI singletonD)
  qed
  then have "(case setAll [] es of [(_, value)] \<Rightarrow> Some value | _ \<Rightarrow> None) = None"
    by (auto split: list.split)
  then show ?thesis
    using False \<open>length (setAll [] es) \<noteq> 1\<close> map_of_setAll [of "[]" es] setAll_keys [of "[]" es]
    by (auto simp: group_body_ok_def logEntry_def groupRecord_def)
qed

lemma emitFields_log:
  assumes "\<forall>f \<in> set fs. decodable data f" "lb_good lb" "logged data fs \<noteq> []"
    "emitFields now fs data res ctx body metrics (Some lb) = Some (ms, Some lb')"
  shows "\<exists>le. lb_items lb' = add_mset (resourceKey res, le) (lb_items lb) \<and> leSeverity le = SeverityNumberInfo \<and>
     group_body_ok (bodyEntries (logged data fs)) (leBody le) \<and>
     map_of (leAttributes le) = map_of (rev (ctx @ concat (map (\<lambda>(f, v). entries (fAttributes f)) (logged data fs))))"
proof -
  let ?r = "groupRecord res body (setAll [] (bodyEntries (logged data fs)))
     (setAll [] (ctx @ concat (map (\<lambda>(f, v). entries (fAttributes f)) (logged data fs))))"
  have rs: "fieldRecords res ctx body data fs = [?r]" using assms(3) by (simp add: fieldRecords_def Let_def)
  have "addRecords now (Some lb) (fieldRecords res ctx body data fs) = Some (Some lb')"
    using assms(4) unfolding emitFields_spec [OF assms(1)] by (auto split: bind_splits)
  then have "LogsAdd now lb ?r = Some lb'"
    unfolding rs addRecords_one by (simp add: addLog_def)
  then have "lb_items lb' = add_mset (log_item now ?r) (lb_items lb)"
    using logs.content_add [OF assms(2)] by blast
  moreover have "log_item now ?r = (resourceKey res, logEntry now ?r)"
    by (simp add: log_item_def groupRecord_def)
  moreover have "bodyEntries (logged data fs) \<noteq> []" using assms(3) by (simp add: bodyEntries_def)
  moreover have "map_of (leAttributes (logEntry now ?r)) =
      map_of (rev (ctx @ concat (map (\<lambda>(f, v). entries (fAttributes f)) (logged data fs))))"
    by (simp add: logEntry_def groupRecord_def map_of_setAll)
  ultimately show ?thesis
    using groupRecord_body by (metis LogEntry.simps(3) LogRecord.simps(3) logEntry_def groupRecord_def)
qed

lemma dialog_frames_small:
  "d = ClientToServer \<or> d = ServerToClient \<Longrightarrow> x \<in> set (dialog d t bs) \<Longrightarrow>
     (fst x = ClientToServer \<or> fst x = ServerToClient) \<and> length (snd x) \<le> 8"
proof (induction d t bs rule: dialog.induct)
  case (1 d t bs)
  have f: "(fst (filler d t) = ClientToServer \<or> fst (filler d t) = ServerToClient) \<and> length (snd (filler d t)) \<le> 8"
    by (auto simp: filler_def split: Direction.split)
  show ?case
    using 1 f by (auto simp: dialog.simps [of d t bs] last_segment_def split: if_splits)
qed

lemma upload_frames_small:
  "length size4 = 4 \<Longrightarrow> \<forall>x \<in> set (upload_conversation index subIndex size4 bs).
     (fst x = ClientToServer \<or> fst x = ServerToClient) \<and> length (snd x) \<le> 8"
  using dialog_frames_small [of ServerToClient _ False bs] by (auto simp: upload_conversation_def)

section \<open>Properties\<close>

text \<open>A configuration with one PDO, one SDO object and heartbeat logging, for the witnesses.\<close>

definition sample_field :: "string \<Rightarrow> int \<Rightarrow> Field" where
  "sample_field name off =
     \<lparr>fName = name, fBitOffset = off, fType = Uint8, fByteLen = 0, fScale = 0, fOffset = 0, fUnit = ''rpm'',
      fEmitMetric = True, fEmitLog = True, fMetricSum = False, fAttributes = None\<rparr>"

definition sample_config :: SnifferConfig where
  "sample_config =
     \<lparr>InterfaceName = ''can0'',
      PDOs = [0x181 \<mapsto> \<lparr>pdName = ''motor'', pdCobID = 0x181, pdFields = [sample_field ''speed'' 0, sample_field ''load'' 8]\<rparr>],
      HeartbeatEmitMetric = True, HeartbeatEmitLog = True, EMCYEmitMetric = True, EMCYEmitLog = True,
      SDOObjects = [\<lparr>odNodeID = 5, odIndex = 0x2000, odSubIndex = 1, odFields = [sample_field ''temp'' 0]\<rparr>],
      SDOChannels = [], RawEmitMetric = False, RawEmitLog = False, RawCobIDs = {}, RawMessages = Map.empty\<rparr>"

definition sample_kinds :: "string \<Rightarrow> MetricKind" where
  "sample_kinds name = (if name = ''canopen.raw.frames'' then KindSum else KindGauge)"

lemma sample_config_ok: "config_ok sample_kinds sample_config"
  by (simp add: config_ok_def config_fields_def sample_config_def sample_field_def sample_kinds_def field_kind_def ran_def)

definition pdo_frame :: Frame where
  "pdo_frame = \<lparr>ID = 0x181, Extended = False, Data = [7, 9]\<rparr>"

text \<open>
  C6. Every frame contributes exactly what its class says. \<open>frame_class\<close> puts a frame into
  one class by ranges of identifiers, in the order of precedence extended, raw, PDO,
  configured SDO channel, and only then heartbeat (0x700 to 0x77F), emergency (0x081 to
  0x0FF), SDO server (0x581 to 0x5FF) and SDO client (0x601 to 0x67F). For every frame whose
  decoding does not panic, \<open>HandleFrame\<close>, with its bit masks, loops and early returns, adds to
  the builders it is given exactly the points and records computed from the class by
  comprehension over the declared fields, in that order, and updates only the observer (SDO)
  or the node's NMT state (heartbeat).
\<close>

theorem HandleFrame_by_class:
  assumes "frame_safe s f"
  shows "HandleFrame now s f metrics logs = contribute now s f (frame_class s f) metrics logs"
  by (rule HandleFrame_contribute [OF assms])

theorem HandleFrame_by_class_witness:
  "HandleFrame 3 (NewSniffer sample_config) pdo_frame (Some NewMetricsBuilder) None =
     contribute 3 (NewSniffer sample_config) pdo_frame (frame_class (NewSniffer sample_config) pdo_frame) (Some NewMetricsBuilder) None"
  by (rule HandleFrame_by_class, rule sniffer_ok_safe [OF sniffer_ok_New [OF sample_config_ok]])
    (simp_all add: pdo_frame_def)

text \<open>
  C20. The sniffer does not panic and loses nothing. For every configuration whose offsets,
  lengths and match offsets are in range and which uses one kind per metric name, and for
  every sequence of up to 2^50 frames with any identifiers and contents, the run of the
  receive loop returns, and the batches hold exactly the points and records the frames
  contribute, each once, with its timestamp.
\<close>

theorem sniffer_total_and_exact:
  assumes "config_ok K c" "length xs < 2 ^ 50" "\<forall>x \<in> set xs. length (Data (snd x)) < 2 ^ 50"
  shows "\<exists>mb lb. sniff_run (NewSniffer c) xs (Some NewMetricsBuilder) (Some NewLogsBuilder) =
       Some (foldl next_state (NewSniffer c) (map snd xs), Some mb, Some lb) \<and>
     mb_items mb = mset (map (\<lambda>(now, p). metric_item now p) (all_points (contributions (NewSniffer c) xs))) \<and>
     lb_items lb = mset (map (\<lambda>(now, r). log_item now r) (all_records (contributions (NewSniffer c) xs)))"
proof -
  have "kinds_ok K NewMetricsBuilder" by (simp add: kinds_ok_def NewMetricsBuilder_def)
  then show ?thesis
    using run_ok [OF sniffer_ok_New [OF assms(1)], of xs NewMetricsBuilder NewLogsBuilder] assms(2,3)
      metrics.good_fresh logs.good_fresh
    by (auto simp: metrics.content_fresh logs.content_fresh)
qed

theorem sniffer_total_and_exact_witness:
  "\<exists>mb lb. sniff_run (NewSniffer sample_config) [(3, pdo_frame), (4, pdo_frame)] (Some NewMetricsBuilder) (Some NewLogsBuilder) =
       Some (foldl next_state (NewSniffer sample_config) [pdo_frame, pdo_frame], Some mb, Some lb)"
  using sniffer_total_and_exact [OF sample_config_ok, of "[(3, pdo_frame), (4, pdo_frame)]"]
  by (auto simp: pdo_frame_def)

text \<open>
  C22. A node's state is logged exactly when it changes. With heartbeat logs on, over any run
  from a fresh sniffer, the batch holds exactly the records that the frames of the run contribute,
  and those contributed by the heartbeats of a node are, in order, one per element of the
  sequence of states it broadcast with adjacent repetitions removed, whatever other frames come
  in between.
\<close>

theorem heartbeat_logs_are_changes:
  assumes "config_ok K c" "length xs < 2 ^ 50" "\<forall>x \<in> set xs. length (Data (snd x)) < 2 ^ 50" "HeartbeatEmitLog c"
  shows "\<exists>s mb lb. sniff_run (NewSniffer c) xs (Some NewMetricsBuilder) (Some NewLogsBuilder) = Some (s, Some mb, Some lb) \<and>
     lb_items lb = mset (map (\<lambda>(now, r). log_item now r) (all_records (contributions (NewSniffer c) xs))) \<and>
     concat (map coRecords (filter (\<lambda>x. coClass x = HeartbeatFrame n) (contributions (NewSniffer c) xs))) =
       map (heartbeatRecord (NewSniffer c) n) (remdups_adj (heartbeats (NewSniffer c) n xs))"
proof -
  have "kinds_ok K NewMetricsBuilder" by (simp add: kinds_ok_def NewMetricsBuilder_def)
  moreover have "HeartbeatEmitLog (cfg (NewSniffer c))" "nmtState (NewSniffer c) n = None"
    using assms(4) by (simp_all add: NewSniffer_def)
  ultimately show ?thesis
    using run_ok [OF sniffer_ok_New [OF assms(1)], of xs NewMetricsBuilder NewLogsBuilder] assms(2,3)
      metrics.good_fresh logs.good_fresh heartbeat_records [of "NewSniffer c" n xs] changes_remdups(2)
    by (auto simp: metrics.content_fresh logs.content_fresh)
qed

definition heartbeat_frame :: "u8 \<Rightarrow> Frame" where
  "heartbeat_frame st = \<lparr>ID = 0x705, Extended = False, Data = [st]\<rparr>"

theorem heartbeat_logs_are_changes_witness:
  "\<exists>s mb lb. sniff_run (NewSniffer sample_config) (map (\<lambda>st. (1, heartbeat_frame st)) [0, 5, 5, 4])
        (Some NewMetricsBuilder) (Some NewLogsBuilder) = Some (s, Some mb, Some lb) \<and>
     lb_items lb = mset (map (log_item 1 \<circ> heartbeatRecord (NewSniffer sample_config) 5) [0, 5, 4])"
proof -
  let ?s = "NewSniffer sample_config" and ?xs = "map (\<lambda>st. (1, heartbeat_frame st)) [0, 5, 5, 4]"
  have hb: "frame_class s (heartbeat_frame st) = HeartbeatFrame 5" if "cfg s = sample_config" "sdoByCobID s = Map.empty" for s st
    using that by (simp add: frame_class_def in_range_def heartbeat_frame_def sample_config_def Let_def)
  have start: "cfg ?s = sample_config" "sdoByCobID ?s = Map.empty" by (simp_all add: NewSniffer_def sample_config_def)
  have all: "\<forall>x \<in> set (contributions s (map (\<lambda>st. (1, heartbeat_frame st)) sts)). coClass x = HeartbeatFrame 5 \<and> coTime x = 1"
    if "cfg s = sample_config" "sdoByCobID s = Map.empty" for s sts
    using that
  proof (induction sts arbitrary: s)
    case (Cons st sts)
    then show ?case
      using Cons.IH [of "next_state s (heartbeat_frame st)"] by (simp add: contribution_of_def Let_def hb)
  qed simp
  define cs where "cs = contributions ?s ?xs"
  have cs: "\<forall>x \<in> set cs. coClass x = HeartbeatFrame 5 \<and> coTime x = 1" unfolding cs_def by (rule all [OF start])
  then have recs: "all_records cs = map (Pair 1) (concat (map coRecords cs))" "filter (\<lambda>x. coClass x = HeartbeatFrame 5) cs = cs"
    by (auto intro: all_records_same_time simp: filter_id_conv)
  have sts: "heartbeats ?s 5 ?xs = [0, 5, 5, 4]"
    by (simp add: heartbeats_def hb [OF start]) (simp add: heartbeat_frame_def)
  have run: "length ?xs < 2 ^ 50" "\<forall>x \<in> set ?xs. length (Data (snd x)) < 2 ^ 50" "HeartbeatEmitLog sample_config"
    by (simp_all add: heartbeat_frame_def sample_config_def)
  obtain s mb lb where r: "sniff_run ?s ?xs (Some NewMetricsBuilder) (Some NewLogsBuilder) = Some (s, Some mb, Some lb)"
    "lb_items lb = mset (map (\<lambda>(now, r). log_item now r) (all_records cs))"
    "concat (map coRecords cs) = map (heartbeatRecord ?s 5) (remdups_adj [0, 5, 5, 4])"
    using heartbeat_logs_are_changes [OF sample_config_ok run, of 5, folded cs_def, unfolded recs(2) sts] by blast
  have "lb_items lb = mset (map (log_item 1) (map (heartbeatRecord ?s 5) [0, 5, 4]))"
    unfolding r(2) recs(1) r(3) by (simp add: comp_def)
  then show ?thesis using r(1) by (auto simp: comp_def)
qed

text \<open>
  C23. One log record per group of fields. When at least one decodable field of a PDO, raw
  message or SDO object asks for logs, \<open>emitFields\<close> adds exactly one record: its body is the
  bare value if all logged fields have one name (which the README does not say, but the comment
  of \<open>emitFields\<close> does), the map from field name to the value of the last field of that name
  otherwise; its attributes are the context's, overridden by the logged fields' static ones,
  later fields first.
\<close>

theorem one_record_per_group:
  assumes "\<forall>f \<in> set fs. decodable data f" "lb_good lb" "logged data fs \<noteq> []"
    "emitFields now fs data res ctx body metrics (Some lb) = Some (ms, Some lb')"
  shows "\<exists>le. lb_items lb' = add_mset (resourceKey res, le) (lb_items lb) \<and> leSeverity le = SeverityNumberInfo \<and>
     group_body_ok (bodyEntries (logged data fs)) (leBody le) \<and>
     map_of (leAttributes le) = map_of (rev (ctx @ concat (map (\<lambda>(f, v). entries (fAttributes f)) (logged data fs))))"
  by (rule emitFields_log [OF assms])

lemma sample_fields_decode:
  "Decode [7, 9] Uint8 0 0 = Some (Inr (zeroValue Uint8\<lparr>vUint := 7\<rparr>))"
  "Decode [7, 9] Uint8 8 0 = Some (Inr (zeroValue Uint8\<lparr>vUint := 9\<rparr>))"
  by (simp_all add: Decode_def Valid_def BitWidth_def extractBits_def decodeRaw_def at_index_def Let_def)

lemma emitFields_logs_only:
  assumes "\<forall>f \<in> set fs. decodable data f" "lb_good lb"
  shows "\<exists>lb'. emitFields now fs data res ctx body None (Some lb) = Some (None, Some lb')"
proof -
  obtain lb' where "logs.add_all now lb (fieldRecords res ctx body data fs) = Some lb'"
    using logs_add_all_total [OF assms(2)] by blast
  then show ?thesis by (simp add: emitFields_spec [OF assms(1)] addPoints_def addRecords_def)
qed

theorem one_record_per_group_witness:
  "\<exists>le ms lb'. emitFields 0 [sample_field ''speed'' 0, sample_field ''load'' 8] [7, 9] [] [] [] None (Some NewLogsBuilder) =
       Some (ms, Some lb') \<and> lb_items lb' = {#(resourceKey [], le)#}"
proof -
  let ?fs = "[sample_field ''speed'' 0, sample_field ''load'' 8]"
  have dec: "\<forall>f \<in> set ?fs. decodable [7, 9] f"
    using sample_fields_decode by (simp add: decodable_def sample_field_def)
  have lg: "logged [7, 9] ?fs \<noteq> []"
    using sample_fields_decode by (simp add: logged_def decoded_def sample_field_def List.map_filter_def)
  obtain lb' where run: "emitFields 0 ?fs [7, 9] [] [] [] None (Some NewLogsBuilder) = Some (None, Some lb')"
    using emitFields_logs_only [OF dec logs.good_fresh] by blast
  show ?thesis
    using one_record_per_group [OF dec logs.good_fresh lg run] run by (auto simp: logs.content_fresh)
qed

text \<open>
  C21. Passive SDO decoding end to end. On a node's default channel, whatever the sniffer saw
  before, the frames of a segmented upload of a declared object, on identifiers 0x600 + node
  and 0x580 + node, make the sniffer return without panic and add to the metrics exactly the
  points of the object's fields, decoded from exactly the bytes the server uploaded, however
  many segments they took.
\<close>

theorem observed_upload_is_decoded:
  assumes "sniffer_ok K m s" "default_channel s n" "sdoIndex s (n, index, subIndex) = Some object"
    "length size4 = 4" "xs = upload_conversation index subIndex size4 bs" "m + length xs < 2 ^ 50"
    "mb_good mb" "kinds_ok K mb" "lb_good lb"
  shows "\<exists>s' mb' lb'. sniff_run s (map (\<lambda>x. (now, sdo_frame (0x600 + ucast n) (0x580 + ucast n) x)) xs) (Some mb) (Some lb) =
       Some (s', Some mb', Some lb') \<and>
     mb_items mb' = mset (map (metric_item now) (fieldPoints
        (sdoResource s (transfer_event n ServerToClient ''upload'' index subIndex bs)) bs (odFields object))) + mb_items mb"
proof -
  let ?e = "transfer_event n ServerToClient ''upload'' index subIndex bs"
  let ?frames = "map (\<lambda>x. (now, sdo_frame (0x600 + ucast n) (0x580 + ucast n) x)) xs"
  obtain k where feed: "snd (feed (sdo s) (ucast n) n xs) = replicate k (Inr None) @ [Inr (Some ?e)]"
    using upload_reassembles [OF assms(4), of "sdo s" "ucast n" n index subIndex bs] assms(5) by auto
  have conv: "\<forall>x \<in> set xs. (fst x = ClientToServer \<or> fst x = ServerToClient) \<and> length (snd x) \<le> 8"
    unfolding assms(5) by (rule upload_frames_small [OF assms(4)])
  have pts: "all_points (contributions s ?frames) = map (Pair now) (fieldPoints (sdoResource s ?e) bs (odFields object))"
    using sdo_contributions(1) [of xs s "0x600 + ucast n" "0x580 + ucast n" "ucast n" n now]
      default_channel_class [OF assms(2)] conv feed assms(3)
    by (simp add: result_points_simps sdo_object_def transfer_event_def)
  have len: "\<forall>x \<in> set ?frames. length (Data (snd x)) < 2 ^ 50"
    using conv by (fastforce simp: sdo_frame_def)
  show ?thesis
    using run_ok [OF assms(1) _ len assms(7-9)] assms(6) by (auto simp: pts comp_def)
qed

theorem observed_upload_is_decoded_witness:
  "\<exists>s' mb' lb'. sniff_run (NewSniffer sample_config)
       (map (\<lambda>x. (9, sdo_frame (0x600 + ucast (5 :: u8)) (0x580 + ucast (5 :: u8)) x)) (upload_conversation 0x2000 1 [1, 0, 0, 0] [42]))
       (Some NewMetricsBuilder) (Some NewLogsBuilder) = Some (s', Some mb', Some lb') \<and>
     mb_items mb' = {#metric_item 9 (fieldPoint
       (sdoResource (NewSniffer sample_config) (transfer_event 5 ServerToClient ''upload'' 0x2000 1 [42]))
       (sample_field ''temp'' 0) (zeroValue Uint8\<lparr>vUint := 42\<rparr>))#}"
proof -
  have dec: "Decode [42] Uint8 0 0 = Some (Inr (zeroValue Uint8\<lparr>vUint := 42\<rparr>))"
    by (simp add: Decode_def Valid_def BitWidth_def extractBits_def decodeRaw_def at_index_def Let_def)
  have pts: "fieldPoints res [42] [sample_field ''temp'' 0] = [fieldPoint res (sample_field ''temp'' 0) (zeroValue Uint8\<lparr>vUint := 42\<rparr>)]" for res
    using dec by (simp add: fieldPoints_def decoded_def sample_field_def List.map_filter_def)
  have 1: "default_channel (NewSniffer sample_config) 5"
    by (simp add: default_channel_def NewSniffer_def sample_config_def)
  have 2: "sdoIndex (NewSniffer sample_config) (5, 0x2000, 1) =
      Some \<lparr>odNodeID = 5, odIndex = 0x2000, odSubIndex = 1, odFields = [sample_field ''temp'' 0]\<rparr>"
    by (simp add: NewSniffer_def sample_config_def indexObjects_def)
  have 3: "kinds_ok sample_kinds NewMetricsBuilder" by (simp add: kinds_ok_def NewMetricsBuilder_def)
  have 4: "0 + length (upload_conversation 0x2000 1 [1, 0, 0, 0] [42]) < 2 ^ 50"
    by (simp add: upload_conversation_def dialog.simps)
  show ?thesis
    using observed_upload_is_decoded [OF sniffer_ok_New [OF sample_config_ok] 1 2 _ refl 4 metrics.good_fresh 3 logs.good_fresh, of 9]
    by (simp add: pts metrics.content_fresh)
qed

subsection \<open>Two channels with one key\<close>

text \<open>
  The default channel of a node is kept under the node id, a configured one under its client's
  COB-ID; nothing keeps the two apart. Here a configured channel of node 9 has client COB-ID
  0x005: one of its requests, between a request to node 5 and node 5's answer on the default
  identifiers, replaces the transfer of node 5, whose value is then not reported.
\<close>

definition colliding_config :: SnifferConfig where
  "colliding_config = sample_config\<lparr>SDOChannels :=
     [\<lparr>scNodeID = 9, scClientToServerCobID = 0x005, scServerToClientCobID = 0x006\<rparr>]\<rparr>"

definition node5_request :: Frame where
  "node5_request = \<lparr>ID = 0x605, Extended = False, Data = [0x40, 0x00, 0x20, 1, 0, 0, 0, 0]\<rparr>"

definition node9_request :: Frame where
  "node9_request = \<lparr>ID = 0x005, Extended = False, Data = [0x40, 0x18, 0x10, 1, 0, 0, 0, 0]\<rparr>"

definition node5_answer :: Frame where
  "node5_answer = \<lparr>ID = 0x585, Extended = False, Data = [0x4F, 0x00, 0x20, 1, 42, 0, 0, 0]\<rparr>"

lemmas collision_defs = colliding_config_def sample_config_def node5_request_def node9_request_def node5_answer_def

lemma collision_classes:
  "frame_class (NewSniffer colliding_config) node5_request = SdoFrame 5 5 ClientToServer"
  "frame_class (NewSniffer colliding_config) node9_request = SdoFrame 5 9 ClientToServer"
  "frame_class (NewSniffer colliding_config) node5_answer = SdoFrame 5 5 ServerToClient"
  by (simp_all add: collision_defs frame_class_def NewSniffer_def indexChannels_def in_range_def Let_def)

lemma sdo_next:
  "frame_class s f = SdoFrame key n d \<Longrightarrow> sdo (next_state s f) = fst (ObserveOnChannel (sdo s) key n d (Data f))"
  by (simp add: next_state_def)

lemma sdo_channel_key_collision:
  "length (all_points (contributions (NewSniffer colliding_config) [(0, node5_request), (0, node5_answer)])) = 1"
  "all_points (contributions (NewSniffer colliding_config) [(0, node5_request), (0, node9_request), (0, node5_answer)]) = []"
proof -
  have dec: "Decode [42] Uint8 0 0 = Some (Inr (zeroValue Uint8\<lparr>vUint := 42\<rparr>))"
    by (simp add: Decode_def Valid_def BitWidth_def extractBits_def decodeRaw_def at_index_def Let_def)
  have idx: "sdoIndex (NewSniffer colliding_config) (5, 0x2000, 1) =
      Some \<lparr>odNodeID = 5, odIndex = 0x2000, odSubIndex = 1, odFields = [sample_field ''temp'' 0]\<rparr>"
    by (simp add: NewSniffer_def collision_defs indexObjects_def)
  have sdo0: "transfers (sdo (NewSniffer colliding_config)) = Map.empty"
    by (simp add: NewSniffer_def NewObserver_def)
  have data: "Data node5_request = [0x40, 0x00, 0x20, 1, 0, 0, 0, 0]" "Data node9_request = [0x40, 0x18, 0x10, 1, 0, 0, 0, 0]"
    "Data node5_answer = [0x4F, 0x00, 0x20, 1, 42, 0, 0, 0]"
    by (simp_all add: collision_defs)
  note eval = contribution_of_def Let_def class_points_sdo collision_classes sdo_next all_points_simps data sdo0
    observe_defs sdoFrameLength_def objectAddress_def newTransfer_def complete_def expeditedData_def
    result_points_simps result_next sdo_object_def idx
  show "length (all_points (contributions (NewSniffer colliding_config) [(0, node5_request), (0, node5_answer)])) = 1"
    using dec
    by (simp add: eval fieldPoints_def decoded_def sample_field_def List.map_filter_def del: class_points.simps)
  show "all_points (contributions (NewSniffer colliding_config) [(0, node5_request), (0, node9_request), (0, node5_answer)]) = []"
    by (simp add: eval del: class_points.simps)
qed

end
