(* ===== verification/Wiring.thy ===== *)
theory Wiring
  imports Configuration Sniffer
begin

section \<open>receiver.go: from the configuration to the sniffer's\<close>

text \<open>
  Models \<open>buildSnifferConfig\<close> and \<open>buildSnifferFields\<close> of receiver.go, and shows that what the
  sniffer looks up in the tables it builds is what the validated configuration says, and that a
  validated configuration meets the conditions under which the sniffer does not panic.
\<close>

definition buildSnifferField :: "FieldConfig \<Rightarrow> Field" where
  "buildSnifferField field =
     \<lparr>fName = fcName field, fBitOffset = fcBitOffset field, fType = fcType field, fByteLen = fcByteLen field,
      fScale = fcScale field, fOffset = fcOffset field, fUnit = fcUnit field, fEmitMetric = fcMetrics field,
      fEmitLog = fcLogs field, fMetricSum = (fcMetricType field = MetricSum), fAttributes = fcAttributes field\<rparr>"

definition buildSnifferFields :: "FieldConfig list \<Rightarrow> Field list" where
  "buildSnifferFields fs = foldl (\<lambda>out field. out @ [buildSnifferField field]) [] fs"

definition buildChannel :: "SDOChannelConfig \<Rightarrow> SDOChannel" where
  "buildChannel channel =
     \<lparr>scNodeID = ccNodeID channel, scClientToServerCobID = ccClientToServerCobID channel,
      scServerToClientCobID = ccServerToClientCobID channel\<rparr>"

definition buildObject :: "SDOObjectConfig \<Rightarrow> SDOObjectDef" where
  "buildObject object =
     \<lparr>odNodeID = ocNodeID object, odIndex = ocIndex object, odSubIndex = ocSubIndex object,
      odFields = buildSnifferFields (ocFields object)\<rparr>"

definition buildMatch :: "RawMatchByte \<Rightarrow> RawMatch" where
  "buildMatch m = \<lparr>rmByteOffset = rbByteOffset m, rmValue = rbValue m\<rparr>"

definition buildMessage :: "RawMessageConfig \<Rightarrow> RawMessageDef" where
  "buildMessage msg =
     \<lparr>rdName = mcName msg, rdMatch = foldl (\<lambda>ms m. ms @ [buildMatch m]) [] (mcMatch msg),
      rdFields = buildSnifferFields (mcFields msg)\<rparr>"

definition buildPDO :: "PDOConfig \<Rightarrow> PDODef" where
  "buildPDO pdo = \<lparr>pdName = pcName pdo, pdCobID = pcCobID pdo, pdFields = buildSnifferFields (pcFields pdo)\<rparr>"

text \<open>The loops that fill the maps.\<close>

definition addMessage :: "(u32 \<rightharpoonup> RawMessageDef list) \<Rightarrow> RawMessageConfig \<Rightarrow> u32 \<rightharpoonup> RawMessageDef list" where
  "addMessage m msg =
     m(mcCobID msg \<mapsto> (case m (mcCobID msg) of None \<Rightarrow> [] | Some defs \<Rightarrow> defs) @ [buildMessage msg])"

definition addPDO :: "(u32 \<rightharpoonup> PDODef) \<Rightarrow> PDOConfig \<Rightarrow> u32 \<rightharpoonup> PDODef" where
  "addPDO m pdo = m(pcCobID pdo \<mapsto> buildPDO pdo)"

definition buildSnifferConfig :: "Config \<Rightarrow> SnifferConfig" where
  "buildSnifferConfig c =
     \<lparr>InterfaceName = cfInterface c,
      PDOs = foldl addPDO Map.empty (cfPDO c),
      HeartbeatEmitMetric = seMetrics (cfHeartbeat c), HeartbeatEmitLog = seLogs (cfHeartbeat c),
      EMCYEmitMetric = seMetrics (cfEMCY c), EMCYEmitLog = seLogs (cfEMCY c),
      SDOObjects = map buildObject (snObjects (sdSniff (cfSDO c))) @ map buildObject (poObjects (sdPoll (cfSDO c))),
      SDOChannels = map buildChannel (snChannels (sdSniff (cfSDO c))),
      RawEmitMetric = rfMetrics (rwSniff (cfRaw c)), RawEmitLog = rfLogs (rwSniff (cfRaw c)),
      RawCobIDs = foldl (\<lambda>ids msg. insert (mcCobID msg) ids) (set (rfCobIDs (rwSniff (cfRaw c))))
        (rfMessages (rwSniff (cfRaw c))),
      RawMessages = foldl addMessage Map.empty (rfMessages (rwSniff (cfRaw c)))\<rparr>"

section \<open>What the tables hold\<close>

lemma foldl_snoc_map: "foldl (\<lambda>out x. out @ [f x]) acc xs = acc @ map f xs"
  by (induction xs arbitrary: acc) simp_all

lemma buildSnifferFields_map: "buildSnifferFields fs = map buildSnifferField fs"
  by (simp add: buildSnifferFields_def foldl_snoc_map)

lemma buildMessage_match: "rdMatch (buildMessage msg) = map buildMatch (mcMatch msg)"
  by (simp add: buildMessage_def foldl_snoc_map)

lemma addMessages:
  "foldl addMessage m msgs i =
     (let defs = (case m i of None \<Rightarrow> [] | Some defs \<Rightarrow> defs) @ map buildMessage (filter (\<lambda>msg. mcCobID msg = i) msgs)
      in if m i = None \<and> defs = [] then None else Some defs)"
proof (induction msgs arbitrary: m)
  case (Cons msg msgs)
  have "addMessage m msg i =
      (if mcCobID msg = i then Some ((case m i of None \<Rightarrow> [] | Some defs \<Rightarrow> defs) @ [buildMessage msg]) else m i)"
    by (auto simp: addMessage_def)
  then show ?case
    using Cons.IH [of "addMessage m msg"] by (auto simp: Let_def split: option.splits)
qed (simp add: Let_def split: option.split)

lemma RawMessages_build:
  "RawMessages (buildSnifferConfig c) i =
     (let msgs = filter (\<lambda>msg. mcCobID msg = i) (rfMessages (rwSniff (cfRaw c)))
      in if msgs = [] then None else Some (map buildMessage msgs))"
  by (simp add: buildSnifferConfig_def addMessages Let_def)

lemma addPDOs_other: "i \<notin> pcCobID ` set ps \<Longrightarrow> foldl addPDO m ps i = m i"
  by (induction ps arbitrary: m) (auto simp: addPDO_def)

lemma addPDOs_member:
  assumes "distinct (map pcCobID ps)" "p \<in> set ps"
  shows "foldl addPDO m ps (pcCobID p) = Some (buildPDO p)"
  using assms
proof (induction ps arbitrary: m)
  case (Cons q ps)
  show ?case
  proof (cases "p \<in> set ps")
    case False
    then have "p = q" "pcCobID p \<notin> pcCobID ` set ps" using Cons.prems by auto
    then show ?thesis by (simp add: addPDOs_other) (simp add: addPDO_def)
  qed (use Cons in auto)
qed simp

lemma addPDOs_ran: "ran (foldl addPDO m ps) \<subseteq> ran m \<union> buildPDO ` set ps"
proof (induction ps arbitrary: m)
  case (Cons p ps)
  have "ran (addPDO m p) \<subseteq> ran m \<union> {buildPDO p}" by (auto simp: addPDO_def ran_def)
  then show ?case using Cons.IH [of "addPDO m p"] by auto
qed simp

lemma RawCobIDs_build:
  "RawCobIDs (buildSnifferConfig c) =
     set (rfCobIDs (rwSniff (cfRaw c))) \<union> mcCobID ` set (rfMessages (rwSniff (cfRaw c)))"
proof -
  have "foldl (\<lambda>ids msg. insert (mcCobID msg) ids) ids msgs = ids \<union> mcCobID ` set msgs" for ids msgs
    by (induction msgs arbitrary: ids) auto
  then show ?thesis by (simp add: buildSnifferConfig_def)
qed

text \<open>The sniffer's index keeps the first definition of a key.\<close>

definition def_key :: "SDOObjectDef \<Rightarrow> sdoKey" where
  "def_key object = (odNodeID object, odIndex object, odSubIndex object)"

lemma indexObjects_first: "indexObjects objects key = List.find (\<lambda>object. def_key object = key) objects"
proof -
  have "foldl (\<lambda>m object. let key = (odNodeID object, odIndex object, odSubIndex object)
      in if m key = None then m(key \<mapsto> object) else m) m objects key =
      (case m key of None \<Rightarrow> List.find (\<lambda>object. def_key object = key) objects | Some d \<Rightarrow> Some d)" for m
    by (induction objects arbitrary: m) (auto simp: Let_def def_key_def split: option.split)
  then show ?thesis by (simp add: indexObjects_def)
qed

lemma find_map_object:
  assumes "distinct (map object_id obs)" "ob \<in> set obs"
  shows "List.find (\<lambda>d. def_key d = object_id ob) (map buildObject obs @ ds) = Some (buildObject ob)"
  using assms
  by (induction obs) (auto simp: def_key_def buildObject_def object_id_def)

lemma find_skip: "object_id ob \<notin> object_id ` set obs \<Longrightarrow>
    List.find (\<lambda>d. def_key d = object_id ob) (map buildObject obs @ ds) = List.find (\<lambda>d. def_key d = object_id ob) ds"
  by (induction obs) (auto simp: def_key_def buildObject_def object_id_def)

lemma sdoIndex_build:
  "sdoIndex (NewSniffer (buildSnifferConfig c)) key =
     List.find (\<lambda>d. def_key d = key)
       (map buildObject (snObjects (sdSniff (cfSDO c))) @ map buildObject (poObjects (sdPoll (cfSDO c))))"
  by (simp add: NewSniffer_def indexObjects_first buildSnifferConfig_def)

text \<open>The identifiers the tables know.\<close>

lemma addPDOs_dom: "dom (foldl addPDO m ps) = dom m \<union> pcCobID ` set ps"
  by (induction ps arbitrary: m) (auto simp: addPDO_def)

lemma PDOs_dom: "dom (PDOs (buildSnifferConfig c)) = pcCobID ` set (cfPDO c)"
  by (simp add: buildSnifferConfig_def addPDOs_dom)

definition channel_entry :: "SDOChannelConfig \<Rightarrow> sdoChannel" where
  "channel_entry ch =
     \<lparr>chNodeID = ccNodeID ch, chKey = ccClientToServerCobID ch, chClientCobID = ccClientToServerCobID ch\<rparr>"

definition index_channel :: "(u32 \<rightharpoonup> sdoChannel) \<Rightarrow> SDOChannelConfig \<Rightarrow> u32 \<rightharpoonup> sdoChannel" where
  "index_channel m ch = m(ccClientToServerCobID ch \<mapsto> channel_entry ch, ccServerToClientCobID ch \<mapsto> channel_entry ch)"

lemma sdoByCobID_build:
  "sdoByCobID (NewSniffer (buildSnifferConfig c)) = foldl index_channel Map.empty (snChannels (sdSniff (cfSDO c)))"
proof -
  have "foldl (\<lambda>m channel.
       let entry = \<lparr>chNodeID = scNodeID channel, chKey = scClientToServerCobID channel,
                    chClientCobID = scClientToServerCobID channel\<rparr>
       in m(scClientToServerCobID channel \<mapsto> entry, scServerToClientCobID channel \<mapsto> entry)) m (map buildChannel cs) =
     foldl index_channel m cs" for m cs
    by (induction cs arbitrary: m) (simp_all add: index_channel_def channel_entry_def buildChannel_def Let_def)
  then show ?thesis by (simp add: NewSniffer_def indexChannels_def buildSnifferConfig_def)
qed

lemma sdoByCobID_dom:
  "dom (sdoByCobID (NewSniffer (buildSnifferConfig c))) =
     (\<Union>ch \<in> set (snChannels (sdSniff (cfSDO c))). {ccClientToServerCobID ch, ccServerToClientCobID ch})"
proof -
  have "dom (foldl index_channel m cs) = dom m \<union> (\<Union>ch \<in> set cs. {ccClientToServerCobID ch, ccServerToClientCobID ch})" for m cs
    by (induction cs arbitrary: m) (auto simp: index_channel_def)
  then show ?thesis by (simp add: sdoByCobID_build)
qed

lemma index_channels_found:
  assumes "distinct (concat (map channel_ids cs))" "ch \<in> set cs" "i \<in> set (channel_ids ch)"
  shows "foldl index_channel m cs i = Some (channel_entry ch)"
proof -
  have other: "foldl index_channel m cs i = m i" if "i \<notin> set (concat (map channel_ids cs))" for m cs
    using that by (induction cs arbitrary: m) (auto simp: index_channel_def channel_ids_def)
  show ?thesis
    using assms
  proof (induction cs arbitrary: m)
    case (Cons c cs)
    show ?case
    proof (cases "ch \<in> set cs")
      case True
      then show ?thesis using Cons by simp
    next
      case False
      then have "ch = c" "i \<notin> set (concat (map channel_ids cs))" using Cons.prems by auto
      then show ?thesis
        using other [of cs "index_channel m c"] Cons.prems(3) by (auto simp: channel_ids_def index_channel_def [of m c])
    qed
  qed simp
qed

lemma channel_found:
  assumes "channels_wf (snChannels (sdSniff (cfSDO c)))"
  shows "\<forall>ch \<in> set (snChannels (sdSniff (cfSDO c))). \<forall>i \<in> {ccClientToServerCobID ch, ccServerToClientCobID ch}.
    sdoByCobID (NewSniffer (buildSnifferConfig c)) i =
      Some \<lparr>chNodeID = ccNodeID ch, chKey = ccClientToServerCobID ch, chClientCobID = ccClientToServerCobID ch\<rparr>"
  using assms index_channels_found unfolding sdoByCobID_build
  by (auto simp: channels_wf_def channel_ids_def channel_entry_def)

section \<open>A validated configuration is safe\<close>

text \<open>Offsets and lengths that do not overflow, and one kind per metric name.\<close>

definition config_bounded :: "Config \<Rightarrow> bool" where
  "config_bounded c \<longleftrightarrow> (\<forall>f \<in> all_fields c. fcBitOffset f < 2 ^ 62 \<and> fcByteLen f < 2 ^ 62)"

definition kinds_agree :: "(string \<Rightarrow> MetricKind) \<Rightarrow> Config \<Rightarrow> bool" where
  "kinds_agree K c \<longleftrightarrow>
     (\<forall>f \<in> all_fields c. fcMetrics f \<longrightarrow> (if fcMetricType f = MetricSum then KindSum else KindGauge) = K (fcName f)) \<and>
     K ''canopen.raw.frames'' = KindSum \<and> K ''canopen.node.nmt_state'' = KindGauge \<and>
     K ''canopen.node.emcy_error_register'' = KindGauge"

lemma buildSnifferField_simps [simp]:
  "fName (buildSnifferField f) = fcName f" "fBitOffset (buildSnifferField f) = fcBitOffset f"
  "fType (buildSnifferField f) = fcType f" "fByteLen (buildSnifferField f) = fcByteLen f"
  "fEmitMetric (buildSnifferField f) = fcMetrics f" "fEmitLog (buildSnifferField f) = fcLogs f"
  by (simp_all add: buildSnifferField_def)

lemma config_fields_build: "config_fields (buildSnifferConfig c) \<subseteq> buildSnifferField ` all_fields c"
proof
  fix f assume "f \<in> config_fields (buildSnifferConfig c)"
  then consider pdo where "pdo \<in> ran (PDOs (buildSnifferConfig c))" "f \<in> set (pdFields pdo)"
    | msgs msg where "msgs \<in> ran (RawMessages (buildSnifferConfig c))" "msg \<in> set msgs" "f \<in> set (rdFields msg)"
    | ob where "ob \<in> set (SDOObjects (buildSnifferConfig c))" "f \<in> set (odFields ob)"
    by (auto simp: config_fields_def)
  then show "f \<in> buildSnifferField ` all_fields c"
  proof cases
    case 1
    then obtain p where "p \<in> set (cfPDO c)" "pdo = buildPDO p"
      using addPDOs_ran [of Map.empty "cfPDO c"] by (auto simp: buildSnifferConfig_def)
    then show ?thesis using 1 by (auto simp: buildPDO_def buildSnifferFields_map all_fields_def)
  next
    case 2
    then obtain i where "RawMessages (buildSnifferConfig c) i = Some msgs" by (auto simp: ran_def)
    then obtain m where "m \<in> set (rfMessages (rwSniff (cfRaw c)))" "msg = buildMessage m"
      using 2(2) by (auto simp: RawMessages_build Let_def split: if_splits)
    then show ?thesis using 2 by (auto simp: buildMessage_def buildSnifferFields_map all_fields_def)
  next
    case 3
    then obtain o' where "o' \<in> set (snObjects (sdSniff (cfSDO c))) \<union> set (poObjects (sdPoll (cfSDO c)))" "ob = buildObject o'"
      by (auto simp: buildSnifferConfig_def)
    then show ?thesis using 3 by (auto simp: buildObject_def buildSnifferFields_map all_fields_def)
  qed
qed

lemma build_config_ok:
  assumes "config_wf c" "config_bounded c" "kinds_agree K c"
  shows "config_ok K (buildSnifferConfig c)"
proof -
  have "fBitOffset f < 2 ^ 62 \<and> fByteLen f < 2 ^ 62 \<and> (fEmitMetric f \<longrightarrow> field_kind f = K (fName f))"
    if f: "f \<in> config_fields (buildSnifferConfig c)" for f
  proof -
    obtain fc where "fc \<in> all_fields c" "f = buildSnifferField fc" using f config_fields_build [of c] by blast
    then show ?thesis
      using assms(2,3) by (auto simp: config_bounded_def kinds_agree_def field_kind_def buildSnifferField_def)
  qed
  moreover have "offsets_ok msg" if msg: "msgs \<in> ran (RawMessages (buildSnifferConfig c))" "msg \<in> set msgs" for msgs msg
  proof -
    obtain i where "RawMessages (buildSnifferConfig c) i = Some msgs" using msg(1) by (auto simp: ran_def)
    then obtain m where m: "m \<in> set (rfMessages (rwSniff (cfRaw c)))" "msg = buildMessage m"
      using msg(2) by (auto simp: RawMessages_build Let_def split: if_splits)
    then have "matches_wf (mcMatch m)" using assms(1) by (simp add: config_wf_def raw_wf_def)
    then show ?thesis by (auto simp: m(2) offsets_ok_def buildMessage_match matches_wf_def buildMatch_def)
  qed
  ultimately show ?thesis using assms(3) by (simp add: config_ok_def kinds_agree_def)
qed

section \<open>Properties\<close>

text \<open>
  C32. The sniffer's tables hold the validated configuration and nothing else: every PDO is found
  under its COB-ID and no other identifier has one; the raw COB-IDs are those listed and those of
  the messages, and the messages of a COB-ID are tried in configuration order; every SDO channel
  is found under both of its COB-IDs, with its node and keyed by its client's COB-ID, and no other
  identifier has one; a sniffed SDO object is found under its node, index and sub-index with its
  own fields, and a polled one with its own fields or those of the sniffed definition of the same
  object, which are equal to them.
\<close>
theorem configured_tables:
  assumes "snd (Validate c) = None"
  shows "let c' = fst (Validate c); s = NewSniffer (buildSnifferConfig c') in
    (\<forall>p \<in> set (cfPDO c'). PDOs (cfg s) (pcCobID p) = Some (buildPDO p)) \<and>
    dom (PDOs (cfg s)) = pcCobID ` set (cfPDO c') \<and>
    RawCobIDs (cfg s) = set (rfCobIDs (rwSniff (cfRaw c'))) \<union> mcCobID ` set (rfMessages (rwSniff (cfRaw c'))) \<and>
    (\<forall>ch \<in> set (snChannels (sdSniff (cfSDO c'))). \<forall>i \<in> {ccClientToServerCobID ch, ccServerToClientCobID ch}.
       sdoByCobID s i = Some \<lparr>chNodeID = ccNodeID ch, chKey = ccClientToServerCobID ch, chClientCobID = ccClientToServerCobID ch\<rparr>) \<and>
    dom (sdoByCobID s) = (\<Union>ch \<in> set (snChannels (sdSniff (cfSDO c'))). {ccClientToServerCobID ch, ccServerToClientCobID ch}) \<and>
    (\<forall>i. RawMessages (cfg s) i =
       (let msgs = filter (\<lambda>msg. mcCobID msg = i) (rfMessages (rwSniff (cfRaw c')))
        in if msgs = [] then None else Some (map buildMessage msgs))) \<and>
    (\<forall>ob \<in> set (snObjects (sdSniff (cfSDO c'))). sdoIndex s (object_id ob) = Some (buildObject ob)) \<and>
    (\<forall>ob \<in> set (poObjects (sdPoll (cfSDO c'))).
       \<exists>d. sdoIndex s (object_id ob) = Some (buildObject d) \<and> object_id d = object_id ob \<and>
           (d = ob \<or> fields_equal (ocFields d) (ocFields ob)))"
proof -
  define c' where "c' = fst (Validate c)"
  have wf: "config_wf c'" using assms Validate_None [of c] by (simp add: c'_def)
  let ?s = "NewSniffer (buildSnifferConfig c')"
  have cfg: "cfg ?s = buildSnifferConfig c'" by (simp add: NewSniffer_def)
  have pdo: "PDOs (cfg ?s) (pcCobID p) = Some (buildPDO p)" if "p \<in> set (cfPDO c')" for p
    using addPDOs_member [OF _ that, of Map.empty] wf
    by (simp add: cfg config_wf_def pdos_wf_def) (simp add: buildSnifferConfig_def)
  have d: "distinct (map object_id (snObjects (sdSniff (cfSDO c'))))" "distinct (map object_id (poObjects (sdPoll (cfSDO c'))))"
    using wf by (auto simp: config_wf_def sdo_wf_def poll_wf_def objects_wf_def)
  have sniffed: "sdoIndex ?s (object_id ob) = Some (buildObject ob)" if "ob \<in> set (snObjects (sdSniff (cfSDO c')))" for ob
    unfolding sdoIndex_build using d(1) that by (rule find_map_object)
  have polled: "\<exists>d. sdoIndex ?s (object_id ob) = Some (buildObject d) \<and> object_id d = object_id ob \<and>
      (d = ob \<or> fields_equal (ocFields d) (ocFields ob))" if ob: "ob \<in> set (poObjects (sdPoll (cfSDO c')))" for ob
  proof (cases "object_id ob \<in> object_id ` set (snObjects (sdSniff (cfSDO c')))")
    case True
    then obtain d where d: "d \<in> set (snObjects (sdSniff (cfSDO c')))" "object_id d = object_id ob" by auto
    moreover have "fields_equal (ocFields d) (ocFields ob)"
      using wf ob d by (auto simp: config_wf_def sdo_wf_def)
    ultimately show ?thesis using sniffed [OF d(1)] by auto
  next
    case False
    have "sdoIndex ?s (object_id ob) = Some (buildObject ob)"
      using find_map_object [OF d(2) ob, of "[]"] by (simp add: sdoIndex_build find_skip [OF False])
    then show ?thesis by blast
  qed
  have channels: "channels_wf (snChannels (sdSniff (cfSDO c')))" using wf by (simp add: config_wf_def sdo_wf_def)
  show ?thesis
    unfolding Let_def c'_def [symmetric] cfg
    using pdo RawMessages_build [of c'] sniffed polled channel_found [OF channels] sdoByCobID_dom [of c'] PDOs_dom [of c']
      RawCobIDs_build [of c']
    by (simp add: cfg Let_def)
qed

definition sample_wired_object :: SDOObjectConfig where
  "sample_wired_object = \<lparr>ocNodeID = 5, ocIndex = 0x1008, ocSubIndex = 0, ocFields = [sample_response_field ''state'']\<rparr>"

definition sample_wired_config :: Config where
  "sample_wired_config = sample_receiver_config
     \<lparr>cfPDO := [\<lparr>pcName = ''p'', pcCobID = 0x185, pcFields = [sample_response_field ''speed'']\<rparr>],
      cfSDO := \<lparr>sdSniff = \<lparr>snChannels = [], snObjects = []\<rparr>,
                sdPoll = zeroPoll\<lparr>poMode := ''once'', poObjects := [sample_wired_object]\<rparr>\<rparr>\<rparr>"

lemmas sample_config_defs =
  sample_wired_config_def sample_wired_object_def sample_receiver_config_def createDefaultConfig_def second_def
  zeroPoll_def zeroRawFrame_def sample_transaction_def sample_response_field_def

lemma sample_wired_config_ok:
  "fst (Validate sample_wired_config) = sample_wired_config" "snd (Validate sample_wired_config) = None"
proof -
  have complete: "complete_config sample_wired_config = sample_wired_config"
    by (simp add: complete_config_def sample_config_defs SDOConfig_complete_def SDOPollConfig_complete_def)
  have "config_wf sample_wired_config"
    by (simp add: config_wf_def sample_config_defs sdo_wf_def channels_wf_def objects_wf_def
        poll_wf_def retries_wf_def raw_wf_def pdos_wf_def transaction_wf_def effectiveMode_def
        matches_wf_def fields_wf_def field_wf_def byte_type_def Valid_def metric_type_wf_def
        responses_overlap_def rawMatchesCanOverlap_def outputs_wf_def)
  then show "snd (Validate sample_wired_config) = None" by (simp add: Validate_None(1) complete)
  then show "fst (Validate sample_wired_config) = sample_wired_config" by (simp add: Validate_None(2) complete)
qed

text \<open>The same with an SDO channel and a raw message.\<close>

definition sample_channel_config :: Config where
  "sample_channel_config = sample_wired_config
     \<lparr>cfSDO := (cfSDO sample_wired_config)
        \<lparr>sdSniff := \<lparr>snChannels = [\<lparr>ccNodeID = 6, ccClientToServerCobID = 0x610, ccServerToClientCobID = 0x590\<rparr>], snObjects = []\<rparr>\<rparr>,
      cfRaw := (cfRaw sample_wired_config)
        \<lparr>rwSniff := (rwSniff (cfRaw sample_wired_config))
          \<lparr>rfMessages := [\<lparr>mcName = ''m'', mcCobID = 0x50E, mcMatch = [], mcFields = [sample_response_field ''load'']\<rparr>]\<rparr>\<rparr>\<rparr>"

lemma sample_channel_config_ok:
  "fst (Validate sample_channel_config) = sample_channel_config" "snd (Validate sample_channel_config) = None"
proof -
  have complete: "complete_config sample_channel_config = sample_channel_config"
    by (simp add: complete_config_def sample_channel_config_def sample_config_defs SDOConfig_complete_def SDOPollConfig_complete_def)
  have "config_wf sample_channel_config"
    by (simp add: config_wf_def sample_channel_config_def sample_config_defs sdo_wf_def channels_wf_def channel_ids_def objects_wf_def
        poll_wf_def retries_wf_def raw_wf_def pdos_wf_def transaction_wf_def effectiveMode_def
        matches_wf_def fields_wf_def field_wf_def byte_type_def Valid_def metric_type_wf_def
        responses_overlap_def rawMatchesCanOverlap_def outputs_wf_def)
  then show "snd (Validate sample_channel_config) = None" by (simp add: Validate_None(1) complete)
  then show "fst (Validate sample_channel_config) = sample_channel_config" by (simp add: Validate_None(2) complete)
qed

theorem configured_tables_witness:
  "PDOs (buildSnifferConfig sample_channel_config) 0x185 =
     Some (buildPDO \<lparr>pcName = ''p'', pcCobID = 0x185, pcFields = [sample_response_field ''speed'']\<rparr>) \<and>
   sdoByCobID (NewSniffer (buildSnifferConfig sample_channel_config)) 0x590 =
     Some \<lparr>chNodeID = 6, chKey = 0x610, chClientCobID = 0x610\<rparr> \<and>
   RawCobIDs (buildSnifferConfig sample_channel_config) = {0x50E} \<and>
   (\<exists>d. sdoIndex (NewSniffer (buildSnifferConfig sample_channel_config)) (5, 0x1008, 0) = Some (buildObject d))"
proof -
  have cfg: "cfg (NewSniffer c) = c" for c by (simp add: NewSniffer_def)
  from configured_tables [OF sample_channel_config_ok(2), unfolded Let_def sample_channel_config_ok(1) cfg]
  show ?thesis
    by (auto simp: sample_channel_config_def sample_config_defs object_id_def)
qed

end
