(* ===== verification/Retry.thy ===== *)
theory Retry
  imports Prelude
begin

section \<open>The retry loop of the pollers\<close>

text \<open>
  \<open>sdoPoller.pollUntilSuccess\<close> and \<open>rawTransactionPoller.poll\<close> contain the same loop; it is
  modelled once. The world is \<open>env\<close>: for the n-th attempt, whether it succeeded, whether the
  context was done after it, and whether the wait that follows ran to its end. The loop may run
  for ever (no retry limit, no success), so it is a partial function whose None is not
  returning. The result says how it ended and which delays it waited. Durations are Go int64
  nanoseconds, so doubling wraps.
\<close>

record attempt =
  atOk :: bool
  atCancelled :: bool
  atWaited :: bool

datatype retry_end = Succeeded nat | Stopped nat | GaveUp nat

definition retriesRemain :: "int option \<Rightarrow> nat \<Rightarrow> bool" where
  "retriesRemain maxRetries n = (case maxRetries of None \<Rightarrow> True | Some m \<Rightarrow> int n - 1 < m)"

definition nextBackoff :: "int \<Rightarrow> int \<Rightarrow> int" where
  "nextBackoff maxBackoff backoff =
     (let doubled = wrap64 (backoff * 2) in if doubled > maxBackoff then maxBackoff else doubled)"

partial_function (option) retryFrom ::
  "(nat \<Rightarrow> attempt) \<Rightarrow> bool \<Rightarrow> int option \<Rightarrow> int \<Rightarrow> nat \<Rightarrow> int \<Rightarrow> int list \<Rightarrow> (retry_end \<times> int list) option" where
  "retryFrom env retry maxRetries maxBackoff n backoff waited =
     (let k = Suc n; a = env k
      in if atOk a then Some (Succeeded k, waited)
         else if atCancelled a then Some (Stopped k, waited)
         else if \<not> retry \<or> \<not> retriesRemain maxRetries k then Some (GaveUp k, waited)
         else if \<not> atWaited a then Some (Stopped k, waited @ [backoff])
         else retryFrom env retry maxRetries maxBackoff k (nextBackoff maxBackoff backoff) (waited @ [backoff]))"

declare retryFrom.simps [code]

subsection \<open>How far it goes\<close>

text \<open>The attempt at which the loop ends, if it does.\<close>

definition ends_at :: "(nat \<Rightarrow> attempt) \<Rightarrow> bool \<Rightarrow> int option \<Rightarrow> nat \<Rightarrow> bool" where
  "ends_at env retry maxRetries k \<longleftrightarrow>
     atOk (env k) \<or> atCancelled (env k) \<or> \<not> retry \<or> \<not> retriesRemain maxRetries k \<or> \<not> atWaited (env k)"

definition end_of :: "(nat \<Rightarrow> attempt) \<Rightarrow> bool \<Rightarrow> int option \<Rightarrow> nat \<Rightarrow> retry_end" where
  "end_of env retry maxRetries k =
     (if atOk (env k) then Succeeded k
      else if atCancelled (env k) then Stopped k
      else if \<not> retry \<or> \<not> retriesRemain maxRetries k then GaveUp k
      else Stopped k)"

text \<open>The delays before attempts \<open>n + 2, n + 3, ...\<close>, from the current back-off.\<close>

primrec delays :: "int \<Rightarrow> int \<Rightarrow> nat \<Rightarrow> int list" where
  "delays maxBackoff backoff 0 = []"
| "delays maxBackoff backoff (Suc m) = backoff # delays maxBackoff (nextBackoff maxBackoff backoff) m"

lemma length_delays [simp]: "length (delays maxBackoff backoff m) = m"
  by (induction m arbitrary: backoff) simp_all

definition waited_at_end :: "(nat \<Rightarrow> attempt) \<Rightarrow> bool \<Rightarrow> int option \<Rightarrow> nat \<Rightarrow> nat" where
  "waited_at_end env retry maxRetries k =
     (if \<not> atOk (env k) \<and> \<not> atCancelled (env k) \<and> retry \<and> retriesRemain maxRetries k then 1 else 0)"

lemma retryFrom_ends:
  assumes "\<forall>j < m. \<not> ends_at env retry maxRetries (n + 1 + j)" "ends_at env retry maxRetries (n + 1 + m)"
  shows "retryFrom env retry maxRetries maxBackoff n backoff waited =
    Some (end_of env retry maxRetries (n + 1 + m),
          waited @ delays maxBackoff backoff (m + waited_at_end env retry maxRetries (n + 1 + m)))"
  using assms
proof (induction m arbitrary: n backoff waited)
  case 0
  then show ?case
    by (subst retryFrom.simps) (auto simp: ends_at_def end_of_def waited_at_end_def Let_def)
next
  case (Suc m)
  have go: "\<not> ends_at env retry maxRetries (Suc n)" using Suc.prems(1) by auto
  have shift: "\<forall>j < m. \<not> ends_at env retry maxRetries (Suc n + 1 + j)" "ends_at env retry maxRetries (Suc n + 1 + m)"
    using Suc.prems by (auto dest: spec [of _ "Suc _"])
  have "retryFrom env retry maxRetries maxBackoff n backoff waited =
      retryFrom env retry maxRetries maxBackoff (Suc n) (nextBackoff maxBackoff backoff) (waited @ [backoff])"
    using go by (subst retryFrom.simps) (auto simp: ends_at_def Let_def)
  also have "\<dots> = Some (end_of env retry maxRetries (Suc n + 1 + m),
      (waited @ [backoff]) @ delays maxBackoff (nextBackoff maxBackoff backoff)
        (m + waited_at_end env retry maxRetries (Suc n + 1 + m)))"
    by (rule Suc.IH [OF shift])
  finally show ?case by simp
qed

lemma retryFrom_first_end:
  assumes "\<exists>k \<ge> 1. ends_at env retry maxRetries k"
  defines "e \<equiv> LEAST k. 1 \<le> k \<and> ends_at env retry maxRetries k"
  shows "retryFrom env retry maxRetries maxBackoff 0 backoff [] =
    Some (end_of env retry maxRetries e, delays maxBackoff backoff (e - 1 + waited_at_end env retry maxRetries e))"
    "1 \<le> e" "ends_at env retry maxRetries e" "\<forall>k. 1 \<le> k \<longrightarrow> k < e \<longrightarrow> \<not> ends_at env retry maxRetries k"
proof -
  have e: "1 \<le> e \<and> ends_at env retry maxRetries e"
    unfolding e_def by (rule LeastI_ex) (use assms(1) in blast)
  have least: "\<not> ends_at env retry maxRetries k" if "1 \<le> k" "k < e" for k
    using that not_less_Least [of k "\<lambda>k. 1 \<le> k \<and> ends_at env retry maxRetries k"] by (auto simp: e_def)
  then have "\<forall>j < e - 1. \<not> ends_at env retry maxRetries (0 + 1 + j)" by auto
  moreover have "ends_at env retry maxRetries (0 + 1 + (e - 1))" using e by simp
  ultimately show "retryFrom env retry maxRetries maxBackoff 0 backoff [] =
    Some (end_of env retry maxRetries e, delays maxBackoff backoff (e - 1 + waited_at_end env retry maxRetries e))"
    using retryFrom_ends [of "e - 1" env retry maxRetries 0 maxBackoff backoff "[]"] e by simp
  show "1 \<le> e" "ends_at env retry maxRetries e" using e by auto
  show "\<forall>k. 1 \<le> k \<longrightarrow> k < e \<longrightarrow> \<not> ends_at env retry maxRetries k" using least by blast
qed

text \<open>Nothing ends it: it never returns.\<close>

lemma retryFrom_never:
  assumes "\<forall>j. \<not> ends_at env retry maxRetries (n + 1 + j)"
  shows "retryFrom env retry maxRetries maxBackoff n backoff waited = None"
proof (rule ccontr)
  assume "retryFrom env retry maxRetries maxBackoff n backoff waited \<noteq> None"
  then obtain y where "retryFrom env retry maxRetries maxBackoff n backoff waited = Some y" by blast
  then have "\<exists>j. ends_at env retry maxRetries (n + 1 + j)"
  proof (induction rule: retryFrom.raw_induct [rotated, consumes 1])
    case (1 run env retry maxRetries maxBackoff n backoff waited y)
    show ?case
    proof (cases "ends_at env retry maxRetries (Suc n)")
      case True
      then show ?thesis by (intro exI [of _ 0]) simp
    next
      case False
      then have "run env retry maxRetries maxBackoff (Suc n) (nextBackoff maxBackoff backoff) (waited @ [backoff]) = Some y"
        using 1(2) by (auto simp: ends_at_def Let_def)
      then obtain j where "ends_at env retry maxRetries (Suc n + 1 + j)" using 1(1) by blast
      then show ?thesis by (intro exI [of _ "Suc j"]) simp
    qed
  qed
  then show False using assms by blast
qed

text \<open>With retries off or limited, some attempt ends the loop whatever the world does.\<close>

lemma limited_ends:
  assumes "retry \<longrightarrow> maxRetries = Some m"
  shows "ends_at env retry maxRetries (if retry then Suc (nat m) else 1)"
  using assms by (auto simp: ends_at_def retriesRemain_def)

subsection \<open>Delays\<close>

lemma nextBackoff_exact:
  assumes "0 \<le> backoff" "backoff < 2 ^ 62"
  shows "nextBackoff maxBackoff backoff = min maxBackoff (2 * backoff)"
proof -
  have "wrap64 (backoff * 2) = backoff * 2" using assms by (intro wrap64_id) auto
  then show ?thesis by (simp add: nextBackoff_def Let_def min_def)
qed

lemma delays_exact:
  assumes "0 \<le> backoff" "backoff < 2 ^ 62" "0 \<le> maxBackoff" "maxBackoff < 2 ^ 62" "i < m"
  shows "delays maxBackoff backoff m ! i = (if i = 0 then backoff else min maxBackoff (2 ^ i * backoff))"
  using assms
proof (induction m arbitrary: backoff i)
  case (Suc m)
  note next_ = nextBackoff_exact [OF Suc.prems(1,2), of maxBackoff]
  show ?case
  proof (cases i)
    case (Suc j)
    have b: "0 \<le> min maxBackoff (2 * backoff)" "min maxBackoff (2 * backoff) < 2 ^ 62" using Suc.prems by auto
    have "delays maxBackoff (min maxBackoff (2 * backoff)) m ! j =
        (if j = 0 then min maxBackoff (2 * backoff) else min maxBackoff (2 ^ j * min maxBackoff (2 * backoff)))"
      using Suc.prems Suc by (intro Suc.IH b) auto
    moreover have "min maxBackoff (2 ^ j * min maxBackoff (2 * backoff)) = min maxBackoff (2 ^ Suc j * backoff)" if "0 < j"
    proof -
      have "maxBackoff \<le> 2 ^ j * maxBackoff" using Suc.prems(3) mult_right_mono [of 1 "2 ^ j" maxBackoff] by simp
      moreover have "2 * backoff \<le> 2 ^ j * (2 * backoff)" using Suc.prems(1) mult_right_mono [of 1 "2 ^ j" "2 * backoff"] by simp
      ultimately show ?thesis by (auto simp: min_def)
    qed
    ultimately show ?thesis using Suc next_ by auto
  qed simp
qed simp

subsection \<open>The interface of a retrying poller\<close>

text \<open>
  A poller's settings determine the first back-off and the cap. \<open>capped_retry\<close> is a poller that
  caps the first back-off as well.
\<close>

locale retrying =
  fixes first :: "'s \<Rightarrow> int" and cap :: "'s \<Rightarrow> int" and retry :: "'s \<Rightarrow> bool" and limit :: "'s \<Rightarrow> int option"
    and ok :: "'s \<Rightarrow> bool"
  assumes first_range: "ok s \<Longrightarrow> 0 < first s \<and> first s < 2 ^ 62"
    and cap_range: "ok s \<Longrightarrow> 0 < cap s \<and> cap s < 2 ^ 62"
    and limit_range: "ok s \<Longrightarrow> limit s = Some m \<Longrightarrow> 0 \<le> m"
begin

definition loop :: "(nat \<Rightarrow> attempt) \<Rightarrow> 's \<Rightarrow> (retry_end \<times> int list) option" where
  "loop env s = retryFrom env (retry s) (limit s) (cap s) 0 (first s) []"

text \<open>The loop returns exactly when some attempt ends it, and then at the first that does.\<close>

lemma loop_total:
  "loop env s =
     (if \<exists>k \<ge> 1. ends_at env (retry s) (limit s) k
      then let e = LEAST k. 1 \<le> k \<and> ends_at env (retry s) (limit s) k
           in Some (end_of env (retry s) (limit s) e,
                    delays (cap s) (first s) (e - 1 + waited_at_end env (retry s) (limit s) e))
      else None)"
  using retryFrom_first_end(1) [of env "retry s" "limit s" "cap s" "first s"]
    retryFrom_never [of env "retry s" "limit s" 0 "cap s" "first s" "[]"]
  by (auto simp: loop_def Let_def)

lemma loop_bounded:
  assumes "ok s" "retry s \<longrightarrow> limit s = Some m"
  shows "\<exists>e ds. loop env s = Some (end_of env (retry s) (limit s) e, ds) \<and> 1 \<le> e \<and>
     e \<le> (if retry s then Suc (nat m) else 1) \<and> length ds \<le> e \<and>
     (\<forall>k. 1 \<le> k \<longrightarrow> k < e \<longrightarrow> \<not> ends_at env (retry s) (limit s) k)"
proof -
  define e where "e = (LEAST k. 1 \<le> k \<and> ends_at env (retry s) (limit s) k)"
  have lim: "ends_at env (retry s) (limit s) (if retry s then Suc (nat m) else 1)"
    using limited_ends [OF assms(2)] by simp
  then have ex: "\<exists>k \<ge> 1. ends_at env (retry s) (limit s) k"
    by (intro exI [of _ "if retry s then Suc (nat m) else 1"]) (simp split: if_splits)
  note ends = retryFrom_first_end [OF ex, folded e_def]
  have "e \<le> (if retry s then Suc (nat m) else 1)"
    unfolding e_def by (rule Least_le) (use lim in \<open>simp split: if_splits\<close>)
  moreover have "length (delays (cap s) (first s) (e - 1 + waited_at_end env (retry s) (limit s) e)) \<le> e"
    using ends(2) by (simp add: waited_at_end_def)
  ultimately show ?thesis using ends by (auto simp: loop_def)
qed

lemma loop_returns:
  assumes "1 \<le> k" "ends_at env (retry s) (limit s) k"
  shows "\<exists>e ds. e \<le> k \<and> loop env s = Some (end_of env (retry s) (limit s) e, ds)"
proof -
  define e where "e = (LEAST k. 1 \<le> k \<and> ends_at env (retry s) (limit s) k)"
  have "e \<le> k" unfolding e_def by (rule Least_le) (use assms in simp)
  then show ?thesis
    using retryFrom_first_end(1) [of env "retry s" "limit s" "cap s" "first s", folded e_def] assms
    by (auto simp: loop_def)
qed

lemma loop_delays:
  assumes "ok s" "loop env s = Some (r, ds)" "\<exists>k \<ge> 1. ends_at env (retry s) (limit s) k" "i < length ds"
  shows "ds ! i = (if i = 0 then first s else min (cap s) (2 ^ i * first s))"
proof -
  define e where "e = (LEAST k. 1 \<le> k \<and> ends_at env (retry s) (limit s) k)"
  have "ds = delays (cap s) (first s) (e - 1 + waited_at_end env (retry s) (limit s) e)"
    using retryFrom_first_end(1) [OF assms(3), of "cap s" "first s", folded e_def] assms(2) by (simp add: loop_def)
  then show ?thesis
    using delays_exact [of "first s" "cap s" i] first_range [OF assms(1)] cap_range [OF assms(1)] assms(4) by simp
qed

end

locale capped_retry = retrying +
  assumes first_capped: "ok s \<Longrightarrow> first s \<le> cap s"
begin

lemma loop_delays_capped:
  assumes "ok s" "loop env s = Some (r, ds)" "\<exists>k \<ge> 1. ends_at env (retry s) (limit s) k"
  shows "\<forall>d \<in> set ds. 0 < d \<and> d \<le> cap s"
proof
  fix d assume "d \<in> set ds"
  then obtain i where "i < length ds" "ds ! i = d" by (auto simp: in_set_conv_nth)
  moreover have "0 < min (cap s) (2 ^ i * first s)" "min (cap s) (2 ^ i * first s) \<le> cap s"
    using first_range [OF assms(1)] cap_range [OF assms(1)] by simp_all
  moreover have "ds ! i = (if i = 0 then first s else min (cap s) (2 ^ i * first s))" if "i < length ds" for i
    using loop_delays [OF assms that] .
  ultimately show "0 < d \<and> d \<le> cap s"
    using first_range [OF assms(1)] first_capped [OF assms(1)] by metis
qed

end

end
