(* ===== verification/RawPoller.thy ===== *)
theory RawPoller
  imports Wiring Retry
begin

unbundle bit_operations_syntax

section \<open>raw_poller.go: request and response transactions on raw COB-IDs\<close>

text \<open>
  Models raw_poller.go. The structs \<open>pollOnce\<close> allocates are kept in a heap: \<open>active\<close> is an
  address or nil, so the pointer comparison when a poll ends is a comparison of addresses, and
  a result sent to a struct that is no longer active stays with its owner. As in the SDO
  poller the result channel has capacity one. \<open>handleFrame\<close> claims the frame under the mutex,
  decodes it and then sends the result. An outer option is None when the code panics: a
  negative match offset, or the codec and the metrics builder while decoding.
\<close>

definition defaultRawTransactionTimeout :: int where "defaultRawTransactionTimeout = 2 * second"
definition defaultRawTransactionBackoff :: int where "defaultRawTransactionBackoff = second"
definition defaultRawTransactionMaxBackoff :: int where "defaultRawTransactionMaxBackoff = 60 * second"

record activeRawTransaction =
  arTransaction :: RawTransactionConfig
  arResult :: "bool list"

record rawTransactionPoller =
  rpTransactions :: "RawTransactionConfig list"
  rpHeap :: "activeRawTransaction list"
  rpActive :: "nat option"

definition newRawTransactionPoller :: "Config \<Rightarrow> rawTransactionPoller" where
  "newRawTransactionPoller c = \<lparr>rpTransactions = rwTransactions (cfRaw c), rpHeap = [], rpActive = None\<rparr>"

subsection \<open>Matching and decoding a response\<close>

primrec rawTransactionMatches :: "RawMatchByte list \<Rightarrow> bytes \<Rightarrow> bool option" where
  "rawTransactionMatches [] data = Some True"
| "rawTransactionMatches (m # ms) data =
     (if rbByteOffset m \<ge> int (length data) then Some False
      else (case at_index data (rbByteOffset m) of
              None \<Rightarrow> None
            | Some b \<Rightarrow> if b \<noteq> rbValue m then Some False else rawTransactionMatches ms data))"

definition transactionResource :: "Config \<Rightarrow> Frame \<Rightarrow> strmap" where
  "transactionResource c f =
     AList.update ''canopen.cob_id'' (''0x'' @ fmt_0X 3 (unat (ID f))) [(''canopen.interface'', cfInterface c)]"

definition transactionPoint :: "strmap \<Rightarrow> FieldConfig \<Rightarrow> Value \<Rightarrow> MetricPoint" where
  "transactionPoint res field v =
     \<lparr>mpResourceAttrs = res, mpName = fcName field, mpUnit = fcUnit field,
      mpKind = (if fcMetricType field = MetricSum then KindSum else KindGauge),
      mpValue = ApplyScale v (fcScale field) (fcOffset field), mpAttributes = fcAttributes field, mpTimestamp = None\<rparr>"

text \<open>The loop over the fields; the variables are the builder, \<open>bodyMap\<close> and \<open>logAttrs\<close>.\<close>

primrec transactionFields ::
  "int \<Rightarrow> bytes \<Rightarrow> strmap \<Rightarrow> bool \<Rightarrow> FieldConfig list \<Rightarrow> MetricsBuilder option \<Rightarrow> anymap \<Rightarrow> anymap \<Rightarrow>
     (MetricsBuilder option \<times> anymap \<times> anymap) option" where
  "transactionFields now data res haveLogs [] metrics bodyMap logAttrs = Some (metrics, bodyMap, logAttrs)"
| "transactionFields now data res haveLogs (field # rest) metrics bodyMap logAttrs =
     do {
       r \<leftarrow> Decode data (fcType field) (fcBitOffset field) (fcByteLen field);
       case r of
         Inl err \<Rightarrow> transactionFields now data res haveLogs rest metrics bodyMap logAttrs
       | Inr value \<Rightarrow> do {
           ms \<leftarrow> addMetric now (fcMetrics field) metrics (transactionPoint res field value);
           if fcLogs field \<and> haveLogs
           then transactionFields now data res haveLogs rest ms
                  (AList.update (fcName field) (BodyValue value (fcScale field) (fcOffset field)) bodyMap)
                  (foldl (\<lambda>m (key, attr). AList.update key attr m) logAttrs (entries (fcAttributes field)))
           else transactionFields now data res haveLogs rest ms bodyMap logAttrs
         }
     }"

definition transactionRecord :: "strmap \<Rightarrow> RawTransactionConfig \<Rightarrow> anymap \<Rightarrow> anymap \<Rightarrow> LogRecord" where
  "transactionRecord res t bodyMap logAttrs =
     \<lparr>lrResourceAttrs = res, lrTimestamp = None, lrSeverity = SeverityNumberInfo,
      lrBody = ''canopen raw transaction '' @ txName t @ '' decoded'',
      lrBodyValue = (case bodyMap of [(_, value)] \<Rightarrow> Some value | _ \<Rightarrow> None),
      lrBodyMap = (if length bodyMap = 1 then None else Some bodyMap), lrAttributes = logAttrs\<rparr>"

definition emitRawTransaction ::
  "int \<Rightarrow> Config \<Rightarrow> RawTransactionConfig \<Rightarrow> Frame \<Rightarrow> MetricsBuilder option \<Rightarrow> LogsBuilder option \<Rightarrow> outcome" where
  "emitRawTransaction now c t f metrics logs =
     do {
       (ms, bodyMap, logAttrs) \<leftarrow> transactionFields now (Data f) (transactionResource c f) (logs \<noteq> None)
         (rrFields (txResponse t)) metrics [] [(''canopen.raw.transaction'', AnyString (txName t))];
       if length bodyMap = 0 \<or> logs = None then Some (ms, logs)
       else do {
         ls \<leftarrow> addLog now True logs (transactionRecord (transactionResource c f) t bodyMap logAttrs);
         Some (ms, ls)
       }
     }"

subsection \<open>One attempt\<close>

text \<open>\<open>pollOnce\<close> up to the send: it allocates the active transaction, at the address returned.\<close>

definition rawBegin :: "rawTransactionPoller \<Rightarrow> RawTransactionConfig \<Rightarrow> rawTransactionPoller \<times> nat" where
  "rawBegin p t =
     (p\<lparr>rpHeap := rpHeap p @ [\<lparr>arTransaction = t, arResult = []\<rparr>], rpActive := Some (length (rpHeap p))\<rparr>,
      length (rpHeap p))"

definition rawRequest :: "RawTransactionConfig \<Rightarrow> Frame" where
  "rawRequest t = \<lparr>ID = txCobID t, Extended = False, Data = txPayload t\<rparr>"

definition rawEnd :: "rawTransactionPoller \<Rightarrow> nat \<Rightarrow> rawTransactionPoller" where
  "rawEnd p active = (if rpActive p = Some active then p\<lparr>rpActive := None\<rparr> else p)"

datatype raw_error = RawSend go_error | RawTimedOut int | RawContext go_error

text \<open>The errors (None is nil) the select may return; an empty list means it still waits.\<close>

definition rawSelect ::
  "rawTransactionPoller \<Rightarrow> nat \<Rightarrow> int \<Rightarrow> bool \<Rightarrow> go_error option \<Rightarrow> raw_error option list" where
  "rawSelect p active configured expired ctxErr =
     (let timeout = (if configured = 0 then defaultRawTransactionTimeout else configured)
      in (if arResult (rpHeap p ! active) = [] then [] else [None]) @
         (if expired then [Some (RawTimedOut timeout)] else []) @
         (case ctxErr of None \<Rightarrow> [] | Some e \<Rightarrow> [Some (RawContext e)]))"

text \<open>The critical section of \<open>handleFrame\<close>: the address claimed, if the frame is the response.\<close>

definition rawClaim :: "rawTransactionPoller \<Rightarrow> Frame \<Rightarrow> (rawTransactionPoller \<times> nat option) option" where
  "rawClaim p f =
     (case rpActive p of
        None \<Rightarrow> Some (p, None)
      | Some active \<Rightarrow>
          (let response = txResponse (arTransaction (rpHeap p ! active))
           in if Extended f then Some (p, None)
              else if ID f \<noteq> rrCobID response then Some (p, None)
              else (case rawTransactionMatches (rrMatch response) (Data f) of
                      None \<Rightarrow> None
                    | Some False \<Rightarrow> Some (p, None)
                    | Some True \<Rightarrow> Some (p\<lparr>rpActive := None\<rparr>, Some active))))"

definition rawComplete :: "rawTransactionPoller \<Rightarrow> nat \<Rightarrow> rawTransactionPoller" where
  "rawComplete p active =
     (let a = rpHeap p ! active
      in if arResult a = [] then p\<lparr>rpHeap := (rpHeap p)[active := a\<lparr>arResult := [True]\<rparr>]\<rparr> else p)"

definition rawHandleFrame ::
  "int \<Rightarrow> Config \<Rightarrow> rawTransactionPoller \<Rightarrow> Frame \<Rightarrow> MetricsBuilder option \<Rightarrow> LogsBuilder option \<Rightarrow>
     (rawTransactionPoller \<times> MetricsBuilder option \<times> LogsBuilder option \<times> bool) option" where
  "rawHandleFrame now c p f metrics logs =
     do {
       (p1, claimed) \<leftarrow> rawClaim p f;
       case claimed of
         None \<Rightarrow> Some (p1, metrics, logs, False)
       | Some active \<Rightarrow> do {
           (ms, ls) \<leftarrow> emitRawTransaction now c (arTransaction (rpHeap p1 ! active)) f metrics logs;
           Some (rawComplete p1 active, ms, ls, True)
         }
     }"

text \<open>What handling frames in a row does to the poller, and which of them are claimed.\<close>

primrec rawFrames :: "rawTransactionPoller \<Rightarrow> Frame list \<Rightarrow> (rawTransactionPoller \<times> bool list) option" where
  "rawFrames p [] = Some (p, [])"
| "rawFrames p (f # fs) =
     do {
       (p1, claimed) \<leftarrow> rawClaim p f;
       (p2, flags) \<leftarrow> rawFrames (case claimed of None \<Rightarrow> p1 | Some active \<Rightarrow> rawComplete p1 active) fs;
       Some (p2, (claimed \<noteq> None) # flags)
     }"

text \<open>\<open>pollOnce\<close>, with the frames that arrive before its select: what it sent, the frames claimed, its results.\<close>

definition pollOnce ::
  "rawTransactionPoller \<Rightarrow> RawTransactionConfig \<Rightarrow> go_error option \<Rightarrow> Frame list \<Rightarrow> bool \<Rightarrow> go_error option \<Rightarrow>
     (rawTransactionPoller \<times> Frame list \<times> bool list \<times> raw_error option list) option" where
  "pollOnce p t sendErr fs expired ctxErr =
     (case rawBegin p t of (p1, active) \<Rightarrow>
        (case sendErr of
           Some e \<Rightarrow> Some (rawEnd p1 active, [rawRequest t], [], [Some (RawSend e)])
         | None \<Rightarrow> do {
             (p2, flags) \<leftarrow> rawFrames p1 fs;
             Some (rawEnd p2 active, [rawRequest t], flags, rawSelect p2 active (txTimeout t) expired ctxErr)
           }))"

subsection \<open>The loops\<close>

definition rawMaxBackoff :: "RawTransactionConfig \<Rightarrow> int" where
  "rawMaxBackoff t = (if txMaxBackoff t = 0 then defaultRawTransactionMaxBackoff else txMaxBackoff t)"

definition rawFirstBackoff :: "RawTransactionConfig \<Rightarrow> int" where
  "rawFirstBackoff t =
     (let backoff = (if txBackoff t = 0 then defaultRawTransactionBackoff else txBackoff t)
      in if backoff > rawMaxBackoff t then rawMaxBackoff t else backoff)"

definition rawPoll :: "(nat \<Rightarrow> attempt) \<Rightarrow> RawTransactionConfig \<Rightarrow> (retry_end \<times> int list) option" where
  "rawPoll env t = retryFrom env (txRetry t) (txMaxRetries t) (rawMaxBackoff t) 0 (rawFirstBackoff t) []"

text \<open>
  One pass of \<open>run\<close> over the transactions, with their \<open>onceCompleted\<close> flags: the polls made, the
  flags, whether a recurring transaction was met, the numbers of the next poll and the next
  wait, and whether \<open>run\<close> returned because the wait was interrupted. Poll \<open>n\<close> meets the world
  \<open>env n\<close>; the outcome of wait \<open>k\<close> is \<open>waits k\<close>.
\<close>

type_synonym cycle_end = "(RawTransactionConfig \<times> retry_end) list \<times> bool list \<times> bool \<times> nat \<times> nat \<times> bool"

fun rawCycle ::
  "(nat \<Rightarrow> nat \<Rightarrow> attempt) \<Rightarrow> (nat \<Rightarrow> bool) \<Rightarrow> nat \<Rightarrow> nat \<Rightarrow> RawTransactionConfig list \<Rightarrow> bool list \<Rightarrow> cycle_end option" where
  "rawCycle env waits n k (t # ts) (completed # flags) =
     (if effectiveMode t = ''once'' then
        if completed then do {
          (polls, flags', recurring, n', k', returned) \<leftarrow> rawCycle env waits n k ts flags;
          Some (polls, completed # flags', recurring, n', k', returned)
        }
        else do {
          (how, waited) \<leftarrow> rawPoll (env n) t;
          (polls, flags', recurring, n', k', returned) \<leftarrow> rawCycle env waits (Suc n) k ts flags;
          Some ((t, how) # polls, True # flags', recurring, n', k', returned)
        }
      else do {
        (how, waited) \<leftarrow> rawPoll (env n) t;
        if \<not> waits k then Some ([(t, how)], completed # flags, True, Suc n, Suc k, True)
        else do {
          (polls, flags', recurring, n', k', returned) \<leftarrow> rawCycle env waits (Suc n) (Suc k) ts flags;
          Some ((t, how) # polls, completed # flags', True, n', k', returned)
        }
      })"
| "rawCycle env waits n k ts flags = Some ([], flags, False, n, k, False)"

partial_function (option) rawRunFrom ::
  "(nat \<Rightarrow> nat \<Rightarrow> attempt) \<Rightarrow> (nat \<Rightarrow> bool) \<Rightarrow> RawTransactionConfig list \<Rightarrow> nat \<Rightarrow> nat \<Rightarrow> bool list \<Rightarrow>
     (RawTransactionConfig \<times> retry_end) list \<Rightarrow> (RawTransactionConfig \<times> retry_end) list option" where
  "rawRunFrom env waits ts n k flags polled =
     Option.bind (rawCycle env waits n k ts flags)
       (\<lambda>(polls, flags', recurring, n', k', returned).
          if returned then Some (polled @ polls)
          else if \<not> recurring then Some (polled @ polls)
          else rawRunFrom env waits ts n' k' flags' (polled @ polls))"

definition rawRun ::
  "(nat \<Rightarrow> nat \<Rightarrow> attempt) \<Rightarrow> (nat \<Rightarrow> bool) \<Rightarrow> Config \<Rightarrow> (RawTransactionConfig \<times> retry_end) list option" where
  "rawRun env waits c =
     (let ts = rwTransactions (cfRaw c) in rawRunFrom env waits ts 0 0 (replicate (length ts) False) [])"

section \<open>Decoding a response is decoding a field group\<close>

lemma transactionPoint_field: "transactionPoint res field v = fieldPoint res (buildSnifferField field) v"
  by (simp add: transactionPoint_def fieldPoint_def buildSnifferField_def)

lemma update_nonempty: "AList.update k v m \<noteq> []"
  by (cases m) auto

lemma transactionFields_loop:
  "emitFieldLoop now data res haveLogs (map buildSnifferField fs)
     \<lparr>flMetrics = metrics, flBodyMap = bodyMap, flLogAttrs = logAttrs, flHaveLog = (bodyMap \<noteq> [])\<rparr> =
   map_option (\<lambda>(ms, body, attrs). \<lparr>flMetrics = ms, flBodyMap = body, flLogAttrs = attrs, flHaveLog = (body \<noteq> [])\<rparr>)
     (transactionFields now data res haveLogs fs metrics bodyMap logAttrs)"
proof (induction fs arbitrary: metrics bodyMap logAttrs)
  case (Cons f fs)
  have log: "fOffset (buildSnifferField f) = fcOffset f" "fScale (buildSnifferField f) = fcScale f"
    "fAttributes (buildSnifferField f) = fcAttributes f"
    by (simp_all add: buildSnifferField_def)
  show ?case
  proof (cases "Decode data (fcType f) (fcBitOffset f) (fcByteLen f)")
    case (Some r)
    show ?thesis
    proof (cases r)
      case (Inl e)
      then show ?thesis using Some Cons.IH by (simp add: emitField_def)
    next
      case (Inr v)
      have res: "addMetric now (fcMetrics f) metrics (fieldPoint res (buildSnifferField f) v) =
          addMetric now (fcMetrics f) metrics (transactionPoint res f v)" by (simp add: transactionPoint_field)
      show ?thesis
      proof (cases "addMetric now (fcMetrics f) metrics (transactionPoint res f v)")
        case None
        then show ?thesis using Some Inr by (simp add: emitField_def res)
      next
        case (Some ms)
        show ?thesis
        proof (cases "fcLogs f \<and> haveLogs")
          case True
          then show ?thesis
            using \<open>Decode data _ _ _ = Some r\<close> Inr Some
              Cons.IH [of ms "AList.update (fcName f) (BodyValue v (fcScale f) (fcOffset f)) bodyMap"
                "setAll logAttrs (entries (fcAttributes f))"]
            by (simp add: emitField_def res log update_nonempty) (simp add: setAll_def)
        next
          case False
          then show ?thesis
            using \<open>Decode data _ _ _ = Some r\<close> Inr Some Cons.IH [of ms bodyMap logAttrs]
            by (auto simp: emitField_def res)
        qed
      qed
    qed
  qed (simp add: emitField_def)
qed simp

lemma emitRawTransaction_fields:
  "emitRawTransaction now c t f metrics logs =
     emitFields now (buildSnifferFields (rrFields (txResponse t))) (Data f) (transactionResource c f)
       [(''canopen.raw.transaction'', AnyString (txName t))]
       (''canopen raw transaction '' @ txName t @ '' decoded'') metrics logs"
proof -
  let ?attrs = "[(''canopen.raw.transaction'', AnyString (txName t))]"
  let ?fs = "rrFields (txResponse t)"
  have loop: "emitFieldLoop now (Data f) (transactionResource c f) (logs \<noteq> None) (map buildSnifferField ?fs)
      \<lparr>flMetrics = metrics, flBodyMap = [], flLogAttrs = ?attrs, flHaveLog = False\<rparr> =
    map_option (\<lambda>(ms, body, attrs). \<lparr>flMetrics = ms, flBodyMap = body, flLogAttrs = attrs, flHaveLog = (body \<noteq> [])\<rparr>)
      (transactionFields now (Data f) (transactionResource c f) (logs \<noteq> None) ?fs metrics [] ?attrs)"
    using transactionFields_loop [of now "Data f" "transactionResource c f" "logs \<noteq> None" ?fs metrics "[]" ?attrs] by simp
  have rec: "transactionRecord = (\<lambda>res t. groupRecord res (''canopen raw transaction '' @ txName t @ '' decoded''))"
    by (simp add: transactionRecord_def groupRecord_def fun_eq_iff)
  have attrs: "setAll [] ?attrs = ?attrs" by (simp add: setAll_def)
  show ?thesis
    unfolding emitRawTransaction_def emitFields_def buildSnifferFields_map attrs loop rec
    by (cases "transactionFields now (Data f) (transactionResource c f) (logs \<noteq> None) ?fs metrics [] ?attrs")
      (auto simp: addLog_def split: option.split)
qed

section \<open>Matching\<close>

lemma rawTransactionMatches_sniffer: "rawTransactionMatches ms data = matchesAll (map buildMatch ms) data"
  by (induction ms) (simp_all add: buildMatch_def split: option.split)

lemma rawTransactionMatches_hold:
  assumes "matches_wf ms"
  shows "rawTransactionMatches ms data = Some (all_hold ms data)"
  using assms
proof (induction ms)
  case (Cons m ms)
  then show ?case
    by (auto simp: matches_wf_def all_hold_def match_holds_def at_index_def)
qed (simp add: all_hold_def)

definition responds :: "RawTransactionConfig \<Rightarrow> Frame \<Rightarrow> bool" where
  "responds t f \<longleftrightarrow> \<not> Extended f \<and> ID f = rrCobID (txResponse t) \<and> all_hold (rrMatch (txResponse t)) (Data f)"

text \<open>The flags of the frames of a poll: the first response is claimed, nothing else.\<close>

definition first_only :: "('a \<Rightarrow> bool) \<Rightarrow> 'a list \<Rightarrow> bool list" where
  "first_only P xs = map (\<lambda>i. P (xs ! i) \<and> (\<forall>j < i. \<not> P (xs ! j))) [0..<length xs]"

lemma first_only_Nil [simp]: "first_only P [] = []"
  by (simp add: first_only_def)

lemma first_only_Cons:
  "first_only P (x # xs) = (if P x then True # replicate (length xs) False else False # first_only P xs)"
proof -
  have "[0..<length (x # xs)] = 0 # map Suc [0..<length xs]"
    by (simp add: upt_conv_Cons map_Suc_upt del: upt_Suc)
  then have "first_only P (x # xs) =
      P x # map (\<lambda>i. P (xs ! i) \<and> \<not> P x \<and> (\<forall>j < i. \<not> P (xs ! j))) [0..<length xs]"
    unfolding first_only_def by (simp add: comp_def All_less_Suc2 del: upt_Suc)
  then show ?thesis by (simp add: first_only_def map_replicate_const)
qed

lemma rawFrames_idle: "rpActive p = None \<Longrightarrow> rawFrames p fs = Some (p, replicate (length fs) False)"
  by (induction fs) (simp_all add: rawClaim_def)

lemma rawFrames_active:
  assumes "rpActive p = Some a" "a < length (rpHeap p)" "arResult (rpHeap p ! a) = []"
    "matches_wf (rrMatch (txResponse (arTransaction (rpHeap p ! a))))"
  shows "rawFrames p fs =
    Some (if \<exists>f \<in> set fs. responds (arTransaction (rpHeap p ! a)) f
          then p\<lparr>rpHeap := (rpHeap p)[a := (rpHeap p ! a)\<lparr>arResult := [True]\<rparr>], rpActive := None\<rparr> else p,
          first_only (responds (arTransaction (rpHeap p ! a))) fs)"
proof (induction fs)
  case (Cons f fs)
  note claim = rawTransactionMatches_hold [OF assms(4), of "Data f"]
  show ?case
  proof (cases "responds (arTransaction (rpHeap p ! a)) f")
    case True
    then have "rawClaim p f = Some (p\<lparr>rpActive := None\<rparr>, Some a)"
      using assms(1) claim by (simp add: rawClaim_def responds_def Let_def)
    moreover have "rawComplete (p\<lparr>rpActive := None\<rparr>) a =
        p\<lparr>rpHeap := (rpHeap p)[a := (rpHeap p ! a)\<lparr>arResult := [True]\<rparr>], rpActive := None\<rparr>"
      using assms(3) by (simp add: rawComplete_def)
    ultimately show ?thesis using True by (simp add: rawFrames_idle first_only_Cons)
  next
    case False
    then have "rawClaim p f = Some (p, None)"
      using assms(1) claim by (auto simp: rawClaim_def responds_def Let_def)
    then show ?thesis using False Cons.IH by (simp add: first_only_Cons)
  qed
qed (simp add: assms)

section \<open>The loops\<close>

definition raw_settings_ok :: "RawTransactionConfig \<Rightarrow> bool" where
  "raw_settings_ok t \<longleftrightarrow> transaction_wf t \<and> txBackoff t < 2 ^ 62 \<and> txMaxBackoff t < 2 ^ 62"

interpretation raw_retry: capped_retry rawFirstBackoff rawMaxBackoff txRetry txMaxRetries raw_settings_ok
  by unfold_locales
    (auto simp: raw_settings_ok_def transaction_wf_def retries_wf_def rawFirstBackoff_def rawMaxBackoff_def
      defaultRawTransactionBackoff_def defaultRawTransactionMaxBackoff_def second_def Let_def)

lemma rawPoll_loop: "rawPoll env t = raw_retry.loop env t"
  by (simp add: rawPoll_def raw_retry.loop_def)

text \<open>The polls a pass makes, by the flags, and the flags after it.\<close>

definition is_once :: "RawTransactionConfig \<Rightarrow> bool" where
  "is_once t \<longleftrightarrow> effectiveMode t = ''once''"

definition due :: "RawTransactionConfig list \<Rightarrow> bool list \<Rightarrow> RawTransactionConfig list" where
  "due ts flags = map fst (filter (\<lambda>(t, completed). \<not> (is_once t \<and> completed)) (zip ts flags))"

definition flags_after :: "RawTransactionConfig list \<Rightarrow> bool list \<Rightarrow> bool list" where
  "flags_after ts flags = map (\<lambda>(t, completed). completed \<or> is_once t) (zip ts flags)"

lemma due_simps [simp]: "due [] flags = []"
  "due (t # ts) (c # flags) = (if is_once t \<and> c then due ts flags else t # due ts flags)"
  by (simp_all add: due_def)

lemma rawCycle_due:
  assumes "rawCycle env waits n k ts flags = Some (polls, flags', recurring, n', k', returned)"
    "length flags = length ts"
  shows "prefix (map fst polls) (due ts flags) \<and>
    (\<not> returned \<longrightarrow> map fst polls = due ts flags \<and> flags' = flags_after ts flags \<and>
       recurring = (\<exists>t \<in> set ts. \<not> is_once t))"
  using assms
proof (induction env waits n k ts flags arbitrary: polls flags' recurring n' k' returned rule: rawCycle.induct)
  case (1 env waits n k t ts completed flags)
  show ?case
  proof (cases "is_once t")
    case True
    then show ?thesis
      using 1 by (cases completed) (auto simp: is_once_def flags_after_def bind_eq_Some_conv)
  next
    case False
    then show ?thesis
      using 1 by (auto simp: is_once_def flags_after_def bind_eq_Some_conv split: if_splits)
  qed
qed (auto simp: flags_after_def)

lemma rawCycle_waits:
  assumes "rawCycle env waits n k ts flags = Some (polls, flags', recurring, n', k', returned)"
    "length flags = length ts"
  shows "k \<le> k' \<and> (returned \<longrightarrow> (\<exists>j. \<not> waits j)) \<and>
    (\<not> returned \<longrightarrow> (\<forall>j. k \<le> j \<longrightarrow> j < k' \<longrightarrow> waits j) \<and> (recurring \<longrightarrow> k < k'))"
  using assms
proof (induction ts arbitrary: flags n k polls flags' recurring n' k' returned)
  case (Cons t ts)
  obtain c fl where fl: "flags = c # fl" "length fl = length ts" using Cons.prems(2) by (cases flags) auto
  show ?case
  proof (cases "is_once t")
    case True
    then show ?thesis
      using Cons.prems fl by (cases c) (auto simp: is_once_def bind_eq_Some_conv dest!: Cons.IH [OF _ fl(2)])
  next
    case once: False
    show ?thesis
    proof (cases "waits k")
      case True
      then obtain polls1 fl1 r where "rawCycle env waits (Suc n) (Suc k) ts fl = Some (polls1, fl1, r, n', k', returned)"
        using Cons.prems(1) once fl by (auto simp: is_once_def bind_eq_Some_conv)
      note ih = Cons.IH [OF this fl(2)]
      have "waits j" if "\<not> returned" "k \<le> j" "j < k'" for j
        using ih True that by (cases "j = k") auto
      then show ?thesis using ih by auto
    next
      case False
      then show ?thesis using Cons.prems fl once by (auto simp: is_once_def bind_eq_Some_conv)
    qed
  qed
qed auto

lemma rawCycle_returns:
  assumes "\<forall>t \<in> set ts. \<forall>n. rawPoll (env n) t \<noteq> None" "length flags = length ts"
  shows "rawCycle env waits n k ts flags \<noteq> None"
  using assms
proof (induction ts arbitrary: flags n k)
  case (Cons t ts)
  obtain c fl where fl: "flags = c # fl" "length fl = length ts" using Cons.prems(2) by (cases flags) auto
  obtain how waited where poll: "rawPoll (env n) t = Some (how, waited)" using Cons.prems(1) by fastforce
  have rest: "\<exists>r. rawCycle env waits n k ts fl = Some r" for n k
    using Cons.IH [of fl n k] Cons.prems(1) fl(2) by auto
  show ?case
    using rest [of n k] rest [of "Suc n" k] rest [of "Suc n" "Suc k"] poll by (auto simp: fl(1) split_beta)
qed simp

lemma rawCycle_once:
  assumes "rawCycle env waits n k ts flags = Some (polls, flags', recurring, n', k', returned)" "\<forall>t \<in> set ts. is_once t"
  shows "\<not> returned"
  using assms
proof (induction ts arbitrary: flags n k polls flags' recurring n' k')
  case (Cons t ts)
  then show ?case
    by (cases flags) (auto simp: is_once_def bind_eq_Some_conv split: if_splits)
qed simp

lemma due_after:
  assumes "length flags = length ts"
  shows "due ts (flags_after ts flags) = filter (\<lambda>t. \<not> is_once t) ts" "length (flags_after ts flags) = length ts"
  using assms
  by (induction flags ts rule: list_induct2) (auto simp: flags_after_def)

lemma due_fresh: "due ts (replicate (length ts) False) = ts"
  by (induction ts) simp_all

text \<open>What is polled, in order: the due transactions, then the recurring ones over and over.\<close>

lemma rawRunFrom_prefix:
  assumes "rawRunFrom env waits ts n k flags polled = Some all" "length flags = length ts"
  shows "\<exists>polls m. all = polled @ polls \<and>
    prefix (map fst polls) (due ts flags @ concat (replicate m (filter (\<lambda>t. \<not> is_once t) ts))) \<and>
    ((\<forall>t \<in> set ts. is_once t) \<longrightarrow> map fst polls = due ts flags)"
  using assms
proof (induction rule: rawRunFrom.raw_induct [rotated, consumes 1])
  case (1 run env waits ts n k flags polled y)
  let ?rs = "filter (\<lambda>t. \<not> is_once t) ts"
  obtain polls flags' recurring n' k' returned where
    c: "rawCycle env waits n k ts flags = Some (polls, flags', recurring, n', k', returned)"
    and y: "(if returned then Some (polled @ polls) else if \<not> recurring then Some (polled @ polls)
      else run env waits ts n' k' flags' (polled @ polls)) = Some y"
    using 1(2) by (auto simp: bind_eq_Some_conv)
  note d = rawCycle_due [OF c 1(3)]
  note w = rawCycle_waits [OF c 1(3)]
  show ?case
  proof (cases "returned \<or> \<not> recurring")
    case True
    then have "y = polled @ polls" using y by (auto split: if_splits)
    moreover have "(\<forall>t \<in> set ts. is_once t) \<longrightarrow> \<not> returned"
      using rawCycle_once [OF c] by blast
    ultimately show ?thesis using d by (auto intro!: exI [of _ 0])
  next
    case False
    then have "run env waits ts n' k' flags' (polled @ polls) = Some y" using y by simp
    moreover have fl: "flags' = flags_after ts flags" "map fst polls = due ts flags" "\<exists>t \<in> set ts. \<not> is_once t"
      using d False by auto
    ultimately obtain more m where more: "y = (polled @ polls) @ more"
      "prefix (map fst more) (due ts flags' @ concat (replicate m ?rs))"
      using 1(1) [of env waits ts n' k' flags' "polled @ polls" y] due_after(2) [OF 1(3)] by blast
    then have "prefix (map fst (polls @ more)) (due ts flags @ concat (replicate (Suc m) ?rs))"
      using fl(1,2) due_after(1) [OF 1(3)] by simp
    then show ?thesis using more(1) fl(3) by (intro exI [of _ "polls @ more"] exI [of _ "Suc m"]) auto
  qed
qed

text \<open>With polls that return, the run returns unless a recurring transaction is never interrupted.\<close>

lemma rawRunFrom_returns:
  assumes "\<forall>t \<in> set ts. \<forall>n. rawPoll (env n) t \<noteq> None" "length flags = length ts" "\<not> waits m" "k \<le> m"
  shows "rawRunFrom env waits ts n k flags polled \<noteq> None"
  using assms
proof (induction "m - k" arbitrary: n k flags polled rule: less_induct)
  case less
  obtain polls flags' recurring n' k' returned where
    c: "rawCycle env waits n k ts flags = Some (polls, flags', recurring, n', k', returned)"
    using rawCycle_returns [OF less.prems(1,2), of waits n k] by (metis not_None_eq prod_cases6)
  note d = rawCycle_due [OF c less.prems(2)] rawCycle_waits [OF c less.prems(2)]
  show ?case
  proof (cases "returned \<or> \<not> recurring")
    case True
    then show ?thesis by (subst rawRunFrom.simps) (auto simp: c)
  next
    case False
    have "k' \<le> m" using d(2) False less.prems(3,4) by (meson leI)
    moreover have "m - k' < m - k" using d(2) False \<open>k' \<le> m\<close> by auto
    moreover have "length flags' = length ts" using d(1) False due_after(2) [OF less.prems(2)] by auto
    ultimately have "rawRunFrom env waits ts n' k' flags' (polled @ polls) \<noteq> None"
      using less.hyps less.prems(1,3) by blast
    then show ?thesis using False by (subst rawRunFrom.simps) (simp add: c)
  qed
qed

lemma rawRunFrom_once:
  assumes "\<forall>t \<in> set ts. \<forall>n. rawPoll (env n) t \<noteq> None" "length flags = length ts" "\<forall>t \<in> set ts. is_once t"
  shows "rawRunFrom env waits ts n k flags polled \<noteq> None"
proof -
  obtain polls flags' recurring n' k' returned where
    c: "rawCycle env waits n k ts flags = Some (polls, flags', recurring, n', k', returned)"
    using rawCycle_returns [OF assms(1,2), of waits n k] by (metis not_None_eq prod_cases6)
  then have "returned \<or> \<not> recurring" using rawCycle_due [OF c assms(2)] assms(3) by blast
  then show ?thesis by (subst rawRunFrom.simps) (auto simp: c)
qed

lemma rawRunFrom_never:
  assumes "\<exists>t \<in> set ts. \<not> is_once t" "length flags = length ts" "\<forall>j. waits j"
  shows "rawRunFrom env waits ts n k flags polled = None"
proof (rule ccontr)
  assume "rawRunFrom env waits ts n k flags polled \<noteq> None"
  then obtain y where "rawRunFrom env waits ts n k flags polled = Some y" by blast
  then have "length flags = length ts \<longrightarrow> (\<exists>t \<in> set ts. \<not> is_once t) \<longrightarrow> (\<exists>j. \<not> waits j)"
  proof (induction rule: rawRunFrom.raw_induct [rotated, consumes 1])
    case (1 run env waits ts n k flags polled y)
    obtain polls flags' recurring n' k' returned where
      c: "rawCycle env waits n k ts flags = Some (polls, flags', recurring, n', k', returned)"
      and y: "(if returned then Some (polled @ polls) else if \<not> recurring then Some (polled @ polls)
        else run env waits ts n' k' flags' (polled @ polls)) = Some y"
      using 1(2) by (auto simp: bind_eq_Some_conv)
    show ?case
    proof (intro impI)
      assume len: "length flags = length ts" and rec: "\<exists>t \<in> set ts. \<not> is_once t"
      note d = rawCycle_due [OF c len] rawCycle_waits [OF c len]
      show "\<exists>j. \<not> waits j"
      proof (cases returned)
        case False
        then have "run env waits ts n' k' flags' (polled @ polls) = Some y" "length flags' = length ts"
          using d(1) rec y due_after(2) [OF len] by auto
        then show ?thesis using 1(1) rec by blast
      qed (use d(2) in blast)
    qed
  qed
  then show False using assms by blast
qed

text \<open>
  What the goroutine has polled when it returns: the configured transactions in order and then
  the recurring ones over and over, cut off where a wait was interrupted.
\<close>

lemma rawRun_schedule:
  assumes "rawRun env waits c = Some polls"
  shows "\<exists>m. prefix (map fst polls)
        (rwTransactions (cfRaw c) @ concat (replicate m (filter (\<lambda>t. \<not> is_once t) (rwTransactions (cfRaw c))))) \<and>
      ((\<forall>t \<in> set (rwTransactions (cfRaw c)). is_once t) \<longrightarrow> map fst polls = rwTransactions (cfRaw c))"
  using rawRunFrom_prefix [of env waits "rwTransactions (cfRaw c)" 0 0
      "replicate (length (rwTransactions (cfRaw c))) False" "[]" polls] assms
  by (auto simp: rawRun_def Let_def due_fresh)

section \<open>Properties\<close>

text \<open>
  C18. A transaction's response is decoded and emitted exactly as the sniffer emits a field
  group: \<open>emitRawTransaction\<close> is the sniffer's \<open>emitFields\<close> on the sniffer's form of the fields,
  with the COB-ID among the resource attributes and the transaction's name as the context.
\<close>
theorem emitRawTransaction_emitFields:
  "emitRawTransaction now c t f metrics logs =
     emitFields now (buildSnifferFields (rrFields (txResponse t))) (Data f) (transactionResource c f)
       [(''canopen.raw.transaction'', AnyString (txName t))]
       (''canopen raw transaction '' @ txName t @ '' decoded'') metrics logs"
  by (rule emitRawTransaction_fields)

text \<open>
  C15. A poll of a transaction with valid match conditions claims exactly the first frame that
  answers it - standard, on the response COB-ID, with every matched byte equal - and no other
  frame before or after; it succeeds if and only if there is one, it sends only its request,
  and it leaves no transaction active. Frames not claimed are left to the sniffer.
\<close>
theorem pollOnce_claims_first:
  assumes "matches_wf (rrMatch (txResponse t))"
  shows "\<exists>p'. pollOnce p t None fs False None =
      Some (p', [rawRequest t], first_only (responds t) fs, if \<exists>f \<in> set fs. responds t f then [None] else []) \<and>
    rpActive p' = None \<and> rpTransactions p' = rpTransactions p"
proof -
  let ?a = "length (rpHeap p)"
  let ?p = "p\<lparr>rpHeap := rpHeap p @ [\<lparr>arTransaction = t, arResult = []\<rparr>], rpActive := Some ?a\<rparr>"
  have "rawFrames ?p fs =
    Some (if \<exists>f \<in> set fs. responds t f
          then ?p\<lparr>rpHeap := (rpHeap ?p)[?a := \<lparr>arTransaction = t, arResult = [True]\<rparr>], rpActive := None\<rparr> else ?p,
          first_only (responds t) fs)"
    using rawFrames_active [of ?p ?a fs] assms by (simp add: nth_append)
  then show ?thesis
    by (simp add: pollOnce_def rawBegin_def rawEnd_def rawSelect_def Let_def)
qed

theorem pollOnce_claims_first_witness:
  "\<exists>p'. pollOnce (newRawTransactionPoller sample_receiver_config) (sample_transaction ''a'' 1) None
      [\<lparr>ID = 0x3F1, Extended = False, Data = [2, 0]\<rparr>, \<lparr>ID = 0x3F1, Extended = False, Data = [1, 7]\<rparr>,
       \<lparr>ID = 0x3F1, Extended = False, Data = [1, 8]\<rparr>] False None =
    Some (p', [\<lparr>ID = 0x3F0, Extended = False, Data = [1]\<rparr>], [False, True, False], [None])"
proof -
  let ?fs = "[\<lparr>ID = 0x3F1, Extended = False, Data = [2, 0]\<rparr>, \<lparr>ID = 0x3F1, Extended = False, Data = [1, 7]\<rparr>,
       \<lparr>ID = 0x3F1, Extended = False, Data = [1, 8]\<rparr>] :: Frame list"
  have m: "matches_wf (rrMatch (txResponse (sample_transaction ''a'' 1)))"
    by (simp add: matches_wf_def sample_transaction_def)
  have r: "responds (sample_transaction ''a'' 1) f \<longleftrightarrow> \<not> Extended f \<and> ID f = 0x3F1 \<and> 0 < length (Data f) \<and> Data f ! 0 = 1" for f
    by (auto simp: responds_def sample_transaction_def all_hold_def match_holds_def)
  have "rawRequest (sample_transaction ''a'' 1) = \<lparr>ID = 0x3F0, Extended = False, Data = [1]\<rparr>"
    by (simp add: rawRequest_def sample_transaction_def)
  then show ?thesis
    using pollOnce_claims_first [OF m, of "newRawTransactionPoller sample_receiver_config" ?fs]
    by (auto simp: r first_only_Cons)
qed

text \<open>
  C17. A validated transaction in mode once is polled in at most \<open>MaxRetries + 1\<close> attempts, and
  every delay between them, the first included, is positive and within its maximum back-off.
\<close>
theorem rawPoll_bounded:
  assumes "transaction_wf t" "effectiveMode t = ''once''" "txBackoff t < 2 ^ 62" "txMaxBackoff t < 2 ^ 62"
  shows "\<exists>e ds. rawPoll env t = Some (end_of env (txRetry t) (txMaxRetries t) e, ds) \<and> 1 \<le> e \<and>
     e \<le> (if txRetry t then Suc (nat (the (txMaxRetries t))) else 1) \<and> length ds \<le> e \<and>
     (\<forall>k. 1 \<le> k \<longrightarrow> k < e \<longrightarrow> \<not> ends_at env (txRetry t) (txMaxRetries t) k) \<and>
     (\<forall>d \<in> set ds. 0 < d \<and> d \<le> rawMaxBackoff t)"
proof -
  have ok: "raw_settings_ok t" using assms by (simp add: raw_settings_ok_def)
  obtain m where m: "txRetry t \<longrightarrow> txMaxRetries t = Some m" "txRetry t \<longrightarrow> m = the (txMaxRetries t)"
    using assms(1,2) by (auto simp: transaction_wf_def retries_wf_def)
  obtain e ds where e: "rawPoll env t = Some (end_of env (txRetry t) (txMaxRetries t) e, ds)" "1 \<le> e"
      "e \<le> (if txRetry t then Suc (nat m) else 1)" "length ds \<le> e"
      "\<forall>k. 1 \<le> k \<longrightarrow> k < e \<longrightarrow> \<not> ends_at env (txRetry t) (txMaxRetries t) k"
    using raw_retry.loop_bounded [OF ok m(1), of env] unfolding rawPoll_loop by blast
  have "\<exists>k \<ge> 1. ends_at env (txRetry t) (txMaxRetries t) k"
    using limited_ends [OF m(1), of env] by (intro exI [of _ "if txRetry t then Suc (nat m) else 1"]) (simp split: if_splits)
  then have "\<forall>d \<in> set ds. 0 < d \<and> d \<le> rawMaxBackoff t"
    using raw_retry.loop_delays_capped [OF ok e(1) [unfolded rawPoll_loop]] by blast
  moreover have "e \<le> (if txRetry t then Suc (nat (the (txMaxRetries t))) else 1)"
    using e(3) m(2) by (simp split: if_splits)
  ultimately show ?thesis using e(1,2,4,5) by blast
qed

definition sample_retried :: RawTransactionConfig where
  "sample_retried = (sample_transaction ''a'' 1)\<lparr>txRetry := True, txBackoff := 120 * second, txMaxRetries := Some 1\<rparr>"

lemma sample_transaction_wf: "transaction_wf (sample_transaction name command) \<longleftrightarrow> name \<noteq> []"
  by (auto simp: sample_transaction_def transaction_wf_def effectiveMode_def retries_wf_def
      matches_wf_def fields_wf_def sample_response_field_def field_wf_def byte_type_def Valid_def metric_type_wf_def second_def)

theorem rawPoll_bounded_witness:
  "\<exists>e ds. rawPoll (\<lambda>n. \<lparr>atOk = False, atCancelled = False, atWaited = True\<rparr>) sample_retried = Some (e, ds) \<and>
     (\<forall>d \<in> set ds. d \<le> 60 * second)"
proof -
  have ok: "transaction_wf sample_retried" "effectiveMode sample_retried = ''once''"
    "txBackoff sample_retried < 2 ^ 62" "txMaxBackoff sample_retried < 2 ^ 62"
    using sample_transaction_wf [of "''a''" 1]
    by (simp_all add: sample_retried_def transaction_wf_def effectiveMode_def retries_wf_def sample_transaction_def second_def)
  have "rawMaxBackoff sample_retried = 60 * second"
    by (simp add: rawMaxBackoff_def sample_retried_def sample_transaction_def defaultRawTransactionMaxBackoff_def)
  then show ?thesis
    using rawPoll_bounded [OF ok, of "\<lambda>n. \<lparr>atOk = False, atCancelled = False, atWaited = True\<rparr>"] by auto
qed

definition silent_bus :: "nat \<Rightarrow> nat \<Rightarrow> attempt" where
  "silent_bus n k = \<lparr>atOk = False, atCancelled = False, atWaited = True\<rparr>"

text \<open>
  C16. With validated transactions whose retries are limited, the goroutine returns if and only
  if no transaction is recurring or some wait is interrupted: the polls themselves never keep
  it, and nothing but an interrupted wait ends a recurring schedule. It has then polled the
  configured transactions in order and after them the recurring ones over and over, cut off where
  the wait was interrupted; so a transaction in mode once is polled at most once, and without
  recurring transactions each is polled exactly once.
\<close>
theorem rawRun_returns:
  assumes "\<forall>t \<in> set (rwTransactions (cfRaw c)). transaction_wf t \<and> (txRetry t \<longrightarrow> txMaxRetries t \<noteq> None)"
  shows "(rawRun env waits c \<noteq> None \<longleftrightarrow>
       (\<forall>t \<in> set (rwTransactions (cfRaw c)). is_once t) \<or> (\<exists>k. \<not> waits k)) \<and>
     (case rawRun env waits c of
        None \<Rightarrow> True
      | Some polls \<Rightarrow>
          (\<exists>m. prefix (map fst polls)
            (rwTransactions (cfRaw c) @ concat (replicate m (filter (\<lambda>t. \<not> is_once t) (rwTransactions (cfRaw c)))))) \<and>
          ((\<forall>t \<in> set (rwTransactions (cfRaw c)). is_once t) \<longrightarrow> map fst polls = rwTransactions (cfRaw c)))"
proof -
  let ?ts = "rwTransactions (cfRaw c)"
  have polls: "\<forall>t \<in> set ?ts. \<forall>n. rawPoll (env n) t \<noteq> None"
  proof (intro ballI allI)
    fix t n assume "t \<in> set ?ts"
    then obtain m where "txRetry t \<longrightarrow> txMaxRetries t = Some m" using assms by auto
    then show "rawPoll (env n) t \<noteq> None"
      using raw_retry.loop_returns [OF _ limited_ends] unfolding rawPoll_loop by (fastforce split: if_splits)
  qed
  let ?flags = "replicate (length ?ts) False"
  have run: "rawRun env waits c = rawRunFrom env waits ?ts 0 0 ?flags []" by (simp add: rawRun_def Let_def)
  have "rawRun env waits c \<noteq> None" if "\<forall>t \<in> set ?ts. is_once t"
    unfolding run using rawRunFrom_once [OF polls _ that, of ?flags] by simp
  moreover have "rawRun env waits c \<noteq> None" if "\<not> waits k" for k
    unfolding run using rawRunFrom_returns [OF polls, of ?flags waits k 0] that by simp
  moreover have "rawRun env waits c = None" if "\<exists>t \<in> set ?ts. \<not> is_once t" "\<forall>k. waits k"
    unfolding run using rawRunFrom_never [OF that(1) _ that(2), of ?flags] by simp
  ultimately have "rawRun env waits c \<noteq> None \<longleftrightarrow> (\<forall>t \<in> set ?ts. is_once t) \<or> (\<exists>k. \<not> waits k)" by metis
  then show ?thesis using rawRun_schedule [of env waits c] by (auto split: option.split)
qed

theorem rawRun_returns_witness:
  "map_option (map fst) (rawRun silent_bus (\<lambda>k. True) sample_receiver_config) =
     Some [sample_transaction ''a'' 1, sample_transaction ''b'' 2]"
proof -
  have ts: "rwTransactions (cfRaw sample_receiver_config) = [sample_transaction ''a'' 1, sample_transaction ''b'' 2]"
    by (simp add: sample_receiver_config_def)
  have once: "\<forall>t \<in> set (rwTransactions (cfRaw sample_receiver_config)). is_once t"
    unfolding ts by (simp add: is_once_def effectiveMode_def sample_transaction_def)
  have "\<forall>t \<in> set (rwTransactions (cfRaw sample_receiver_config)). transaction_wf t \<and> (txRetry t \<longrightarrow> txMaxRetries t \<noteq> None)"
    using sample_transaction_wf [of "''a''" 1] sample_transaction_wf [of "''b''" 2]
    unfolding ts by simp (simp add: sample_transaction_def)
  from rawRun_returns [OF this, of silent_bus "\<lambda>k. True"] show ?thesis
    using once ts by (auto split: option.splits)
qed

end
