(* ===== verification/SdoPoller.thy ===== *)
theory SdoPoller
  imports Retry Configuration Transport SdoObserver "HOL-Library.Monad_Syntax"
begin

unbundle bit_operations_syntax

section \<open>sdo_poller.go: active SDO uploads\<close>

text \<open>
  Models sdo_poller.go. One poll goroutine sets \<open>active\<close>, sends the request and waits; the
  dispatch goroutine calls \<open>handleFrame\<close> for every frame; both under the poller's mutex, so
  each operation is one step. The result channel has capacity one: it is a list of at most one
  result. A frame that \<open>handleFrame\<close> sends with \<open>sendPollFrame\<close> is returned; the receiver sends
  it (Receiver). Since there is one poll goroutine, the struct \<open>active\<close> points to is reachable
  from the poller alone while the poll waits. Which ready case the final select takes is
  left open: its possible results are a list.
\<close>

definition defaultSDOPollTimeout :: int where "defaultSDOPollTimeout = 2 * second"
definition defaultSDOPollBackoff :: int where "defaultSDOPollBackoff = second"
definition defaultSDOPollMaxBackoff :: int where "defaultSDOPollMaxBackoff = 60 * second"

datatype poll_error_value =
    SendRequest go_error | TimedOut int | ContextDone go_error | SDOAbort u16 u8 | UnexpectedSegmentToggle

record sdoPollResult =
  prOk :: bool
  prErr :: "poll_error_value option"

record activeSDOPoll =
  apObject :: SDOObjectConfig
  apServerCobID :: u32
  apSegment :: bool
  apToggle :: bool
  apResult :: "sdoPollResult list"

record sdoPoller =
  spObjects :: "SDOObjectConfig list"
  spChannels :: "u8 \<rightharpoonup> SDOChannelConfig"
  spActive :: "activeSDOPoll option"

definition newSDOPoller :: "Config \<Rightarrow> sdoPoller" where
  "newSDOPoller cfg =
     \<lparr>spObjects = poObjects (sdPoll (cfSDO cfg)),
      spChannels = foldl (\<lambda>m channel. m(ccNodeID channel \<mapsto> channel)) Map.empty (snChannels (sdSniff (cfSDO cfg))),
      spActive = None\<rparr>"

subsection \<open>One poll\<close>

definition pollChannel :: "sdoPoller \<Rightarrow> SDOObjectConfig \<Rightarrow> SDOChannelConfig" where
  "pollChannel p object =
     (case spChannels p (ocNodeID object) of
        Some channel \<Rightarrow> channel
      | None \<Rightarrow> \<lparr>ccNodeID = ocNodeID object, ccClientToServerCobID = 0x600 + ucast (ocNodeID object),
                 ccServerToClientCobID = 0x580 + ucast (ocNodeID object)\<rparr>)"

definition pollRequest :: "sdoPoller \<Rightarrow> SDOObjectConfig \<Rightarrow> Frame" where
  "pollRequest p object =
     \<lparr>ID = ccClientToServerCobID (pollChannel p object), Extended = False,
      Data = [0x40, ucast (ocIndex object), ucast (drop_bit 8 (ocIndex object)), ocSubIndex object, 0, 0, 0, 0]\<rparr>"

definition pollBegin :: "sdoPoller \<Rightarrow> SDOObjectConfig \<Rightarrow> sdoPoller" where
  "pollBegin p object = p\<lparr>spActive := Some
     \<lparr>apObject = object, apServerCobID = ccServerToClientCobID (pollChannel p object), apSegment = False,
      apToggle = False, apResult = []\<rparr>\<rparr>"

definition pollEnd :: "sdoPoller \<Rightarrow> sdoPoller" where
  "pollEnd p = p\<lparr>spActive := None\<rparr>"

text \<open>The results the select of \<open>poll\<close> may return; an empty list means it still waits.\<close>

definition pollSelect :: "sdoPoller \<Rightarrow> int \<Rightarrow> bool \<Rightarrow> go_error option \<Rightarrow> sdoPollResult list" where
  "pollSelect p configured expired ctxErr =
     (let timeout = (if configured = 0 then defaultSDOPollTimeout else configured)
      in (case spActive p of None \<Rightarrow> [] | Some active \<Rightarrow> apResult active) @
         (if expired then [\<lparr>prOk = False, prErr = Some (TimedOut timeout)\<rparr>] else []) @
         (case ctxErr of None \<Rightarrow> [] | Some e \<Rightarrow> [\<lparr>prOk = False, prErr = Some (ContextDone e)\<rparr>]))"

definition boolByte :: "bool \<Rightarrow> u8" where
  "boolByte value = (if value then 0x10 else 0)"

definition finishLocked :: "activeSDOPoll \<Rightarrow> bool \<Rightarrow> poll_error_value option \<Rightarrow> activeSDOPoll" where
  "finishLocked active ok err =
     (if apResult active = [] then active\<lparr>apResult := [\<lparr>prOk = ok, prErr = err\<rparr>]\<rparr> else active)"

definition frameIndex :: "bytes \<Rightarrow> u16" where
  "frameIndex data = ucast (data ! 1) OR push_bit 8 (ucast (data ! 2))"

definition segmentRequest :: "sdoPoller \<Rightarrow> activeSDOPoll \<Rightarrow> Frame" where
  "segmentRequest p active =
     \<lparr>ID = (case spChannels p (ocNodeID (apObject active)) of
              Some channel \<Rightarrow> ccClientToServerCobID channel
            | None \<Rightarrow> 0x600 + ucast (ocNodeID (apObject active))),
      Extended = False, Data = [0x60 OR boolByte (apToggle active), 0, 0, 0, 0, 0, 0, 0]\<rparr>"

definition sdoHandleFrame :: "sdoPoller \<Rightarrow> Frame \<Rightarrow> sdoPoller \<times> Frame option" where
  "sdoHandleFrame p frame =
     (case spActive p of
        None \<Rightarrow> (p, None)
      | Some active \<Rightarrow>
          if Extended frame \<or> ID frame \<noteq> apServerCobID active then (p, None)
          else
            let data = Data frame; object = apObject active
            in if length data = 0 then (p, None)
               else if data ! 0 = 0x80 then
                 (if length data < 4 then (p, None)
                  else if frameIndex data \<noteq> ocIndex object \<or> data ! 3 \<noteq> ocSubIndex object then (p, None)
                  else (p\<lparr>spActive := Some (finishLocked active False
                          (Some (SDOAbort (ocIndex object) (ocSubIndex object))))\<rparr>, None))
               else if \<not> apSegment active then
                 (if length data < 4 \<or> frameIndex data \<noteq> ocIndex object \<or> data ! 3 \<noteq> ocSubIndex object then (p, None)
                  else if data ! 0 AND 0x02 \<noteq> 0
                  then (p\<lparr>spActive := Some (finishLocked active True None)\<rparr>, None)
                  else
                    let active' = active\<lparr>apSegment := True, apToggle := False\<rparr>
                    in (p\<lparr>spActive := Some active'\<rparr>, Some (segmentRequest p active')))
               else
                 (if data ! 0 AND 0x10 \<noteq> boolByte (apToggle active)
                  then (p\<lparr>spActive := Some (finishLocked active False (Some UnexpectedSegmentToggle))\<rparr>, None)
                  else if data ! 0 AND 0x01 \<noteq> 0
                  then (p\<lparr>spActive := Some (finishLocked active True None)\<rparr>, None)
                  else
                    let active' = active\<lparr>apToggle := \<not> apToggle active\<rparr>
                    in (p\<lparr>spActive := Some active'\<rparr>, Some (segmentRequest p active'))))"

text \<open>Frames in a row, with the requests sent on the way.\<close>

primrec sdoHandleFrames :: "sdoPoller \<Rightarrow> Frame list \<Rightarrow> sdoPoller \<times> Frame list" where
  "sdoHandleFrames p [] = (p, [])"
| "sdoHandleFrames p (f # fs) =
     (case sdoHandleFrame p f of (p1, req) \<Rightarrow>
        (case sdoHandleFrames p1 fs of (p2, reqs) \<Rightarrow>
           (p2, (case req of None \<Rightarrow> reqs | Some r \<Rightarrow> r # reqs))))"

text \<open>\<open>poll\<close>: the request fails to be sent, or the frames \<open>fs\<close> arrive before the select.\<close>

definition sdoPoll ::
  "sdoPoller \<Rightarrow> int \<Rightarrow> SDOObjectConfig \<Rightarrow> go_error option \<Rightarrow> Frame list \<Rightarrow> bool \<Rightarrow> go_error option \<Rightarrow>
     sdoPoller \<times> Frame list \<times> sdoPollResult list" where
  "sdoPoll p timeout object sendErr fs expired ctxErr =
     (let p1 = pollBegin p object; request = pollRequest p object
      in case sendErr of
           Some err \<Rightarrow> (pollEnd p1, [request], [\<lparr>prOk = False, prErr = Some (SendRequest err)\<rparr>])
         | None \<Rightarrow>
             (case sdoHandleFrames p1 fs of (p2, reqs) \<Rightarrow>
                (pollEnd p2, request # reqs, pollSelect p2 timeout expired ctxErr)))"

subsection \<open>The loops\<close>

definition sdoFirstBackoff :: "SDOPollConfig \<Rightarrow> int" where
  "sdoFirstBackoff settings = (if poBackoff settings = 0 then defaultSDOPollBackoff else poBackoff settings)"

definition sdoMaxBackoff :: "SDOPollConfig \<Rightarrow> int" where
  "sdoMaxBackoff settings = (if poMaxBackoff settings = 0 then defaultSDOPollMaxBackoff else poMaxBackoff settings)"

definition pollUntilSuccess :: "(nat \<Rightarrow> attempt) \<Rightarrow> SDOPollConfig \<Rightarrow> (retry_end \<times> int list) option" where
  "pollUntilSuccess env settings =
     retryFrom env (poRetry settings) (poMaxRetries settings) (sdoMaxBackoff settings) 0 (sdoFirstBackoff settings) []"

text \<open>
  \<open>run\<close>: the polls made, with how each ended, until it returns. Poll \<open>n\<close> meets the world
  \<open>env n\<close>; \<open>waits k\<close> is the outcome of the wait after cycle \<open>k\<close>. None: it does not return.
\<close>

primrec pollAll ::
  "(nat \<Rightarrow> nat \<Rightarrow> attempt) \<Rightarrow> SDOPollConfig \<Rightarrow> nat \<Rightarrow> SDOObjectConfig list \<Rightarrow> (SDOObjectConfig \<times> retry_end) list option" where
  "pollAll env settings n [] = Some []"
| "pollAll env settings n (object # objects) =
     do {
       (how, waited) \<leftarrow> pollUntilSuccess (env n) settings;
       rest \<leftarrow> pollAll env settings (Suc n) objects;
       Some ((object, how) # rest)
     }"

partial_function (option) sdoRunFrom ::
  "(nat \<Rightarrow> nat \<Rightarrow> attempt) \<Rightarrow> (nat \<Rightarrow> bool) \<Rightarrow> SDOPollConfig \<Rightarrow> nat \<Rightarrow> nat \<Rightarrow> (SDOObjectConfig \<times> retry_end) list \<Rightarrow>
     (SDOObjectConfig \<times> retry_end) list option" where
  "sdoRunFrom env waits settings k n polled =
     Option.bind (pollAll env settings n (poObjects settings))
       (\<lambda>polls.
          if poMode settings \<noteq> ''interval'' then Some (polled @ polls)
          else if \<not> waits k then Some (polled @ polls)
          else sdoRunFrom env waits settings (Suc k) (n + length (poObjects settings)) (polled @ polls))"

definition sdoRun :: "(nat \<Rightarrow> nat \<Rightarrow> attempt) \<Rightarrow> (nat \<Rightarrow> bool) \<Rightarrow> Config \<Rightarrow> (SDOObjectConfig \<times> retry_end) list option" where
  "sdoRun env waits cfg = sdoRunFrom env waits (sdPoll (cfSDO cfg)) 0 0 []"

section \<open>A poll against a conforming server\<close>

definition server_frame :: "u32 \<Rightarrow> bytes \<Rightarrow> Frame" where
  "server_frame i data = \<lparr>ID = i, Extended = False, Data = data\<rparr>"

text \<open>The n-th segment request, with its toggle bit, and the answer of a segmented upload.\<close>

definition toggle_request :: "sdoPoller \<Rightarrow> SDOObjectConfig \<Rightarrow> bool \<Rightarrow> Frame" where
  "toggle_request p object t =
     \<lparr>ID = ccClientToServerCobID (pollChannel p object), Extended = False,
      Data = [0x60 OR boolByte t, 0, 0, 0, 0, 0, 0, 0]\<rparr>"

definition upload_answer :: "u16 \<Rightarrow> u8 \<Rightarrow> bytes \<Rightarrow> bytes \<Rightarrow> bytes list" where
  "upload_answer index subIndex size4 bs = (0x41 # address index subIndex @ size4) # segments False bs"

lemma segmentRequest_toggle:
  "segmentRequest p active = toggle_request p (apObject active) (apToggle active)"
  by (simp add: segmentRequest_def toggle_request_def pollChannel_def split: option.split)

lemma toggle_request_active [simp]: "toggle_request (p\<lparr>spActive := a\<rparr>) = toggle_request p"
  by (simp add: toggle_request_def pollChannel_def fun_eq_iff)

lemma toggle_bit_boolByte: "toggle_bit t = boolByte t"
  by (simp add: toggle_bit_def boolByte_def)

lemma segment_masks:
  "toggle_bit t AND 0x10 = boolByte t" "toggle_bit t \<noteq> 0x80" "toggle_bit t AND 1 = 0"
  "u \<le> 7 \<Longrightarrow> last_command t u AND 0x10 = boolByte t" "u \<le> 7 \<Longrightarrow> last_command t u AND 1 \<noteq> 0"
  "u \<le> 7 \<Longrightarrow> last_command t u \<noteq> 0x80"
proof -
  show "toggle_bit t AND 0x10 = boolByte t" "toggle_bit t \<noteq> 0x80" "toggle_bit t AND 1 = 0"
    by (simp_all add: toggle_bit_def boolByte_def)
  assume "u \<le> 7"
  then have "u \<in> {0, 1, 2, 3, 4, 5, 6, 7}" by auto
  then show "last_command t u AND 0x10 = boolByte t" "last_command t u AND 1 \<noteq> 0" "last_command t u \<noteq> 0x80"
    by (auto simp: last_command_def toggle_bit_def boolByte_def)
qed

text \<open>The requests between the segments alternate, starting from the toggle after the current one.\<close>

primrec alternating :: "(bool \<Rightarrow> 'a) \<Rightarrow> bool \<Rightarrow> nat \<Rightarrow> 'a list" where
  "alternating mk t 0 = []"
| "alternating mk t (Suc n) = mk t # alternating mk (\<not> t) n"

lemma segments_polled:
  assumes "spActive p = Some a" "apSegment a" "apToggle a = t" "apResult a = []"
  shows "\<exists>a'. sdoHandleFrames p (map (server_frame (apServerCobID a)) (segments t bs)) =
      (p\<lparr>spActive := Some a'\<rparr>, alternating (toggle_request p (apObject a)) (\<not> t) (length (segments t bs) - 1)) \<and>
    apResult a' = [\<lparr>prOk = True, prErr = None\<rparr>]"
  using assms
proof (induction t bs arbitrary: p a rule: segments.induct)
  case (1 t bs)
  show ?case
  proof (cases "length bs \<le> 7")
    case True
    then show ?thesis
      using "1.prems" segment_masks(4-6) [of "7 - length bs" t]
      by (intro exI [of _ "a\<lparr>apResult := [\<lparr>prOk = True, prErr = None\<rparr>]\<rparr>"])
        (simp add: segments.simps [of t bs] server_frame_def sdoHandleFrame_def last_segment_def finishLocked_def)
  next
    case False
    let ?a = "a\<lparr>apToggle := \<not> t\<rparr>"
    let ?p = "p\<lparr>spActive := Some ?a\<rparr>"
    have step: "sdoHandleFrame p (server_frame (apServerCobID a) (toggle_bit t # take 7 bs)) =
        (?p, Some (toggle_request p (apObject a) (\<not> t)))"
      using "1.prems" segment_masks(1-3) [of t]
      by (simp add: server_frame_def sdoHandleFrame_def segmentRequest_toggle)
    obtain a' where a': "sdoHandleFrames ?p (map (server_frame (apServerCobID ?a)) (segments (\<not> t) (drop 7 bs))) =
        (?p\<lparr>spActive := Some a'\<rparr>,
         alternating (toggle_request ?p (apObject ?a)) (\<not> \<not> t) (length (segments (\<not> t) (drop 7 bs)) - 1))"
      "apResult a' = [\<lparr>prOk = True, prErr = None\<rparr>]"
      using "1.IH" [OF False, of ?p ?a] "1.prems" by auto
    have len: "length (segments (\<not> t) (drop 7 bs)) = Suc (length (segments (\<not> t) (drop 7 bs)) - 1)"
      by (subst segments.simps, subst (2) segments.simps) simp
    have alt: "alternating mk (\<not> t) (length (segments (\<not> t) (drop 7 bs))) =
        mk (\<not> t) # alternating mk t (length (segments (\<not> t) (drop 7 bs)) - 1)" for mk :: "bool \<Rightarrow> Frame"
      by (subst len) simp
    have "segments t bs = (toggle_bit t # take 7 bs) # segments (\<not> t) (drop 7 bs)"
      using False by (simp add: segments.simps [of t bs])
    then show ?thesis
      using step a' alt by (intro exI [of _ a']) simp
  qed
qed

lemma frameIndex_address:
  "frameIndex (c # address index subIndex @ rest) = index" "(c # address index subIndex @ rest) ! 3 = subIndex"
  using objectAddress_address [of c index subIndex rest] by (simp_all add: frameIndex_def objectAddress_def)

lemma segmented_frames:
  assumes "length size4 = 4"
  shows "\<exists>a'. sdoHandleFrames (pollBegin p object)
      (map (server_frame (ccServerToClientCobID (pollChannel p object)))
        (upload_answer (ocIndex object) (ocSubIndex object) size4 bs)) =
    (p\<lparr>spActive := Some a'\<rparr>, alternating (toggle_request p object) False (length (segments False bs))) \<and>
    apResult a' = [\<lparr>prOk = True, prErr = None\<rparr>]"
proof -
  let ?S = "ccServerToClientCobID (pollChannel p object)"
  let ?a = "\<lparr>apObject = object, apServerCobID = ?S, apSegment = False, apToggle = False, apResult = []\<rparr>"
  let ?a1 = "?a\<lparr>apSegment := True\<rparr>"
  let ?f = "server_frame ?S (0x41 # address (ocIndex object) (ocSubIndex object) @ size4)"
  have step: "sdoHandleFrame (pollBegin p object) ?f =
      (p\<lparr>spActive := Some ?a1\<rparr>, Some (toggle_request p object False))"
    using frameIndex_address [of "0x41" "ocIndex object" "ocSubIndex object" size4]
    by (simp add: sdoHandleFrame_def pollBegin_def server_frame_def segmentRequest_toggle)
  obtain a' where a': "sdoHandleFrames (p\<lparr>spActive := Some ?a1\<rparr>) (map (server_frame ?S) (segments False bs)) =
      (p\<lparr>spActive := Some a'\<rparr>, alternating (toggle_request p object) True (length (segments False bs) - 1))"
    "apResult a' = [\<lparr>prOk = True, prErr = None\<rparr>]"
    using segments_polled [of "p\<lparr>spActive := Some ?a1\<rparr>" ?a1 False bs] by auto
  have len: "length (segments False bs) = Suc (length (segments False bs) - 1)"
    by (subst segments.simps, subst (2) segments.simps) simp
  have "alternating (toggle_request p object) False (length (segments False bs)) =
      toggle_request p object False # alternating (toggle_request p object) True (length (segments False bs) - 1)"
    by (subst len) simp
  then show ?thesis
    using step a' by (intro exI [of _ a']) (simp add: upload_answer_def)
qed

lemma poll_segmented:
  assumes "length size4 = 4"
  shows "sdoPoll p timeout object None
      (map (server_frame (ccServerToClientCobID (pollChannel p object)))
        (upload_answer (ocIndex object) (ocSubIndex object) size4 bs)) False None =
    (p\<lparr>spActive := None\<rparr>,
     pollRequest p object # alternating (toggle_request p object) False (length (segments False bs)),
     [\<lparr>prOk = True, prErr = None\<rparr>])"
proof -
  obtain a' where a': "sdoHandleFrames (pollBegin p object)
      (map (server_frame (ccServerToClientCobID (pollChannel p object)))
        (upload_answer (ocIndex object) (ocSubIndex object) size4 bs)) =
    (p\<lparr>spActive := Some a'\<rparr>, alternating (toggle_request p object) False (length (segments False bs)))"
    "apResult a' = [\<lparr>prOk = True, prErr = None\<rparr>]"
    using segmented_frames [OF assms, of p object bs] by blast
  then show ?thesis by (simp add: sdoPoll_def pollSelect_def pollEnd_def Let_def)
qed

section \<open>What a successful poll rests on\<close>

text \<open>The frame that answers the upload request, by the fields the poller looks at.\<close>

definition answers :: "u32 \<Rightarrow> SDOObjectConfig \<Rightarrow> Frame \<Rightarrow> bool" where
  "answers serverID object f \<longleftrightarrow> ID f = serverID \<and> \<not> Extended f \<and> 4 \<le> length (Data f) \<and> Data f ! 0 \<noteq> 0x80 \<and>
     frameIndex (Data f) = ocIndex object \<and> Data f ! 3 = ocSubIndex object"

definition aborts :: "u32 \<Rightarrow> SDOObjectConfig \<Rightarrow> Frame \<Rightarrow> bool" where
  "aborts serverID object f \<longleftrightarrow> ID f = serverID \<and> \<not> Extended f \<and> 4 \<le> length (Data f) \<and> Data f ! 0 = 0x80 \<and>
     frameIndex (Data f) = ocIndex object \<and> Data f ! 3 = ocSubIndex object"

text \<open>Why a result was buffered, by the frames seen so far.\<close>

definition explained :: "Frame set \<Rightarrow> u32 \<Rightarrow> SDOObjectConfig \<Rightarrow> sdoPollResult \<Rightarrow> bool" where
  "explained seen serverID object r =
     (case prErr r of
        None \<Rightarrow> prOk r \<and> (\<exists>f \<in> seen. answers serverID object f)
      | Some (SDOAbort i s) \<Rightarrow> \<not> prOk r \<and> i = ocIndex object \<and> s = ocSubIndex object \<and> (\<exists>f \<in> seen. aborts serverID object f)
      | Some UnexpectedSegmentToggle \<Rightarrow> \<not> prOk r \<and> (\<exists>f \<in> seen. answers serverID object f)
      | Some _ \<Rightarrow> False)"

definition poll_backed :: "Frame set \<Rightarrow> activeSDOPoll \<Rightarrow> bool" where
  "poll_backed seen a \<longleftrightarrow> length (apResult a) \<le> 1 \<and>
     list_all (explained seen (apServerCobID a) (apObject a)) (apResult a) \<and>
     (apSegment a \<longrightarrow> (\<exists>f \<in> seen. answers (apServerCobID a) (apObject a) f))"

lemma explained_mono: "explained seen s ob r \<Longrightarrow> explained (insert f seen) s ob r"
  by (auto simp: explained_def split: option.splits poll_error_value.splits)

lemma poll_backed_mono: "poll_backed seen a \<Longrightarrow> poll_backed (insert f seen) a"
  by (auto simp: poll_backed_def intro: list.pred_mono_strong explained_mono)

lemma poll_backed_finish:
  assumes "poll_backed seen a" "explained seen (apServerCobID a) (apObject a) \<lparr>prOk = ok, prErr = err\<rparr>"
  shows "poll_backed seen (finishLocked a ok err)" "apObject (finishLocked a ok err) = apObject a"
    "apServerCobID (finishLocked a ok err) = apServerCobID a" "apSegment (finishLocked a ok err) = apSegment a"
    "apResult a \<noteq> [] \<longrightarrow> apResult (finishLocked a ok err) = apResult a"
  using assms by (auto simp: poll_backed_def finishLocked_def)

definition keeps :: "Frame set \<Rightarrow> activeSDOPoll \<Rightarrow> sdoPoller \<Rightarrow> bool" where
  "keeps seen a p' \<longleftrightarrow> (\<exists>a'. spActive p' = Some a' \<and> apObject a' = apObject a \<and>
     apServerCobID a' = apServerCobID a \<and> poll_backed seen a' \<and> (apResult a \<noteq> [] \<longrightarrow> apResult a' = apResult a))"

lemma sdoHandleFrame_keeps:
  assumes "spActive p = Some a" "poll_backed seen a"
  shows "keeps (insert f seen) a (fst (sdoHandleFrame p f))"
proof -
  let ?seen = "insert f seen"
  have m: "poll_backed ?seen a" by (rule poll_backed_mono [OF assms(2)])
  have same: "keeps ?seen a p" using assms(1) m by (auto simp: keeps_def)
  have finish: "keeps ?seen a (p\<lparr>spActive := Some (finishLocked a ok err)\<rparr>)"
    if "explained ?seen (apServerCobID a) (apObject a) \<lparr>prOk = ok, prErr = err\<rparr>" for ok err
    using poll_backed_finish [OF m that] by (auto simp: keeps_def)
  have toggled: "keeps ?seen a (p\<lparr>spActive := Some (a\<lparr>apSegment := True, apToggle := t\<rparr>)\<rparr>)"
    if "\<exists>g \<in> ?seen. answers (apServerCobID a) (apObject a) g" for t
    using m that by (auto simp: keeps_def poll_backed_def)
  show ?thesis
  proof (cases "Extended f \<or> ID f \<noteq> apServerCobID a \<or> Data f = []")
    case True
    then show ?thesis using assms(1) same by (auto simp: sdoHandleFrame_def)
  next
    case False
    show ?thesis
    proof (cases "Data f ! 0 = 0x80 \<or> \<not> apSegment a")
      case True
      then show ?thesis
        using False assms(1) same finish [of False "Some (SDOAbort (ocIndex (apObject a)) (ocSubIndex (apObject a)))"]
          finish [of True None] toggled [of False]
        by (auto simp: sdoHandleFrame_def Let_def explained_def answers_def aborts_def)
    next
      case seg: False
      then obtain g where "g \<in> seen" "answers (apServerCobID a) (apObject a) g"
        using assms(2) by (auto simp: poll_backed_def)
      moreover have "a\<lparr>apSegment := True, apToggle := t\<rparr> = a\<lparr>apToggle := t\<rparr>" for t using seg by simp
      ultimately show ?thesis
        using seg False assms(1) finish [of True None] finish [of False "Some UnexpectedSegmentToggle"]
          toggled [of "\<not> apToggle a"]
        by (auto simp: sdoHandleFrame_def Let_def explained_def)
    qed
  qed
qed

lemma sdoHandleFrames_keeps:
  assumes "spActive p = Some a" "poll_backed seen a"
  shows "keeps (seen \<union> set fs) a (fst (sdoHandleFrames p fs))"
  using assms
proof (induction fs arbitrary: p a seen)
  case (Cons f fs)
  obtain a1 where a1: "spActive (fst (sdoHandleFrame p f)) = Some a1" "apObject a1 = apObject a"
    "apServerCobID a1 = apServerCobID a" "poll_backed (insert f seen) a1" "apResult a \<noteq> [] \<longrightarrow> apResult a1 = apResult a"
    using sdoHandleFrame_keeps [OF Cons.prems, of f] unfolding keeps_def by blast
  then show ?case
    using Cons.IH [OF a1(1,4)] by (auto simp: split_beta keeps_def)
qed (simp add: keeps_def)

lemma poll_active:
  shows "\<exists>a'. spActive (fst (sdoHandleFrames (pollBegin p object) fs)) = Some a' \<and> apObject a' = object \<and>
    apServerCobID a' = ccServerToClientCobID (pollChannel p object) \<and> poll_backed (set fs) a'"
  using sdoHandleFrames_keeps [of "pollBegin p object" _ "{}" fs] by (auto simp: pollBegin_def poll_backed_def keeps_def)

text \<open>The first result buffered stands: later frames change neither it nor the poll's outcome.\<close>

lemma sdoHandleFrames_append:
  "sdoHandleFrames p (fs @ gs) =
     (case sdoHandleFrames p fs of (p1, r1) \<Rightarrow> (case sdoHandleFrames p1 gs of (p2, r2) \<Rightarrow> (p2, r1 @ r2)))"
  by (induction fs arbitrary: p) (auto simp: split_beta split: option.split)

lemma first_result_stands:
  assumes "spActive p = Some a" "apResult a \<noteq> []"
  shows "\<exists>a'. spActive (fst (sdoHandleFrames p fs)) = Some a' \<and> apResult a' = apResult a"
  using assms
proof (induction fs arbitrary: p a)
  case (Cons f fs)
  have "\<exists>a1. spActive (fst (sdoHandleFrame p f)) = Some a1 \<and> apResult a1 = apResult a"
    using Cons.prems by (auto simp: sdoHandleFrame_def Let_def finishLocked_def)
  then obtain a1 where "spActive (fst (sdoHandleFrame p f)) = Some a1" "apResult a1 = apResult a" by blast
  then show ?case using Cons.IH [of "fst (sdoHandleFrame p f)" a1] Cons.prems by (auto simp: split_beta)
qed simp

text \<open>Frames that are not addressed to the poll change nothing.\<close>

definition addressed :: "u32 \<Rightarrow> Frame \<Rightarrow> bool" where
  "addressed i f \<longleftrightarrow> ID f = i \<and> \<not> Extended f"

lemma sdoHandleFrame_unaddressed:
  "spActive p = Some a \<Longrightarrow> \<not> addressed (apServerCobID a) f \<Longrightarrow> sdoHandleFrame p f = (p, None)"
  by (auto simp: sdoHandleFrame_def addressed_def)

lemma sdoHandleFrame_server:
  assumes "spActive p = Some a"
  shows "\<exists>a'. spActive (fst (sdoHandleFrame p f)) = Some a' \<and> apServerCobID a' = apServerCobID a"
  using assms by (auto simp: sdoHandleFrame_def Let_def finishLocked_def)

lemma sdoHandleFrames_filter:
  assumes "spActive p = Some a"
  shows "sdoHandleFrames p fs = sdoHandleFrames p (filter (addressed (apServerCobID a)) fs)"
  using assms
proof (induction fs arbitrary: p a)
  case (Cons f fs)
  obtain a' where a': "spActive (fst (sdoHandleFrame p f)) = Some a'" "apServerCobID a' = apServerCobID a"
    using sdoHandleFrame_server [OF Cons.prems] by blast
  show ?case
  proof (cases "addressed (apServerCobID a) f")
    case True
    then show ?thesis using Cons.IH [OF a'(1)] a'(2) by (simp add: split_beta split: option.split)
  next
    case False
    then show ?thesis
      using sdoHandleFrame_unaddressed [OF Cons.prems False] Cons.IH [OF Cons.prems] by simp
  qed
qed simp

section \<open>The loops\<close>

definition poll_settings_ok :: "SDOPollConfig \<Rightarrow> bool" where
  "poll_settings_ok s \<longleftrightarrow> retries_wf (poMode s) (poRetry s) (poBackoff s) (poMaxBackoff s) (poMaxRetries s) \<and>
     poBackoff s < 2 ^ 62 \<and> poMaxBackoff s < 2 ^ 62"

interpretation sdo_retry: retrying sdoFirstBackoff sdoMaxBackoff poRetry poMaxRetries poll_settings_ok
  by unfold_locales
    (auto simp: poll_settings_ok_def retries_wf_def sdoFirstBackoff_def sdoMaxBackoff_def defaultSDOPollBackoff_def
      defaultSDOPollMaxBackoff_def second_def)

lemma pollUntilSuccess_loop: "pollUntilSuccess env s = sdo_retry.loop env s"
  by (simp add: pollUntilSuccess_def sdo_retry.loop_def)

text \<open>Polls that all return: what a round and the loop over the rounds poll.\<close>

lemma pollAll_returns:
  assumes "\<forall>n. pollUntilSuccess (env n) s \<noteq> None"
  shows "\<exists>polls. pollAll env s n objects = Some polls \<and> map fst polls = objects"
proof (induction objects arbitrary: n)
  case (Cons object objects)
  obtain how waited where "pollUntilSuccess (env n) s = Some (how, waited)" using assms by fastforce
  then show ?case using Cons.IH [of "Suc n"] by auto
qed simp

lemma sdoRunFrom_waits:
  assumes "poMode s = ''interval''" "\<forall>n. pollUntilSuccess (env n) s \<noteq> None" "\<forall>j < m. waits (k + j)" "\<not> waits (k + m)"
  shows "\<exists>polls. sdoRunFrom env waits s k n polled = Some (polled @ polls) \<and>
    map fst polls = concat (replicate (Suc m) (poObjects s))"
  using assms(3,4)
proof (induction m arbitrary: k n polled)
  case 0
  obtain polls where "pollAll env s n (poObjects s) = Some polls" "map fst polls = poObjects s"
    using pollAll_returns [OF assms(2)] by blast
  then show ?case using 0 by (subst sdoRunFrom.simps) (simp add: assms(1))
next
  case (Suc m)
  obtain polls where polls: "pollAll env s n (poObjects s) = Some polls" "map fst polls = poObjects s"
    using pollAll_returns [OF assms(2)] by blast
  have "\<exists>more. sdoRunFrom env waits s (Suc k) (n + length (poObjects s)) (polled @ polls) = Some ((polled @ polls) @ more) \<and>
      map fst more = concat (replicate (Suc m) (poObjects s))"
    using Suc.prems by (intro Suc.IH) (auto dest: spec [of _ "Suc _"])
  then obtain more where "sdoRunFrom env waits s (Suc k) (n + length (poObjects s)) (polled @ polls) = Some (polled @ polls @ more)"
    "map fst more = concat (replicate (Suc m) (poObjects s))" by auto
  moreover have "waits k" using Suc.prems(1) by (auto dest: spec [of _ 0])
  ultimately show ?case
    using polls by (subst sdoRunFrom.simps) (auto simp: assms(1) intro!: exI [of _ "polls @ more"])
qed

lemma sdoRunFrom_forever:
  assumes "poMode s = ''interval''" "\<forall>j. waits (k + j)"
  shows "sdoRunFrom env waits s k n polled = None"
proof (rule ccontr)
  assume "sdoRunFrom env waits s k n polled \<noteq> None"
  then obtain y where "sdoRunFrom env waits s k n polled = Some y" by blast
  then have "poMode s = ''interval'' \<longrightarrow> (\<exists>j. \<not> waits (k + j))"
  proof (induction rule: sdoRunFrom.raw_induct [rotated, consumes 1])
    case (1 run env waits s k n polled y)
    show ?case
    proof (cases "waits k \<and> poMode s = ''interval''")
      case True
      then obtain polls where "run env waits s (Suc k) (n + length (poObjects s)) (polled @ polls) = Some y"
        using 1(2) by (auto simp: bind_eq_Some_conv)
      then have "\<exists>j. \<not> waits (Suc k + j)" using 1(1) True by blast
      then show ?thesis by (metis add_Suc_shift)
    next
      case False
      then show ?thesis by (metis add_0_right)
    qed
  qed
  then show False using assms by blast
qed

lemma poll_segmented_among:
  assumes "length size4 = 4"
    and "filter (addressed (ccServerToClientCobID (pollChannel p object))) fs =
      map (server_frame (ccServerToClientCobID (pollChannel p object)))
        (upload_answer (ocIndex object) (ocSubIndex object) size4 bs)"
  shows "sdoPoll p timeout object None fs False None =
    (p\<lparr>spActive := None\<rparr>,
     pollRequest p object # alternating (toggle_request p object) False (length (segments False bs)),
     [\<lparr>prOk = True, prErr = None\<rparr>])"
proof -
  have "sdoHandleFrames (pollBegin p object) fs = sdoHandleFrames (pollBegin p object)
      (filter (addressed (ccServerToClientCobID (pollChannel p object))) fs)"
    using sdoHandleFrames_filter [of "pollBegin p object" _ fs] by (simp add: pollBegin_def)
  then show ?thesis
    using poll_segmented [OF assms(1), of p timeout object bs]
    by (simp add: sdoPoll_def assms(2) Let_def)
qed

lemma poll_explained:
  assumes "sdoPoll p timeout object sendErr fs expired ctxErr = (p', sent, results)" "r \<in> set results"
  shows "spActive p' = None \<and>
    (case prErr r of
       Some (SendRequest e) \<Rightarrow> \<not> prOk r \<and> sendErr = Some e
     | Some (TimedOut t) \<Rightarrow> \<not> prOk r \<and> expired \<and> t = (if timeout = 0 then defaultSDOPollTimeout else timeout)
     | Some (ContextDone e) \<Rightarrow> \<not> prOk r \<and> ctxErr = Some e
     | _ \<Rightarrow> sendErr = None \<and> explained (set fs) (ccServerToClientCobID (pollChannel p object)) object r)"
proof (cases sendErr)
  case None
  obtain a' where a': "spActive (fst (sdoHandleFrames (pollBegin p object) fs)) = Some a'" "apObject a' = object"
    "apServerCobID a' = ccServerToClientCobID (pollChannel p object)" "poll_backed (set fs) a'"
    using poll_active by blast
  have results: "results = pollSelect (fst (sdoHandleFrames (pollBegin p object) fs)) timeout expired ctxErr"
    and p': "p' = pollEnd (fst (sdoHandleFrames (pollBegin p object) fs))"
    using assms(1) None by (auto simp: sdoPoll_def Let_def split: prod.splits)
  consider "r \<in> set (apResult a')" | "expired" "r = \<lparr>prOk = False, prErr = Some (TimedOut (if timeout = 0 then defaultSDOPollTimeout else timeout))\<rparr>"
    | e where "ctxErr = Some e" "r = \<lparr>prOk = False, prErr = Some (ContextDone e)\<rparr>"
    using assms(2) a'(1) by (auto simp: results pollSelect_def Let_def split: if_splits option.splits)
  then show ?thesis
  proof cases
    case 1
    then have "explained (set fs) (ccServerToClientCobID (pollChannel p object)) object r"
      using a'(2-4) by (auto simp: poll_backed_def list_all_iff)
    then show ?thesis
      using None by (auto simp: p' pollEnd_def explained_def split: option.splits poll_error_value.splits)
  qed (auto simp: p' pollEnd_def)
next
  case (Some e)
  then show ?thesis using assms by (auto simp: sdoPoll_def Let_def pollEnd_def)
qed

subsection \<open>The attempts of the loop are polls\<close>

text \<open>
  What one attempt meets: the result of sending, the frames that arrive while it waits, whether its
  timer fires and whether the context ends meanwhile. \<open>poll_outcome\<close> says that an outcome in the
  retry loop's environment is one that \<open>sdoPoll\<close> may return on such an input.
\<close>

record poll_input =
  piSendErr :: "go_error option"
  piFrames :: "Frame list"
  piExpired :: bool
  piCtxErr :: "go_error option"

definition poll_outcome :: "sdoPoller \<Rightarrow> int \<Rightarrow> SDOObjectConfig \<Rightarrow> poll_input \<Rightarrow> attempt \<Rightarrow> bool" where
  "poll_outcome p timeout object i a \<longleftrightarrow>
     (case sdoPoll p timeout object (piSendErr i) (piFrames i) (piExpired i) (piCtxErr i) of
        (_, _, results) \<Rightarrow> list_ex (\<lambda>r. atOk a = prOk r) results) \<and>
     (piCtxErr i \<noteq> None \<longrightarrow> atCancelled a)"

text \<open>An attempt on which a conforming server's whole answer arrives in time.\<close>

definition answered :: "sdoPoller \<Rightarrow> SDOObjectConfig \<Rightarrow> bytes \<Rightarrow> bytes \<Rightarrow> poll_input \<Rightarrow> bool" where
  "answered p object size4 bs i \<longleftrightarrow> piSendErr i = None \<and> \<not> piExpired i \<and> piCtxErr i = None \<and>
     filter (addressed (ccServerToClientCobID (pollChannel p object))) (piFrames i) =
       map (server_frame (ccServerToClientCobID (pollChannel p object)))
         (upload_answer (ocIndex object) (ocSubIndex object) size4 bs)"

lemma answered_ok:
  assumes "length size4 = 4" "answered p object size4 bs i" "poll_outcome p timeout object i a"
  shows "atOk a"
  using assms(2,3) poll_segmented_among [OF assms(1), of p object "piFrames i" bs timeout]
  by (simp add: answered_def poll_outcome_def)

lemma outcome_ok_backed:
  assumes "poll_outcome p timeout object i a" "atOk a"
  shows "\<exists>f \<in> set (piFrames i). answers (ccServerToClientCobID (pollChannel p object)) object f"
proof -
  obtain p' sent results where poll: "sdoPoll p timeout object (piSendErr i) (piFrames i) (piExpired i) (piCtxErr i) = (p', sent, results)"
    by (metis prod_cases3)
  then obtain r where r: "r \<in> set results" "prOk r"
    using assms by (auto simp: poll_outcome_def list_ex_iff)
  show ?thesis
    using poll_explained [OF poll r(1)] r(2) by (auto simp: explained_def split: option.splits poll_error_value.splits)
qed

text \<open>Whether the settings allow a k-th attempt.\<close>

definition allows_attempt :: "SDOPollConfig \<Rightarrow> nat \<Rightarrow> bool" where
  "allows_attempt s k \<longleftrightarrow> 1 \<le> k \<and> (k = 1 \<or> poRetry s \<and> (case poMaxRetries s of None \<Rightarrow> True | Some m \<Rightarrow> int k - 1 \<le> m))"

lemma allowed_goes_on:
  "allows_attempt s k \<Longrightarrow> 1 \<le> j \<Longrightarrow> j < k \<Longrightarrow> poRetry s \<and> retriesRemain (poMaxRetries s) j"
  by (auto simp: allows_attempt_def retriesRemain_def split: option.splits)

section \<open>Properties\<close>

text \<open>
  C10. A segmented upload is polled to the end: if the frames on the server's COB-ID are the
  initiation and the segments a conforming server sends for \<open>bs\<close>, then whatever other traffic
  is between them the poll sends the upload request and one segment request per segment, their
  toggle bits alternating from 0, succeeds, and leaves no poll active.
\<close>
theorem Poll_segmented:
  assumes "length size4 = 4"
    and "filter (addressed (ccServerToClientCobID (pollChannel p object))) fs =
      map (server_frame (ccServerToClientCobID (pollChannel p object)))
        (upload_answer (ocIndex object) (ocSubIndex object) size4 bs)"
  shows "sdoPoll p timeout object None fs False None =
    (p\<lparr>spActive := None\<rparr>,
     pollRequest p object # alternating (toggle_request p object) False (length (segments False bs)),
     [\<lparr>prOk = True, prErr = None\<rparr>])"
  by (rule poll_segmented_among [OF assms])

definition sample_poll_object :: SDOObjectConfig where
  "sample_poll_object = \<lparr>ocNodeID = 5, ocIndex = 0x1008, ocSubIndex = 0, ocFields = [sample_response_field ''state'']\<rparr>"

definition sample_poller :: sdoPoller where
  "sample_poller = \<lparr>spObjects = [sample_poll_object], spChannels = Map.empty, spActive = None\<rparr>"

theorem Poll_segmented_witness:
  "sdoPoll sample_poller 0 sample_poll_object None
     [server_frame 0x585 [0x41, 0x08, 0x10, 0, 9, 0, 0, 0], server_frame 0x182 [1, 2],
      server_frame 0x585 [0, 1, 2, 3, 4, 5, 6, 7], server_frame 0x585 [0x1B, 8, 9, 0, 0, 0, 0, 0]] False None =
   (sample_poller,
    map (server_frame 0x605) [[0x40, 0x08, 0x10, 0, 0, 0, 0, 0], [0x60, 0, 0, 0, 0, 0, 0, 0], [0x70, 0, 0, 0, 0, 0, 0, 0]],
    [\<lparr>prOk = True, prErr = None\<rparr>])"
proof -
  have addr: "address 0x1008 0 = [0x08, 0x10, 0]" by (simp add: address_def)
  have segs: "segments False [1, 2, 3, 4, 5, 6, 7, 8, 9] = [[0, 1, 2, 3, 4, 5, 6, 7], [0x1B, 8, 9, 0, 0, 0, 0, 0]]"
    by (simp add: segments.simps last_segment_def last_command_def toggle_bit_def numeral_eq_Suc)
  show ?thesis
    using Poll_segmented [of "[9, 0, 0, 0]" sample_poller sample_poll_object
      "[server_frame 0x585 [0x41, 0x08, 0x10, 0, 9, 0, 0, 0], server_frame 0x182 [1, 2],
      server_frame 0x585 [0, 1, 2, 3, 4, 5, 6, 7], server_frame 0x585 [0x1B, 8, 9, 0, 0, 0, 0, 0]]"
      "[1, 2, 3, 4, 5, 6, 7, 8, 9]" 0]
    by (simp add: sample_poller_def sample_poll_object_def pollChannel_def addressed_def server_frame_def
        upload_answer_def addr segs pollRequest_def toggle_request_def boolByte_def)
qed

text \<open>
  C11. Why a poll ends the way it does, for every result it may return: success only after a
  frame on the server's COB-ID that names the polled object and does not abort; an abort error
  only after an abort of that object; a toggle error only after the upload was initiated; the
  time-out, context and send errors only when the timer fired, the context was done and the
  send failed. In every case no poll is left active.
\<close>
theorem Poll_explained:
  assumes "sdoPoll p timeout object sendErr fs expired ctxErr = (p', sent, results)" "r \<in> set results"
  shows "spActive p' = None \<and>
    (case prErr r of
       Some (SendRequest e) \<Rightarrow> \<not> prOk r \<and> sendErr = Some e
     | Some (TimedOut t) \<Rightarrow> \<not> prOk r \<and> expired \<and> t = (if timeout = 0 then defaultSDOPollTimeout else timeout)
     | Some (ContextDone e) \<Rightarrow> \<not> prOk r \<and> ctxErr = Some e
     | _ \<Rightarrow> sendErr = None \<and> explained (set fs) (ccServerToClientCobID (pollChannel p object)) object r)"
  by (rule poll_explained [OF assms])

theorem Poll_explained_witness:
  "explained {server_frame 0x585 [0x80, 0x08, 0x10, 0, 0, 0, 2, 6]} 0x585 sample_poll_object
     \<lparr>prOk = False, prErr = Some (SDOAbort 0x1008 0)\<rparr>"
proof -
  have "sdoPoll sample_poller 0 sample_poll_object None [server_frame 0x585 [0x80, 0x08, 0x10, 0, 0, 0, 2, 6]] False None =
    (sample_poller, [pollRequest sample_poller sample_poll_object],
     [\<lparr>prOk = False, prErr = Some (SDOAbort 0x1008 0)\<rparr>])"
    by (simp add: sdoPoll_def pollBegin_def pollEnd_def pollSelect_def sdoHandleFrame_def frameIndex_def finishLocked_def
        sample_poller_def sample_poll_object_def server_frame_def pollChannel_def Let_def)
  from Poll_explained [OF this, of "\<lparr>prOk = False, prErr = Some (SDOAbort 0x1008 0)\<rparr>"]
  show ?thesis by (simp add: pollChannel_def sample_poller_def sample_poll_object_def)
qed

text \<open>
  \<open>pollUntilSuccess\<close> returns exactly when some attempt ends it - it succeeds, the context
  is done, retries are off or used up, or the wait is interrupted - and then at the first such
  attempt, after waiting the delays of the doubling schedule; else it never returns.
\<close>
lemma pollUntilSuccess_total:
  "pollUntilSuccess env s =
     (if \<exists>k \<ge> 1. ends_at env (poRetry s) (poMaxRetries s) k
      then let e = LEAST k. 1 \<le> k \<and> ends_at env (poRetry s) (poMaxRetries s) k
           in Some (end_of env (poRetry s) (poMaxRetries s) e,
                    delays (sdoMaxBackoff s) (sdoFirstBackoff s)
                      (e - 1 + waited_at_end env (poRetry s) (poMaxRetries s) e))
      else None)"
  unfolding pollUntilSuccess_loop by (rule sdo_retry.loop_total)

text \<open>
  C13. A validated poll in mode once terminates whatever the bus does: it returns after at most
  \<open>MaxRetries + 1\<close> attempts (one when retries are off), at the first attempt that ends it, and
  delay \<open>i\<close> is the first back-off, then the back-off doubled \<open>i\<close> times and capped.
\<close>
theorem pollUntilSuccess_bounded:
  assumes "poll_wf s" "poMode s = ''once''" "poBackoff s < 2 ^ 62" "poMaxBackoff s < 2 ^ 62"
  shows "\<exists>e ds. pollUntilSuccess env s = Some (end_of env (poRetry s) (poMaxRetries s) e, ds) \<and> 1 \<le> e \<and>
     e \<le> (if poRetry s then Suc (nat (the (poMaxRetries s))) else 1) \<and> length ds \<le> e \<and>
     (\<forall>k. 1 \<le> k \<longrightarrow> k < e \<longrightarrow> \<not> ends_at env (poRetry s) (poMaxRetries s) k) \<and>
     (\<forall>i < length ds. ds ! i = (if i = 0 then sdoFirstBackoff s else min (sdoMaxBackoff s) (2 ^ i * sdoFirstBackoff s)))"
proof -
  have ok: "poll_settings_ok s" using assms by (simp add: poll_settings_ok_def poll_wf_def)
  obtain m where m: "poRetry s \<longrightarrow> poMaxRetries s = Some m" "poRetry s \<longrightarrow> m = the (poMaxRetries s)"
    using assms(1,2) by (auto simp: poll_wf_def retries_wf_def)
  obtain e ds where e: "pollUntilSuccess env s = Some (end_of env (poRetry s) (poMaxRetries s) e, ds)" "1 \<le> e"
      "e \<le> (if poRetry s then Suc (nat m) else 1)" "length ds \<le> e"
      "\<forall>k. 1 \<le> k \<longrightarrow> k < e \<longrightarrow> \<not> ends_at env (poRetry s) (poMaxRetries s) k"
    using sdo_retry.loop_bounded [OF ok m(1), of env] unfolding pollUntilSuccess_loop by blast
  have "\<exists>k \<ge> 1. ends_at env (poRetry s) (poMaxRetries s) k"
    using limited_ends [OF m(1), of env] by (intro exI [of _ "if poRetry s then Suc (nat m) else 1"]) (simp split: if_splits)
  then have "\<forall>i < length ds. ds ! i =
      (if i = 0 then sdoFirstBackoff s else min (sdoMaxBackoff s) (2 ^ i * sdoFirstBackoff s))"
    using sdo_retry.loop_delays [OF ok e(1) [unfolded pollUntilSuccess_loop]] by blast
  moreover have "e \<le> (if poRetry s then Suc (nat (the (poMaxRetries s))) else 1)"
    using e(3) m(2) by (simp split: if_splits)
  ultimately show ?thesis using e(1,2,4,5) by blast
qed

definition sample_poll_settings :: SDOPollConfig where
  "sample_poll_settings = zeroPoll\<lparr>poMode := ''once'', poRetry := True, poMaxRetries := Some 2, poObjects := []\<rparr>"

theorem pollUntilSuccess_bounded_witness:
  "\<exists>e ds. pollUntilSuccess (\<lambda>n. \<lparr>atOk = False, atCancelled = False, atWaited = True\<rparr>) sample_poll_settings =
     Some (end_of (\<lambda>n. \<lparr>atOk = False, atCancelled = False, atWaited = True\<rparr>) True (Some 2) e, ds) \<and> e \<le> 3"
proof -
  have s: "poRetry sample_poll_settings = True" "poMaxRetries sample_poll_settings = Some 2"
    "poMode sample_poll_settings = ''once''" "poBackoff sample_poll_settings < 2 ^ 62"
    "poMaxBackoff sample_poll_settings < 2 ^ 62"
    by (simp_all add: sample_poll_settings_def zeroPoll_def)
  have "poll_wf sample_poll_settings"
    by (simp add: poll_wf_def retries_wf_def sample_poll_settings_def zeroPoll_def objects_wf_def)
  from pollUntilSuccess_bounded [OF this s(3-5), of "\<lambda>n. \<lparr>atOk = False, atCancelled = False, atWaited = True\<rparr>"]
  show ?thesis unfolding s by force
qed

text \<open>
  C14. The poll goroutine polls the configured objects in order: in a validated mode once each
  object exactly once, and then it returns whatever the bus does; in mode interval with bounded
  retries one round per uninterrupted wait and one more, and it returns only if a wait is
  interrupted.
\<close>
theorem sdoRun_rounds:
  assumes "poll_wf (sdPoll (cfSDO c))"
    and "poMode (sdPoll (cfSDO c)) = ''interval'' \<longrightarrow> poRetry (sdPoll (cfSDO c)) \<longrightarrow> poMaxRetries (sdPoll (cfSDO c)) \<noteq> None"
  shows "map_option (map fst) (sdoRun env waits c) =
     (let objects = poObjects (sdPoll (cfSDO c))
      in if poMode (sdPoll (cfSDO c)) = ''once'' then Some objects
         else if \<exists>m. \<not> waits m then Some (concat (replicate (Suc (LEAST m. \<not> waits m)) objects))
         else None)"
proof -
  let ?s = "sdPoll (cfSDO c)"
  have mode: "poMode ?s = ''once'' \<or> poMode ?s = ''interval''" using assms(1) by (auto simp: poll_wf_def)
  obtain m where "poRetry ?s \<longrightarrow> poMaxRetries ?s = Some m"
    using assms mode by (auto simp: poll_wf_def retries_wf_def)
  then have returns: "\<forall>n. pollUntilSuccess (env n) ?s \<noteq> None"
    using sdo_retry.loop_returns [OF _ limited_ends] unfolding pollUntilSuccess_loop by (fastforce split: if_splits)
  have never: "\<forall>j < (LEAST m. \<not> waits m). waits (0 + j)" using not_less_Least by auto
  consider "poMode ?s = ''once''" | "poMode ?s = ''interval''" "\<forall>m. waits m" | m where "poMode ?s = ''interval''" "\<not> waits m"
    using mode by blast
  then show ?thesis
  proof cases
    case 1
    then show ?thesis
      using pollAll_returns [OF returns, of 0 "poObjects ?s"]
      by (auto simp: sdoRun_def sdoRunFrom.simps [of env waits ?s])
  next
    case 2
    then show ?thesis using sdoRunFrom_forever [of ?s waits 0 env 0 "[]"] by (simp add: sdoRun_def)
  next
    case 3
    have "\<not> waits (0 + (LEAST m. \<not> waits m))" using LeastI [of "\<lambda>m. \<not> waits m"] 3 by simp
    from sdoRunFrom_waits [OF 3(1) returns never this, of 0 "[]"] show ?thesis
      using 3 by (auto simp: sdoRun_def)
  qed
qed

theorem sdoRun_rounds_witness:
  "map_option (map fst) (sdoRun (\<lambda>n k. \<lparr>atOk = False, atCancelled = False, atWaited = True\<rparr>) (\<lambda>n. True)
     (createDefaultConfig\<lparr>cfSDO := (cfSDO createDefaultConfig)\<lparr>sdPoll := sample_poll_settings\<lparr>poObjects := [sample_poll_object]\<rparr>\<rparr>\<rparr>)) =
   Some [sample_poll_object]"
proof -
  let ?c = "createDefaultConfig\<lparr>cfSDO := (cfSDO createDefaultConfig)\<lparr>sdPoll := sample_poll_settings\<lparr>poObjects := [sample_poll_object]\<rparr>\<rparr>\<rparr>"
  have "poll_wf (sdPoll (cfSDO ?c))" "poMode (sdPoll (cfSDO ?c)) = ''once''"
    "poObjects (sdPoll (cfSDO ?c)) = [sample_poll_object]"
    by (simp_all add: poll_wf_def retries_wf_def sample_poll_settings_def zeroPoll_def objects_wf_def
        sample_poll_object_def fields_wf_def sample_response_field_def field_wf_def byte_type_def Valid_def metric_type_wf_def)
  with sdoRun_rounds [of ?c "\<lambda>n k. \<lparr>atOk = False, atCancelled = False, atWaited = True\<rparr>" "\<lambda>n. True"]
  show ?thesis by (simp add: Let_def)
qed

text \<open>
  C12. An object that is answered is read. Let the attempts be polls of the object on whatever
  frames, timers and errors they meet. If in one of the attempts the settings allow a conforming
  server's answer arrives, and no wait before it is interrupted, then the loop ends with success,
  not later than that attempt, and at the attempt of its success a frame that names the object
  and does not abort did arrive.
\<close>
theorem answered_poll_succeeds:
  assumes "length size4 = 4" "\<forall>n \<ge> 1. poll_outcome p (poTimeout s) object (ins n) (env n)"
    and "allows_attempt s k" "answered p object size4 bs (ins k)"
    and "\<forall>j. 1 \<le> j \<longrightarrow> j < k \<longrightarrow> \<not> atCancelled (env j) \<and> atWaited (env j)"
  shows "\<exists>e ds. pollUntilSuccess env s = Some (Succeeded e, ds) \<and> 1 \<le> e \<and> e \<le> k \<and>
    (\<forall>j. 1 \<le> j \<longrightarrow> j < e \<longrightarrow> \<not> atOk (env j)) \<and>
    (\<exists>f \<in> set (piFrames (ins e)). answers (ccServerToClientCobID (pollChannel p object)) object f)"
proof -
  let ?ends = "ends_at env (poRetry s) (poMaxRetries s)"
  define e where "e = (LEAST j. 1 \<le> j \<and> ?ends j)"
  have k: "1 \<le> k" "atOk (env k)"
    using assms(3) answered_ok [OF assms(1,4), of "poTimeout s" "env k"] assms(2) by (auto simp: allows_attempt_def)
  then have some: "\<exists>j \<ge> 1. ?ends j" by (auto simp: ends_at_def)
  note end_ = retryFrom_first_end [OF some, folded e_def]
  have e: "e \<le> k" unfolding e_def by (rule Least_le) (use k in \<open>simp add: ends_at_def\<close>)
  have ok: "atOk (env e)"
  proof (cases "e = k")
    case False
    then have "e < k" using e by simp
    then show ?thesis
      using end_(3) allowed_goes_on [OF assms(3) end_(2)] assms(5) end_(2) by (auto simp: ends_at_def)
  qed (use k in simp)
  then have "pollUntilSuccess env s = Some (Succeeded e, delays (sdoMaxBackoff s) (sdoFirstBackoff s)
      (e - 1 + waited_at_end env (poRetry s) (poMaxRetries s) e))"
    unfolding pollUntilSuccess_def end_(1) by (simp add: end_of_def)
  moreover have "\<forall>j. 1 \<le> j \<longrightarrow> j < e \<longrightarrow> \<not> atOk (env j)" using end_(4) by (auto simp: ends_at_def)
  moreover have "\<exists>f \<in> set (piFrames (ins e)). answers (ccServerToClientCobID (pollChannel p object)) object f"
    using outcome_ok_backed [OF _ ok] assms(2) end_(2) by blast
  ultimately show ?thesis using e end_(2) by blast
qed

text \<open>A server that stays silent once and then answers.\<close>

definition slow_server :: "nat \<Rightarrow> poll_input" where
  "slow_server n =
     (if n = 1 then \<lparr>piSendErr = None, piFrames = [], piExpired = True, piCtxErr = None\<rparr>
      else \<lparr>piSendErr = None, piFrames = map (server_frame 0x585) (upload_answer 0x1008 0 [2, 0, 0, 0] [7, 8]),
            piExpired = False, piCtxErr = None\<rparr>)"

theorem answered_poll_succeeds_witness:
  "\<exists>e ds. pollUntilSuccess (\<lambda>n. \<lparr>atOk = (n \<noteq> 1), atCancelled = False, atWaited = True\<rparr>) sample_poll_settings = Some (Succeeded e, ds) \<and>
     e \<le> 2"
proof -
  let ?env = "\<lambda>n. \<lparr>atOk = (n \<noteq> 1), atCancelled = False, atWaited = True\<rparr>"
  have id: "ccServerToClientCobID (pollChannel sample_poller sample_poll_object) = 0x585"
    by (simp add: pollChannel_def sample_poller_def sample_poll_object_def)
  have "filter (addressed 0x585) (map (server_frame 0x585) ds) = map (server_frame 0x585) ds" for ds
    by (induction ds) (simp_all add: addressed_def server_frame_def)
  then have ans: "answered sample_poller sample_poll_object [2, 0, 0, 0] [7, 8] (slow_server n)" if "n \<noteq> 1" for n
    using that by (simp add: answered_def id slow_server_def) (simp add: sample_poll_object_def)
  have "poll_outcome sample_poller (poTimeout sample_poll_settings) sample_poll_object (slow_server n) (?env n)" for n
  proof (cases "n = 1")
    case True
    then show ?thesis
      by (simp add: poll_outcome_def slow_server_def sdoPoll_def pollSelect_def pollBegin_def Let_def)
  next
    case False
    then show ?thesis
      using poll_segmented_among [of "[2, 0, 0, 0]" sample_poller sample_poll_object "piFrames (slow_server n)" "[7, 8]"] ans
      by (simp add: answered_def poll_outcome_def)
  qed
  moreover have "allows_attempt sample_poll_settings 2"
    by (simp add: allows_attempt_def sample_poll_settings_def zeroPoll_def)
  ultimately show ?thesis
    using answered_poll_succeeds [of "[2, 0, 0, 0]" sample_poller sample_poll_settings sample_poll_object slow_server ?env 2 "[7, 8]"] ans
    by auto
qed

section \<open>Findings\<close>

text \<open>Any command specifier is taken for the answer to the request, here the download initiation 0x23.\<close>

lemma any_specifier_accepted:
  "sdoPoll sample_poller 0 sample_poll_object None [server_frame 0x585 [0x23, 0x08, 0x10, 0, 0, 0, 0, 0]] False None =
    (sample_poller, [pollRequest sample_poller sample_poll_object], [\<lparr>prOk = True, prErr = None\<rparr>])"
  by (simp add: sdoPoll_def pollBegin_def pollEnd_def pollSelect_def sdoHandleFrame_def frameIndex_def finishLocked_def
      sample_poller_def sample_poll_object_def server_frame_def pollChannel_def Let_def)

text \<open>The default cap of one minute does not bound a first back-off of two.\<close>

lemma first_delay_uncapped:
  fixes s :: SDOPollConfig
  assumes "s = sample_poll_settings\<lparr>poBackoff := 120 * second, poMaxRetries := Some 1\<rparr>"
  shows "poll_wf s" "sdoMaxBackoff s = 60 * second"
    "pollUntilSuccess (\<lambda>n. \<lparr>atOk = False, atCancelled = False, atWaited = True\<rparr>) s = Some (GaveUp 2, [120 * second])"
  unfolding assms
  by (simp_all add: sample_poll_settings_def zeroPoll_def poll_wf_def retries_wf_def objects_wf_def second_def
      sdoMaxBackoff_def defaultSDOPollMaxBackoff_def pollUntilSuccess_def sdoFirstBackoff_def retriesRemain_def
      retryFrom.simps Let_def)

end
