(* ===== verification/Receiver.thy ===== *)
theory Receiver
  imports RawPoller SdoPoller
begin

section \<open>receiver.go: one connection, one dispatch loop\<close>

text \<open>
  Models the \<open>canopenReceiver\<close> of receiver.go. A consumer and the connection are known by whether
  they are nil; \<open>sync.Once\<close> values are flags. Delivering a batch to a consumer is an output, as
  is a frame given to the connection; the results of \<open>Dial\<close>, \<open>Recv\<close> and of the wait for the
  goroutines are arguments. Each critical section of \<open>buildersMu\<close> is one step. One iteration of
  the dispatch loop is one definition and, in \<open>step\<close>, one step, although it passes through several
  critical sections one after the other; theory Interleaving cuts it into these.
  A call reads the clock once, as \<open>now\<close>. The outer option is None when the code panics.
\<close>

datatype start_error = OpenFailed string go_error

record canopenReceiver =
  rcCfg :: Config
  rcMetricsConsumer :: bool
  rcLogsConsumer :: bool
  rcSniff :: Sniffer
  rcMetricsBuilder :: MetricsBuilder
  rcLogsBuilder :: LogsBuilder
  rcConn :: bool
  rcClosed :: bool
  rcCancel :: bool
  rcCancelled :: bool
  rcPoller :: "sdoPoller option"
  rcRawPoller :: "rawTransactionPoller option"
  rcStartOnce :: bool
  rcShutdownOnce :: bool
  rcStartErr :: "start_error option"

definition newCanopenReceiver :: "Config \<Rightarrow> canopenReceiver" where
  "newCanopenReceiver c =
     \<lparr>rcCfg = c, rcMetricsConsumer = False, rcLogsConsumer = False, rcSniff = NewSniffer (buildSnifferConfig c),
      rcMetricsBuilder = NewMetricsBuilder, rcLogsBuilder = NewLogsBuilder, rcConn = False, rcClosed = False,
      rcCancel = False, rcCancelled = False, rcPoller = None, rcRawPoller = None, rcStartOnce = False,
      rcShutdownOnce = False, rcStartErr = None\<rparr>"

record emission =
  outSent :: "Frame list"
  outMetrics :: "ResourceMetrics list option"
  outLogs :: "ResourceLogs list option"

definition silent :: emission where
  "silent = \<lparr>outSent = [], outMetrics = None, outLogs = None\<rparr>"

subsection \<open>Builders\<close>

definition metricsIfEnabled :: "canopenReceiver \<Rightarrow> MetricsBuilder option" where
  "metricsIfEnabled r = (if cfMetricsEnabled (rcCfg r) then Some (rcMetricsBuilder r) else None)"

definition logsIfEnabled :: "canopenReceiver \<Rightarrow> LogsBuilder option" where
  "logsIfEnabled r = (if cfLogsEnabled (rcCfg r) then Some (rcLogsBuilder r) else None)"

text \<open>The builders the pointers lead to after a call.\<close>

definition storeBuilders :: "canopenReceiver \<Rightarrow> MetricsBuilder option \<Rightarrow> LogsBuilder option \<Rightarrow> canopenReceiver" where
  "storeBuilders r metrics logs =
     r\<lparr>rcMetricsBuilder := (case metrics of Some b \<Rightarrow> b | None \<Rightarrow> rcMetricsBuilder r),
       rcLogsBuilder := (case logs of Some b \<Rightarrow> b | None \<Rightarrow> rcLogsBuilder r)\<rparr>"

definition flushMetrics :: "canopenReceiver \<Rightarrow> ResourceMetrics list option \<times> canopenReceiver" where
  "flushMetrics r =
     (if \<not> rcMetricsConsumer r then (None, r)
      else if MetricsEmpty (rcMetricsBuilder r) then (None, r)
      else (case MetricsEmit (rcMetricsBuilder r) of (md, b) \<Rightarrow> (Some md, r\<lparr>rcMetricsBuilder := b\<rparr>)))"

definition flushLogs :: "canopenReceiver \<Rightarrow> ResourceLogs list option \<times> canopenReceiver" where
  "flushLogs r =
     (if \<not> rcLogsConsumer r then (None, r)
      else if LogsEmpty (rcLogsBuilder r) then (None, r)
      else (case LogsEmit (rcLogsBuilder r) of (ld, b) \<Rightarrow> (Some ld, r\<lparr>rcLogsBuilder := b\<rparr>)))"

subsection \<open>Frames\<close>

text \<open>The critical section around \<open>r.sniff.HandleFrame\<close>.\<close>

definition sniffFrame :: "int \<Rightarrow> canopenReceiver \<Rightarrow> Frame \<Rightarrow> canopenReceiver option" where
  "sniffFrame now r f =
     do {
       (s, ms, ls) \<leftarrow> HandleFrame now (rcSniff r) f (metricsIfEnabled r) (logsIfEnabled r);
       Some (storeBuilders (r\<lparr>rcSniff := s\<rparr>) ms ls)
     }"

definition sendFrame :: "(Frame \<Rightarrow> go_error option) \<Rightarrow> Frame \<Rightarrow> go_error option" where
  "sendFrame connSend f = connSend f"

definition sendPollFrame ::
  "int \<Rightarrow> (Frame \<Rightarrow> go_error option) \<Rightarrow> canopenReceiver \<Rightarrow> Frame \<Rightarrow> (canopenReceiver \<times> go_error option) option" where
  "sendPollFrame now connSend r f = do { r1 \<leftarrow> sniffFrame now r f; Some (r1, sendFrame connSend f) }"

text \<open>The three parts of an iteration of \<open>dispatchLoop\<close> that a received frame goes through.\<close>

definition dispatchPoller ::
  "int \<Rightarrow> (Frame \<Rightarrow> go_error option) \<Rightarrow> canopenReceiver \<Rightarrow> Frame \<Rightarrow> (canopenReceiver \<times> Frame list) option" where
  "dispatchPoller now connSend r f =
     (case rcPoller r of
        None \<Rightarrow> Some (r, [])
      | Some p \<Rightarrow>
          (case sdoHandleFrame p f of
             (p1, None) \<Rightarrow> Some (r\<lparr>rcPoller := Some p1\<rparr>, [])
           | (p1, Some request) \<Rightarrow> do {
               (r1, ignored) \<leftarrow> sendPollFrame now connSend (r\<lparr>rcPoller := Some p1\<rparr>) request;
               Some (r1, [request])
             }))"

definition dispatchRaw :: "int \<Rightarrow> canopenReceiver \<Rightarrow> Frame \<Rightarrow> (canopenReceiver \<times> bool) option" where
  "dispatchRaw now r f =
     (case rcRawPoller r of
        None \<Rightarrow> Some (r, False)
      | Some p \<Rightarrow> do {
          (p1, ms, ls, response) \<leftarrow> rawHandleFrame now (rcCfg r) p f (metricsIfEnabled r) (logsIfEnabled r);
          Some (storeBuilders (r\<lparr>rcRawPoller := Some p1\<rparr>) ms ls, response)
        })"

definition dispatchFrame ::
  "int \<Rightarrow> (Frame \<Rightarrow> go_error option) \<Rightarrow> canopenReceiver \<Rightarrow> Frame \<Rightarrow> (canopenReceiver \<times> emission) option" where
  "dispatchFrame now connSend r f =
     do {
       (r1, sent) \<leftarrow> dispatchPoller now connSend r f;
       (r2, transactionResponse) \<leftarrow> dispatchRaw now r1 f;
       r3 \<leftarrow> (if \<not> transactionResponse then sniffFrame now r2 f else Some r2);
       (case flushMetrics r3 of (md, r4) \<Rightarrow>
         (case flushLogs r4 of (ld, r5) \<Rightarrow> Some (r5, \<lparr>outSent = sent, outMetrics = md, outLogs = ld\<rparr>)))
     }"

text \<open>
  The branches for a failed \<open>Recv\<close>: whether the loop returns, else whether it logs a warning.
  The errors are compared by identity, so a wrapped error is neither of the two.
\<close>

datatype recv_action = Return | Continue bool

definition recvFailed :: "go_error option \<Rightarrow> go_error \<Rightarrow> recv_action" where
  "recvFailed ctxErr err =
     (if ctxErr \<noteq> None then Return
      else if err = DeadlineExceeded then Continue False
      else if err = ErrClosed then Return
      else Continue True)"

datatype iteration = CtxDone | RecvErr "go_error option" go_error | Received int Frame

record loop_state =
  lsReceiver :: canopenReceiver
  lsOutputs :: "emission list"
  lsWarnings :: nat
  lsReturned :: bool

text \<open>\<open>dispatchLoop\<close> over what its iterations meet; it waits for the next when they run out.\<close>

fun dispatchLoop :: "(Frame \<Rightarrow> go_error option) \<Rightarrow> loop_state \<Rightarrow> iteration list \<Rightarrow> loop_state option" where
  "dispatchLoop connSend l [] = Some l"
| "dispatchLoop connSend l (CtxDone # its) = Some (l\<lparr>lsReturned := True\<rparr>)"
| "dispatchLoop connSend l (RecvErr ctxErr err # its) =
     (case recvFailed ctxErr err of
        Return \<Rightarrow> Some (l\<lparr>lsReturned := True\<rparr>)
      | Continue warn \<Rightarrow> dispatchLoop connSend (l\<lparr>lsWarnings := lsWarnings l + (if warn then 1 else 0)\<rparr>) its)"
| "dispatchLoop connSend l (Received now f # its) =
     do {
       (r, out) \<leftarrow> dispatchFrame now connSend (lsReceiver l) f;
       dispatchLoop connSend (l\<lparr>lsReceiver := r, lsOutputs := lsOutputs l @ [out]\<rparr>) its
     }"

subsection \<open>Start and shutdown\<close>

text \<open>\<open>dialErr\<close> is the error of \<open>Dial\<close>, None when it returns a connection.\<close>

definition doStart :: "go_error option \<Rightarrow> canopenReceiver \<Rightarrow> canopenReceiver \<times> start_error option" where
  "doStart dialErr r =
     (case dialErr of
        Some err \<Rightarrow> (r, Some (OpenFailed (cfInterface (rcCfg r)) err))
      | None \<Rightarrow>
          (r\<lparr>rcConn := True, rcCancel := True,
             rcPoller := (if length (poObjects (sdPoll (cfSDO (rcCfg r)))) > 0
               then Some (newSDOPoller (rcCfg r)) else rcPoller r),
             rcRawPoller := (if length (rwTransactions (cfRaw (rcCfg r))) > 0
               then Some (newRawTransactionPoller (rcCfg r)) else rcRawPoller r)\<rparr>, None))"

definition Start :: "go_error option \<Rightarrow> canopenReceiver \<Rightarrow> canopenReceiver \<times> start_error option" where
  "Start dialErr r =
     (let r1 = (if rcStartOnce r then r
                else case doStart dialErr r of (r', err) \<Rightarrow> r'\<lparr>rcStartErr := err, rcStartOnce := True\<rparr>)
      in (r1, rcStartErr r1))"

text \<open>\<open>waitErr\<close> is the context's error if it is done before the goroutines are.\<close>

definition doShutdown :: "go_error option \<Rightarrow> canopenReceiver \<Rightarrow> canopenReceiver \<times> emission \<times> go_error option" where
  "doShutdown waitErr r =
     (let r1 = r\<lparr>rcCancelled := (rcCancelled r \<or> rcCancel r), rcClosed := (rcClosed r \<or> rcConn r)\<rparr>
      in case waitErr of
           Some err \<Rightarrow> (r1, silent, Some err)
         | None \<Rightarrow>
             (case flushMetrics r1 of (md, r2) \<Rightarrow>
               (case flushLogs r2 of (ld, r3) \<Rightarrow> (r3, \<lparr>outSent = [], outMetrics = md, outLogs = ld\<rparr>, None))))"

definition Shutdown :: "go_error option \<Rightarrow> canopenReceiver \<Rightarrow> canopenReceiver \<times> emission \<times> go_error option" where
  "Shutdown waitErr r =
     (if rcShutdownOnce r then (r, silent, None)
      else case doShutdown waitErr r of (r1, out, err) \<Rightarrow> (r1\<lparr>rcShutdownOnce := True\<rparr>, out, err))"

subsection \<open>The goroutines together\<close>

text \<open>
  A step of the running receiver: an iteration of the dispatch loop, or a critical section of
  one of the two polling goroutines. The trace keeps for each step the state it was taken in.
\<close>

datatype event =
    Dispatched int Frame
  | PollBegan SDOObjectConfig
  | PollSent int
  | PollEnded
  | RawBegan RawTransactionConfig
  | RawSent RawTransactionConfig
  | RawEnded nat

inductive step ::
  "(Frame \<Rightarrow> go_error option) \<Rightarrow> canopenReceiver \<Rightarrow> event \<Rightarrow> emission \<Rightarrow> canopenReceiver \<Rightarrow> bool" for connSend where
  dispatched: "dispatchFrame now connSend r f = Some (r', out) \<Longrightarrow> step connSend r (Dispatched now f) out r'"
| poll_began: "rcPoller r = Some p \<Longrightarrow> spActive p = None \<Longrightarrow> object \<in> set (spObjects p) \<Longrightarrow>
     step connSend r (PollBegan object) silent (r\<lparr>rcPoller := Some (pollBegin p object)\<rparr>)"
| poll_sent: "rcPoller r = Some p \<Longrightarrow> spActive p = Some a \<Longrightarrow>
     sendPollFrame now connSend r (pollRequest p (apObject a)) = Some (r', err) \<Longrightarrow>
     step connSend r (PollSent now) (silent\<lparr>outSent := [pollRequest p (apObject a)]\<rparr>) r'"
| poll_ended: "rcPoller r = Some p \<Longrightarrow> step connSend r PollEnded silent (r\<lparr>rcPoller := Some (pollEnd p)\<rparr>)"
| raw_began: "rcRawPoller r = Some p \<Longrightarrow> rpActive p = None \<Longrightarrow> t \<in> set (rpTransactions p) \<Longrightarrow>
     step connSend r (RawBegan t) silent (r\<lparr>rcRawPoller := Some (fst (rawBegin p t))\<rparr>)"
| raw_sent: "rcRawPoller r = Some p \<Longrightarrow> t \<in> set (rpTransactions p) \<Longrightarrow>
     step connSend r (RawSent t) (silent\<lparr>outSent := [rawRequest t]\<rparr>) r"
| raw_ended: "rcRawPoller r = Some p \<Longrightarrow> a < length (rpHeap p) \<Longrightarrow>
     step connSend r (RawEnded a) silent (r\<lparr>rcRawPoller := Some (rawEnd p a)\<rparr>)"

type_synonym trace = "(canopenReceiver \<times> event \<times> emission) list"

inductive runs ::
  "(Frame \<Rightarrow> go_error option) \<Rightarrow> canopenReceiver \<Rightarrow> trace \<Rightarrow> canopenReceiver \<Rightarrow> bool" for connSend r where
  start: "runs connSend r [] r"
| more: "runs connSend r tr r1 \<Longrightarrow> step connSend r1 ev out r2 \<Longrightarrow> runs connSend r (tr @ [(r1, ev, out)]) r2"

inductive_cases dispatchedE: "step connSend r (Dispatched now f) out r'"
inductive_cases poll_sentE: "step connSend r (PollSent now) out r'"
inductive_simps step_simps:
  "step connSend r (PollBegan object) out r'" "step connSend r PollEnded out r'"
  "step connSend r (RawBegan t) out r'" "step connSend r (RawSent t) out r'" "step connSend r (RawEnded a) out r'"

section \<open>Builders behind a switch\<close>

lemma addPoints_ok:
  assumes "mb_good mb" "kinds_ok K mb" "\<forall>p \<in> set ps. mpKind p = K (mpName p)"
  shows "\<exists>mb'. addPoints now (if e then Some mb else None) ps = Some (if e then Some mb' else None) \<and>
    mb_good mb' \<and> kinds_ok K mb' \<and>
    mb_items mb' = mset (map (metric_item now) (if e then ps else [])) + mb_items mb \<and> (\<not> e \<longrightarrow> mb' = mb)"
proof (cases e)
  case True
  then show ?thesis using add_all_kinds [OF assms, of now] by (auto simp: addPoints_def)
next
  case False
  then show ?thesis using assms by (auto simp: addPoints_def)
qed

lemma addRecords_ok:
  assumes "lb_good lb"
  shows "\<exists>lb'. addRecords now (if e then Some lb else None) rs = Some (if e then Some lb' else None) \<and>
    lb_good lb' \<and> lb_items lb' = mset (map (log_item now) (if e then rs else [])) + lb_items lb \<and>
    (\<not> e \<longrightarrow> lb' = lb)"
proof (cases e)
  case True
  then show ?thesis using logs_add_all_total [OF assms, of now rs] by (auto simp: addRecords_def)
next
  case False
  then show ?thesis using assms by (auto simp: addRecords_def)
qed

lemma flushMetrics_flush:
  "flushMetrics r = (case metrics.flush (rcMetricsConsumer r) (rcMetricsBuilder r) of (md, b) \<Rightarrow> (md, r\<lparr>rcMetricsBuilder := b\<rparr>))"
  by (simp add: flushMetrics_def metrics.flush_def split: prod.split)

lemma flushLogs_flush:
  "flushLogs r = (case logs.flush (rcLogsConsumer r) (rcLogsBuilder r) of (ld, b) \<Rightarrow> (ld, r\<lparr>rcLogsBuilder := b\<rparr>))"
  by (simp add: flushLogs_def logs.flush_def split: prod.split)

section \<open>The receiver's invariant\<close>

definition builders_ok :: "(string \<Rightarrow> MetricKind) \<Rightarrow> canopenReceiver \<Rightarrow> bool" where
  "builders_ok K r \<longleftrightarrow> mb_good (rcMetricsBuilder r) \<and> kinds_ok K (rcMetricsBuilder r) \<and> lb_good (rcLogsBuilder r)"

definition raw_poller_ok :: "canopenReceiver \<Rightarrow> bool" where
  "raw_poller_ok r \<longleftrightarrow> (\<forall>p. rcRawPoller r = Some p \<longrightarrow>
     rpTransactions p = rwTransactions (cfRaw (rcCfg r)) \<and>
     (\<forall>a \<in> set (rpHeap p). arTransaction a \<in> set (rwTransactions (cfRaw (rcCfg r)))) \<and>
     (\<forall>a. rpActive p = Some a \<longrightarrow> a < length (rpHeap p)))"

definition config_good :: "(string \<Rightarrow> MetricKind) \<Rightarrow> Config \<Rightarrow> bool" where
  "config_good K c \<longleftrightarrow> config_wf c \<and> config_bounded c \<and> kinds_agree K c"

definition receiver_ok :: "(string \<Rightarrow> MetricKind) \<Rightarrow> nat \<Rightarrow> canopenReceiver \<Rightarrow> bool" where
  "receiver_ok K n r \<longleftrightarrow> config_good K (rcCfg r) \<and> cfg (rcSniff r) = buildSnifferConfig (rcCfg r) \<and>
     sniffer_ok K n (rcSniff r) \<and> builders_ok K r \<and> raw_poller_ok r"

lemma receiver_ok_mono:
  assumes "receiver_ok K n r" "n \<le> m"
  shows "receiver_ok K m r"
proof -
  have "data_bounded (7 * n) s \<Longrightarrow> data_bounded (7 * m) s" for s
    using assms(2) by (force simp: data_bounded_def)
  then show ?thesis using assms(1) by (auto simp: receiver_ok_def sniffer_ok_def)
qed

lemma receiver_ok_new:
  assumes "config_good K c"
  shows "receiver_ok K 0 (newCanopenReceiver c)"
proof -
  have "sniffer_ok K 0 (NewSniffer (buildSnifferConfig c))"
    using assms by (intro sniffer_ok_New build_config_ok) (simp_all add: config_good_def)
  then show ?thesis
    using assms metrics.good_fresh logs.good_fresh
    by (simp add: receiver_ok_def newCanopenReceiver_def builders_ok_def raw_poller_ok_def kinds_ok_def
        NewMetricsBuilder_def NewSniffer_def)
qed

text \<open>What is added to a builder that is switched off is nothing.\<close>

definition enabled_points :: "canopenReceiver \<Rightarrow> MetricPoint list \<Rightarrow> MetricPoint list" where
  "enabled_points r ps = (if cfMetricsEnabled (rcCfg r) then ps else [])"

definition enabled_records :: "canopenReceiver \<Rightarrow> LogRecord list \<Rightarrow> LogRecord list" where
  "enabled_records r rs = (if cfLogsEnabled (rcCfg r) then rs else [])"

text \<open>The builders of \<open>r'\<close> are those of \<open>r\<close> with the points and records added.\<close>

definition added ::
  "(string \<Rightarrow> MetricKind) \<Rightarrow> int \<Rightarrow> canopenReceiver \<Rightarrow> MetricPoint list \<Rightarrow> LogRecord list \<Rightarrow> MetricsBuilder \<Rightarrow> LogsBuilder \<Rightarrow> bool" where
  "added K now r ps rs mb lb \<longleftrightarrow> mb_good mb \<and> kinds_ok K mb \<and> lb_good lb \<and>
     mb_items mb = mset (map (metric_item now) (enabled_points r ps)) + mb_items (rcMetricsBuilder r) \<and>
     lb_items lb = mset (map (log_item now) (enabled_records r rs)) + lb_items (rcLogsBuilder r)"

lemma add_enabled:
  assumes "builders_ok K r" "\<forall>p \<in> set ps. mpKind p = K (mpName p)"
  shows "\<exists>ms ls mb lb.
    do { ms \<leftarrow> addPoints now (metricsIfEnabled r) ps; ls \<leftarrow> addRecords now (logsIfEnabled r) rs; Some (ms, ls) } = Some (ms, ls) \<and>
    added K now r ps rs mb lb \<and>
    (\<forall>r'. rcMetricsBuilder r' = rcMetricsBuilder r \<longrightarrow> rcLogsBuilder r' = rcLogsBuilder r \<longrightarrow>
       storeBuilders r' ms ls = r'\<lparr>rcMetricsBuilder := mb, rcLogsBuilder := lb\<rparr>)"
proof -
  let ?me = "cfMetricsEnabled (rcCfg r)" and ?le = "cfLogsEnabled (rcCfg r)"
  obtain mb where mb: "addPoints now (metricsIfEnabled r) ps = Some (if ?me then Some mb else None)"
      "mb_good mb" "kinds_ok K mb" "\<not> ?me \<longrightarrow> mb = rcMetricsBuilder r"
      "mb_items mb = mset (map (metric_item now) (enabled_points r ps)) + mb_items (rcMetricsBuilder r)"
    using addPoints_ok [OF _ _ assms(2), of "rcMetricsBuilder r" now ?me] assms(1)
    unfolding builders_ok_def metricsIfEnabled_def enabled_points_def by blast
  obtain lb where lb: "addRecords now (logsIfEnabled r) rs = Some (if ?le then Some lb else None)"
      "lb_good lb" "lb_items lb = mset (map (log_item now) (enabled_records r rs)) + lb_items (rcLogsBuilder r)"
      "\<not> ?le \<longrightarrow> lb = rcLogsBuilder r"
    using addRecords_ok [of "rcLogsBuilder r" now ?le rs] assms(1)
    unfolding builders_ok_def logsIfEnabled_def enabled_records_def by blast
  have "storeBuilders r' (if ?me then Some mb else None) (if ?le then Some lb else None) =
      r'\<lparr>rcMetricsBuilder := mb, rcLogsBuilder := lb\<rparr>"
    if "rcMetricsBuilder r' = rcMetricsBuilder r" "rcLogsBuilder r' = rcLogsBuilder r" for r'
    using mb(4) lb(4) that by (simp add: storeBuilders_def)
  moreover have "added K now r ps rs mb lb" using mb(2,3,5) lb(2,3) by (simp add: added_def)
  moreover have "do { ms \<leftarrow> addPoints now (metricsIfEnabled r) ps; ls \<leftarrow> addRecords now (logsIfEnabled r) rs; Some (ms, ls) } =
      Some (if ?me then Some mb else None, if ?le then Some lb else None)"
    by (simp add: mb(1) lb(1))
  ultimately show ?thesis by blast
qed

section \<open>What one frame adds\<close>

definition frame_points :: "Sniffer \<Rightarrow> Frame \<Rightarrow> MetricPoint list" where
  "frame_points s f = class_points s f (frame_class s f)"

definition frame_records :: "Sniffer \<Rightarrow> Frame \<Rightarrow> LogRecord list" where
  "frame_records s f = class_records s f (frame_class s f)"

lemma sniffFrame_ok:
  assumes "receiver_ok K n r" "n < 2 ^ 50" "length (Data f) < 2 ^ 50"
  shows "\<exists>mb lb. sniffFrame now r f =
      Some (r\<lparr>rcSniff := next_state (rcSniff r) f, rcMetricsBuilder := mb, rcLogsBuilder := lb\<rparr>) \<and>
    added K now r (frame_points (rcSniff r) f) (frame_records (rcSniff r) f) mb lb \<and>
    receiver_ok K (Suc n) (r\<lparr>rcSniff := next_state (rcSniff r) f, rcMetricsBuilder := mb, rcLogsBuilder := lb\<rparr>)"
proof -
  let ?s = "rcSniff r" and ?c = "frame_class (rcSniff r) f"
  have ok: "sniffer_ok K n ?s" "builders_ok K r" using assms(1) by (simp_all add: receiver_ok_def)
  have "\<forall>p \<in> set (class_points ?s f ?c). mpKind p = K (mpName p)" using class_points_kinds [OF ok(1)] by blast
  from add_enabled [OF ok(2) this, of now "class_records ?s f ?c"]
  obtain ms ls mb lb where a: "do { ms \<leftarrow> addPoints now (metricsIfEnabled r) (class_points ?s f ?c);
        ls \<leftarrow> addRecords now (logsIfEnabled r) (class_records ?s f ?c); Some (ms, ls) } = Some (ms, ls)"
    "added K now r (class_points ?s f ?c) (class_records ?s f ?c) mb lb"
    "\<And>r'. rcMetricsBuilder r' = rcMetricsBuilder r \<Longrightarrow> rcLogsBuilder r' = rcLogsBuilder r \<Longrightarrow>
       storeBuilders r' ms ls = r'\<lparr>rcMetricsBuilder := mb, rcLogsBuilder := lb\<rparr>" by blast
  have "HandleFrame now ?s f (metricsIfEnabled r) (logsIfEnabled r) =
      contribute now ?s f ?c (metricsIfEnabled r) (logsIfEnabled r)"
    by (rule HandleFrame_contribute [OF sniffer_ok_safe [OF ok(1) assms(2,3)]])
  also have "\<dots> = Some (next_state ?s f, ms, ls)"
    using a(1) by (auto simp: contribute_def next_state_def bind_eq_Some_conv)
  finally have "sniffFrame now r f = Some (r\<lparr>rcSniff := next_state ?s f, rcMetricsBuilder := mb, rcLogsBuilder := lb\<rparr>)"
    using a(3) [of "r\<lparr>rcSniff := next_state ?s f\<rparr>"] by (simp add: sniffFrame_def)
  moreover have "receiver_ok K (Suc n) (r\<lparr>rcSniff := next_state ?s f, rcMetricsBuilder := mb, rcLogsBuilder := lb\<rparr>)"
    using assms(1) a(2) sniffer_ok_class [OF ok(1), of f ?c]
    by (auto simp: receiver_ok_def builders_ok_def added_def raw_poller_ok_def next_state_def)
  ultimately show ?thesis using a(2) by (auto simp: frame_points_def frame_records_def)
qed

text \<open>The transaction that claims a frame, and what its response adds.\<close>

definition claimed_by :: "canopenReceiver \<Rightarrow> Frame \<Rightarrow> RawTransactionConfig option" where
  "claimed_by r f =
     (case rcRawPoller r of
        None \<Rightarrow> None
      | Some p \<Rightarrow> (case rpActive p of
          None \<Rightarrow> None
        | Some a \<Rightarrow> let t = arTransaction (rpHeap p ! a) in if responds t f then Some t else None))"

definition response_points :: "Config \<Rightarrow> RawTransactionConfig \<Rightarrow> Frame \<Rightarrow> MetricPoint list" where
  "response_points c t f = fieldPoints (transactionResource c f) (Data f) (buildSnifferFields (rrFields (txResponse t)))"

definition response_records :: "Config \<Rightarrow> RawTransactionConfig \<Rightarrow> Frame \<Rightarrow> LogRecord list" where
  "response_records c t f =
     fieldRecords (transactionResource c f) [(''canopen.raw.transaction'', AnyString (txName t))]
       (''canopen raw transaction '' @ txName t @ '' decoded'') (Data f) (buildSnifferFields (rrFields (txResponse t)))"

lemma transaction_fields:
  assumes "config_good K c" "t \<in> set (rwTransactions (cfRaw c))" "fd \<in> set (buildSnifferFields (rrFields (txResponse t)))"
  shows "fBitOffset fd < 2 ^ 62" "fByteLen fd < 2 ^ 62" "fEmitMetric fd \<longrightarrow> field_kind fd = K (fName fd)"
proof -
  obtain fc where "fc \<in> all_fields c" "fd = buildSnifferField fc"
    using assms(2,3) by (auto simp: buildSnifferFields_map all_fields_def)
  then show "fBitOffset fd < 2 ^ 62" "fByteLen fd < 2 ^ 62" "fEmitMetric fd \<longrightarrow> field_kind fd = K (fName fd)"
    using assms(1) by (auto simp: config_good_def config_bounded_def kinds_agree_def field_kind_def buildSnifferField_def)
qed

lemma response_kinds:
  assumes "config_good K c" "t \<in> set (rwTransactions (cfRaw c))" "p \<in> set (response_points c t f)"
  shows "mpKind p = K (mpName p)"
proof -
  obtain fd v where fd: "(fd, v) \<in> set (decoded (Data f) (buildSnifferFields (rrFields (txResponse t))))" "fEmitMetric fd"
    "p = fieldPoint (transactionResource c f) fd v"
    using assms(3) by (auto simp: response_points_def fieldPoints_def)
  then have "fd \<in> set (buildSnifferFields (rrFields (txResponse t)))"
    by (auto simp: decoded_def List.map_filter_def split: option.splits sum.splits)
  then show ?thesis
    using transaction_fields(3) [OF assms(1,2)] fd(2,3) unfolding fieldPoint_def field_kind_def by auto
qed

lemma claim_of:
  assumes "receiver_ok K n r" "rcRawPoller r = Some p"
  shows "rawClaim p f = Some (case claimed_by r f of None \<Rightarrow> (p, None) | Some t \<Rightarrow> (p\<lparr>rpActive := None\<rparr>, rpActive p))"
    "claimed_by r f = Some t \<Longrightarrow> \<exists>a. rpActive p = Some a \<and> a < length (rpHeap p) \<and> arTransaction (rpHeap p ! a) = t \<and>
       t \<in> set (rwTransactions (cfRaw (rcCfg r)))"
proof -
  have wf: "matches_wf (rrMatch (txResponse t))" if "t \<in> set (rwTransactions (cfRaw (rcCfg r)))" for t
    using assms(1) that by (simp add: receiver_ok_def config_good_def config_wf_def raw_wf_def transaction_wf_def)
  have heap: "a < length (rpHeap p) \<and> arTransaction (rpHeap p ! a) \<in> set (rwTransactions (cfRaw (rcCfg r)))"
    if "rpActive p = Some a" for a
    using assms that by (auto simp: receiver_ok_def raw_poller_ok_def)
  show "rawClaim p f = Some (case claimed_by r f of None \<Rightarrow> (p, None) | Some t \<Rightarrow> (p\<lparr>rpActive := None\<rparr>, rpActive p))"
  proof (cases "rpActive p")
    case None
    then show ?thesis using assms(2) by (simp add: rawClaim_def claimed_by_def)
  next
    case (Some a)
    note m = rawTransactionMatches_hold [OF wf [OF conjunct2 [OF heap [OF Some]]], of "Data f"]
    show ?thesis using Some assms(2) m by (auto simp: rawClaim_def claimed_by_def Let_def responds_def)
  qed
  show "\<exists>a. rpActive p = Some a \<and> a < length (rpHeap p) \<and> arTransaction (rpHeap p ! a) = t \<and>
       t \<in> set (rwTransactions (cfRaw (rcCfg r)))" if "claimed_by r f = Some t"
    using that assms(2) heap by (auto simp: claimed_by_def Let_def split: option.splits if_splits)
qed

lemma dispatchRaw_unclaimed:
  assumes "receiver_ok K n r" "claimed_by r f = None"
  shows "dispatchRaw now r f = Some (r, False)"
proof (cases "rcRawPoller r")
  case (Some p)
  have same: "storeBuilders (r\<lparr>rcRawPoller := Some p\<rparr>) (metricsIfEnabled r) (logsIfEnabled r) = r"
    using Some by (cases r) (simp add: storeBuilders_def metricsIfEnabled_def logsIfEnabled_def)
  then show ?thesis
    using Some claim_of(1) [OF assms(1) Some, of f] assms(2) by (simp add: dispatchRaw_def rawHandleFrame_def)
qed (simp add: dispatchRaw_def)

lemma dispatchRaw_claimed:
  assumes "receiver_ok K n r" "claimed_by r f = Some t" "length (Data f) < 2 ^ 50"
  shows "\<exists>p' mb lb. dispatchRaw now r f =
      Some (r\<lparr>rcRawPoller := Some p', rcMetricsBuilder := mb, rcLogsBuilder := lb\<rparr>, True) \<and>
    added K now r (response_points (rcCfg r) t f) (response_records (rcCfg r) t f) mb lb \<and>
    receiver_ok K n (r\<lparr>rcRawPoller := Some p', rcMetricsBuilder := mb, rcLogsBuilder := lb\<rparr>)"
proof -
  let ?c = "rcCfg r" and ?fs = "buildSnifferFields (rrFields (txResponse t))"
  have good: "config_good K ?c" "builders_ok K r" using assms(1) by (simp_all add: receiver_ok_def)
  obtain p where p: "rcRawPoller r = Some p" using assms(2) by (auto simp: claimed_by_def split: option.splits)
  obtain a where a: "rpActive p = Some a" "a < length (rpHeap p)" "arTransaction (rpHeap p ! a) = t"
    "t \<in> set (rwTransactions (cfRaw ?c))"
    using claim_of(2) [OF assms(1) p assms(2)] by blast
  have dec: "\<forall>fd \<in> set ?fs. decodable (Data f) fd"
    using decodable_bounded [OF transaction_fields(1,2) [OF good(1) a(4)]] assms(3) by simp
  have "\<forall>q \<in> set (response_points ?c t f). mpKind q = K (mpName q)" using response_kinds [OF good(1) a(4)] by blast
  from add_enabled [OF good(2) this, of now "response_records ?c t f"]
  obtain ms ls mb lb where e: "do { ms \<leftarrow> addPoints now (metricsIfEnabled r) (response_points ?c t f);
        ls \<leftarrow> addRecords now (logsIfEnabled r) (response_records ?c t f); Some (ms, ls) } = Some (ms, ls)"
    "added K now r (response_points ?c t f) (response_records ?c t f) mb lb"
    "\<And>r'. rcMetricsBuilder r' = rcMetricsBuilder r \<Longrightarrow> rcLogsBuilder r' = rcLogsBuilder r \<Longrightarrow>
       storeBuilders r' ms ls = r'\<lparr>rcMetricsBuilder := mb, rcLogsBuilder := lb\<rparr>" by blast
  have emit: "emitRawTransaction now ?c t f (metricsIfEnabled r) (logsIfEnabled r) = Some (ms, ls)"
    using e(1) unfolding emitRawTransaction_fields emitFields_spec [OF dec] response_points_def response_records_def .
  let ?p = "rawComplete (p\<lparr>rpActive := None\<rparr>) a"
  have p': "rpTransactions ?p = rpTransactions p" "rpActive ?p = None"
    "\<forall>x \<in> set (rpHeap ?p). arTransaction x \<in> arTransaction ` set (rpHeap p)"
    using a(2) by (auto simp: rawComplete_def Let_def dest!: set_update_subset_insert [THEN subsetD])
  have "dispatchRaw now r f = Some (r\<lparr>rcRawPoller := Some ?p, rcMetricsBuilder := mb, rcLogsBuilder := lb\<rparr>, True)"
    using p claim_of(1) [OF assms(1) p, of f] assms(2) a(1,3) emit e(3) [of "r\<lparr>rcRawPoller := Some ?p\<rparr>"]
    by (simp add: dispatchRaw_def rawHandleFrame_def)
  moreover have "receiver_ok K n (r\<lparr>rcRawPoller := Some ?p, rcMetricsBuilder := mb, rcLogsBuilder := lb\<rparr>)"
    using assms(1) e(2) p p' by (auto simp: receiver_ok_def builders_ok_def added_def raw_poller_ok_def)
  ultimately show ?thesis using e(2) by blast
qed

text \<open>The request the SDO poller answers a frame with.\<close>

definition poll_request :: "canopenReceiver \<Rightarrow> Frame \<Rightarrow> Frame option" where
  "poll_request r f = (case rcPoller r of None \<Rightarrow> None | Some p \<Rightarrow> snd (sdoHandleFrame p f))"

lemma poll_request_length:
  assumes "poll_request r f = Some q"
  shows "length (Data q) = 8"
proof -
  have "length (Data q) = 8" if "snd (sdoHandleFrame p f) = Some q" for p
    using that by (auto simp: sdoHandleFrame_def Let_def segmentRequest_def split: option.splits if_splits)
  then show ?thesis using assms by (auto simp: poll_request_def split: option.splits)
qed

text \<open>What an iteration of the dispatch loop adds to the builders.\<close>

definition sniffed_request :: "canopenReceiver \<Rightarrow> Frame \<Rightarrow> Sniffer" where
  "sniffed_request r f = (case poll_request r f of None \<Rightarrow> rcSniff r | Some q \<Rightarrow> next_state (rcSniff r) q)"

definition dispatch_points :: "canopenReceiver \<Rightarrow> Frame \<Rightarrow> MetricPoint list" where
  "dispatch_points r f =
     (case poll_request r f of None \<Rightarrow> [] | Some q \<Rightarrow> frame_points (rcSniff r) q) @
     (case claimed_by r f of
        None \<Rightarrow> frame_points (sniffed_request r f) f
      | Some t \<Rightarrow> response_points (rcCfg r) t f)"

definition dispatch_records :: "canopenReceiver \<Rightarrow> Frame \<Rightarrow> LogRecord list" where
  "dispatch_records r f =
     (case poll_request r f of None \<Rightarrow> [] | Some q \<Rightarrow> frame_records (rcSniff r) q) @
     (case claimed_by r f of
        None \<Rightarrow> frame_records (sniffed_request r f) f
      | Some t \<Rightarrow> response_records (rcCfg r) t f)"

text \<open>\<open>added\<close> over several calls: the builders hold what they held and all that was added.\<close>

definition grown ::
  "(string \<Rightarrow> MetricKind) \<Rightarrow> int \<Rightarrow> canopenReceiver \<Rightarrow> MetricPoint list \<Rightarrow> LogRecord list \<Rightarrow> canopenReceiver \<Rightarrow> bool" where
  "grown K now r ps rs r' \<longleftrightarrow> added K now r ps rs (rcMetricsBuilder r') (rcLogsBuilder r') \<and> rcCfg r' = rcCfg r \<and>
     rcMetricsConsumer r' = rcMetricsConsumer r \<and> rcLogsConsumer r' = rcLogsConsumer r"

lemma grown_trans:
  "grown K now r ps rs r1 \<Longrightarrow> grown K now r1 qs us r2 \<Longrightarrow> grown K now r (ps @ qs) (rs @ us) r2"
  by (auto simp: grown_def added_def enabled_points_def enabled_records_def)

lemma grown_none: "builders_ok K r \<Longrightarrow> grown K now r [] [] r"
  by (simp add: grown_def added_def builders_ok_def enabled_points_def enabled_records_def)

lemma dispatchPoller_ok:
  assumes "receiver_ok K n r" "n < 2 ^ 50"
  shows "\<exists>r1. dispatchPoller now connSend r f = Some (r1, case poll_request r f of None \<Rightarrow> [] | Some q \<Rightarrow> [q]) \<and>
    receiver_ok K (Suc n) r1 \<and> rcSniff r1 = sniffed_request r f \<and> rcRawPoller r1 = rcRawPoller r \<and>
    rcPoller r1 = map_option (\<lambda>p. fst (sdoHandleFrame p f)) (rcPoller r) \<and>
    grown K now r (case poll_request r f of None \<Rightarrow> [] | Some q \<Rightarrow> frame_points (rcSniff r) q)
      (case poll_request r f of None \<Rightarrow> [] | Some q \<Rightarrow> frame_records (rcSniff r) q) r1"
proof -
  have b: "builders_ok K r" using assms(1) by (simp add: receiver_ok_def)
  have ok: "receiver_ok K n (r\<lparr>rcPoller := p\<rparr>)" for p
    using assms(1) by (simp add: receiver_ok_def builders_ok_def raw_poller_ok_def)
  show ?thesis
  proof (cases "rcPoller r")
    case None
    then show ?thesis
      using grown_none [OF b] receiver_ok_mono [OF assms(1), of "Suc n"]
      by (simp add: dispatchPoller_def poll_request_def sniffed_request_def)
  next
    case (Some p)
    obtain p1 req where h: "sdoHandleFrame p f = (p1, req)" by force
    show ?thesis
    proof (cases req)
      case None
      have "grown K now r [] [] (r\<lparr>rcPoller := Some p1\<rparr>)" using grown_none [OF b] by (simp add: grown_def added_def)
      then show ?thesis
        using Some h None receiver_ok_mono [OF ok, of "Suc n"]
        by (simp add: dispatchPoller_def poll_request_def sniffed_request_def)
    next
      case req: (Some q)
      then have q: "poll_request r f = Some q" using Some h by (simp add: poll_request_def)
      have "length (Data q) < 2 ^ 50" using poll_request_length [OF q] by simp
      from sniffFrame_ok [OF ok [of "Some p1"] assms(2) this, of now]
      obtain mb lb where m: "sniffFrame now (r\<lparr>rcPoller := Some p1\<rparr>) q =
          Some (r\<lparr>rcPoller := Some p1, rcSniff := next_state (rcSniff r) q, rcMetricsBuilder := mb, rcLogsBuilder := lb\<rparr>)"
        "added K now (r\<lparr>rcPoller := Some p1\<rparr>) (frame_points (rcSniff r) q) (frame_records (rcSniff r) q) mb lb"
        "receiver_ok K (Suc n)
          (r\<lparr>rcPoller := Some p1, rcSniff := next_state (rcSniff r) q, rcMetricsBuilder := mb, rcLogsBuilder := lb\<rparr>)"
        by auto
      then show ?thesis
        using Some h req q
        by (simp add: dispatchPoller_def sniffed_request_def sendPollFrame_def grown_def added_def
            enabled_points_def enabled_records_def)
    qed
  qed
qed

lemma flush_ok:
  assumes "builders_ok K r" "flushMetrics r = (md, r1)" "flushLogs r1 = (ld, r2)"
  shows "\<exists>mb lb. r2 = r\<lparr>rcMetricsBuilder := mb, rcLogsBuilder := lb\<rparr> \<and> builders_ok K r2 \<and>
    metrics.flushed md + mb_items mb = mb_items (rcMetricsBuilder r) \<and>
    logs.flushed ld + lb_items lb = lb_items (rcLogsBuilder r) \<and>
    (rcMetricsConsumer r \<longrightarrow> mb_items mb = {#}) \<and> (rcLogsConsumer r \<longrightarrow> lb_items lb = {#})"
proof -
  have good: "mb_good (rcMetricsBuilder r)" "kinds_ok K (rcMetricsBuilder r)" "lb_good (rcLogsBuilder r)"
    using assms(1) by (simp_all add: builders_ok_def)
  obtain mb where mb: "metrics.flush (rcMetricsConsumer r) (rcMetricsBuilder r) = (md, mb)" "r1 = r\<lparr>rcMetricsBuilder := mb\<rparr>"
    using assms(2) by (auto simp: flushMetrics_flush split: prod.splits)
  obtain lb where lb: "logs.flush (rcLogsConsumer r) (rcLogsBuilder r) = (ld, lb)" "r2 = r1\<lparr>rcLogsBuilder := lb\<rparr>"
    using assms(3) by (auto simp: flushLogs_flush mb(2) split: prod.splits)
  have "kinds_ok K mb"
    using mb(1) good(2) by (auto simp: metrics.flush_def MetricsEmit_def kinds_ok_def split: if_splits)
  moreover have "rcMetricsConsumer r \<longrightarrow> mb_items mb = {#}" "rcLogsConsumer r \<longrightarrow> lb_items lb = {#}"
    using metrics.flush_drains [OF good(1)] logs.flush_drains [OF good(3)] mb(1) lb(1) by (metis snd_conv)+
  ultimately show ?thesis
    using metrics.flush_conserves [OF good(1) mb(1)] logs.flush_conserves [OF good(3) lb(1)] mb(2) lb(2)
    by (auto simp: builders_ok_def)
qed

text \<open>What a step hands over and leaves in the builders is what they held and what was added.\<close>

definition conserves ::
  "canopenReceiver \<Rightarrow> metric_item multiset \<Rightarrow> log_item multiset \<Rightarrow> emission \<Rightarrow> canopenReceiver \<Rightarrow> bool" where
  "conserves r ms ls out r' \<longleftrightarrow>
     metrics.flushed (outMetrics out) + mb_items (rcMetricsBuilder r') = ms + mb_items (rcMetricsBuilder r) \<and>
     logs.flushed (outLogs out) + lb_items (rcLogsBuilder r') = ls + lb_items (rcLogsBuilder r) \<and>
     rcCfg r' = rcCfg r \<and> rcMetricsConsumer r' = rcMetricsConsumer r \<and> rcLogsConsumer r' = rcLogsConsumer r"

definition metric_items :: "int \<Rightarrow> canopenReceiver \<Rightarrow> MetricPoint list \<Rightarrow> metric_item multiset" where
  "metric_items now r ps = mset (map (metric_item now) (enabled_points r ps))"

definition log_items :: "int \<Rightarrow> canopenReceiver \<Rightarrow> LogRecord list \<Rightarrow> log_item multiset" where
  "log_items now r rs = mset (map (log_item now) (enabled_records r rs))"

text \<open>After the SDO poller: a claimed response is emitted, any other frame is sniffed.\<close>

lemma dispatchRest_ok:
  assumes "receiver_ok K (Suc n) r" "n + 2 \<le> 2 ^ 50" "length (Data f) < 2 ^ 50"
  shows "\<exists>r1 response r2. dispatchRaw now r f = Some (r1, response) \<and>
    (if \<not> response then sniffFrame now r1 f else Some r1) = Some r2 \<and> receiver_ok K (n + 2) r2 \<and>
    grown K now r (case claimed_by r f of None \<Rightarrow> frame_points (rcSniff r) f | Some t \<Rightarrow> response_points (rcCfg r) t f)
      (case claimed_by r f of None \<Rightarrow> frame_records (rcSniff r) f | Some t \<Rightarrow> response_records (rcCfg r) t f) r2 \<and>
    rcPoller r2 = rcPoller r \<and>
    (claimed_by r f = None \<longrightarrow> rcSniff r2 = next_state (rcSniff r) f \<and> rcRawPoller r2 = rcRawPoller r)"
proof (cases "claimed_by r f")
  case None
  obtain mb lb where s: "sniffFrame now r f =
      Some (r\<lparr>rcSniff := next_state (rcSniff r) f, rcMetricsBuilder := mb, rcLogsBuilder := lb\<rparr>)"
    "added K now r (frame_points (rcSniff r) f) (frame_records (rcSniff r) f) mb lb"
    "receiver_ok K (Suc (Suc n)) (r\<lparr>rcSniff := next_state (rcSniff r) f, rcMetricsBuilder := mb, rcLogsBuilder := lb\<rparr>)"
    using sniffFrame_ok [OF assms(1), of f now] assms(2,3) by auto
  then show ?thesis
    using dispatchRaw_unclaimed [OF assms(1) None, of now] None
    by (intro exI [of _ r] exI [of _ False]
        exI [of _ "r\<lparr>rcSniff := next_state (rcSniff r) f, rcMetricsBuilder := mb, rcLogsBuilder := lb\<rparr>"]) (simp add: grown_def)
next
  case (Some t)
  obtain p mb lb where "dispatchRaw now r f = Some (r\<lparr>rcRawPoller := Some p, rcMetricsBuilder := mb, rcLogsBuilder := lb\<rparr>, True)"
    "added K now r (response_points (rcCfg r) t f) (response_records (rcCfg r) t f) mb lb"
    "receiver_ok K (Suc n) (r\<lparr>rcRawPoller := Some p, rcMetricsBuilder := mb, rcLogsBuilder := lb\<rparr>)"
    using dispatchRaw_claimed [OF assms(1) Some assms(3), of now] by blast
  then show ?thesis
    using Some receiver_ok_mono [of K "Suc n" _ "n + 2"]
    by (intro exI [of _ "r\<lparr>rcRawPoller := Some p, rcMetricsBuilder := mb, rcLogsBuilder := lb\<rparr>"] exI [of _ True]
        exI [of _ "r\<lparr>rcRawPoller := Some p, rcMetricsBuilder := mb, rcLogsBuilder := lb\<rparr>"]) (simp add: grown_def)
qed

lemma dispatchFrame_ok:
  assumes "receiver_ok K n r" "n + 2 \<le> 2 ^ 50" "length (Data f) < 2 ^ 50"
  shows "\<exists>r' out. dispatchFrame now connSend r f = Some (r', out) \<and> receiver_ok K (n + 2) r' \<and>
    outSent out = (case poll_request r f of None \<Rightarrow> [] | Some q \<Rightarrow> [q]) \<and>
    conserves r (metric_items now r (dispatch_points r f)) (log_items now r (dispatch_records r f)) out r' \<and>
    (rcMetricsConsumer r \<longrightarrow> mb_items (rcMetricsBuilder r') = {#}) \<and>
    (rcLogsConsumer r \<longrightarrow> lb_items (rcLogsBuilder r') = {#}) \<and>
    rcPoller r' = map_option (\<lambda>p. fst (sdoHandleFrame p f)) (rcPoller r) \<and>
    (claimed_by r f = None \<longrightarrow> rcSniff r' = next_state (sniffed_request r f) f \<and> rcRawPoller r' = rcRawPoller r)"
proof -
  obtain r1 where r1: "dispatchPoller now connSend r f = Some (r1, case poll_request r f of None \<Rightarrow> [] | Some q \<Rightarrow> [q])"
    "receiver_ok K (Suc n) r1" "rcSniff r1 = sniffed_request r f" "rcRawPoller r1 = rcRawPoller r"
    and poller: "rcPoller r1 = map_option (\<lambda>p. fst (sdoHandleFrame p f)) (rcPoller r)"
    and r1g: "grown K now r (case poll_request r f of None \<Rightarrow> [] | Some q \<Rightarrow> frame_points (rcSniff r) q)
      (case poll_request r f of None \<Rightarrow> [] | Some q \<Rightarrow> frame_records (rcSniff r) q) r1"
    using dispatchPoller_ok [OF assms(1), of now connSend f] assms(2) by auto
  have claim: "claimed_by r1 f = claimed_by r f" "rcCfg r1 = rcCfg r"
    using r1(4) r1g by (simp_all add: claimed_by_def grown_def)
  from dispatchRest_ok [OF r1(2) assms(2,3), of now, unfolded claim r1(3,4)]
  obtain r2 response r3 where rest: "dispatchRaw now r1 f = Some (r2, response)"
    "(if \<not> response then sniffFrame now r2 f else Some r2) = Some r3" "receiver_ok K (n + 2) r3" "rcPoller r3 = rcPoller r1"
    "claimed_by r f = None \<longrightarrow> rcSniff r3 = next_state (sniffed_request r f) f \<and> rcRawPoller r3 = rcRawPoller r"
    and r13: "grown K now r1
      (case claimed_by r f of None \<Rightarrow> frame_points (sniffed_request r f) f | Some t \<Rightarrow> response_points (rcCfg r) t f)
      (case claimed_by r f of None \<Rightarrow> frame_records (sniffed_request r f) f | Some t \<Rightarrow> response_records (rcCfg r) t f) r3"
    by (elim exE conjE) (rule that; assumption)
  have r3g: "grown K now r (dispatch_points r f) (dispatch_records r f) r3"
    unfolding dispatch_points_def dispatch_records_def by (rule grown_trans [OF r1g r13])
  obtain md r4 ld r5 where fl: "flushMetrics r3 = (md, r4)" "flushLogs r4 = (ld, r5)" by force
  have b: "builders_ok K r3" using rest(3) by (simp add: receiver_ok_def)
  obtain mb lb where m: "r5 = r3\<lparr>rcMetricsBuilder := mb, rcLogsBuilder := lb\<rparr>" "builders_ok K r5"
    "metrics.flushed md + mb_items mb = mb_items (rcMetricsBuilder r3)"
    "logs.flushed ld + lb_items lb = lb_items (rcLogsBuilder r3)"
    "rcMetricsConsumer r3 \<longrightarrow> mb_items mb = {#}" "rcLogsConsumer r3 \<longrightarrow> lb_items lb = {#}"
    using flush_ok [OF b fl] by blast
  have "dispatchFrame now connSend r f =
      Some (r5, \<lparr>outSent = (case poll_request r f of None \<Rightarrow> [] | Some q \<Rightarrow> [q]), outMetrics = md, outLogs = ld\<rparr>)"
    using r1(1) rest(1,2) fl by (simp add: dispatchFrame_def)
  moreover have "receiver_ok K (n + 2) r5"
    using rest(3) m(1,2) by (simp add: receiver_ok_def raw_poller_ok_def)
  moreover have "conserves r (metric_items now r (dispatch_points r f)) (log_items now r (dispatch_records r f))
      \<lparr>outSent = (case poll_request r f of None \<Rightarrow> [] | Some q \<Rightarrow> [q]), outMetrics = md, outLogs = ld\<rparr> r5"
    using r3g m(1,3,4) by (simp add: conserves_def grown_def added_def metric_items_def log_items_def)
  moreover have "rcPoller r5 = map_option (\<lambda>p. fst (sdoHandleFrame p f)) (rcPoller r)"
      "claimed_by r f = None \<longrightarrow> rcSniff r5 = next_state (sniffed_request r f) f \<and> rcRawPoller r5 = rcRawPoller r"
    using m(1) rest(4,5) poller by simp_all
  ultimately show ?thesis using m(1,5,6) r3g by (fastforce simp: grown_def)
qed

section \<open>Steps and runs\<close>

fun event_metrics :: "canopenReceiver \<Rightarrow> event \<Rightarrow> metric_item multiset" where
  "event_metrics r (Dispatched now f) = metric_items now r (dispatch_points r f)"
| "event_metrics r (PollSent now) =
     (case rcPoller r of
        Some p \<Rightarrow> (case spActive p of
          Some a \<Rightarrow> metric_items now r (frame_points (rcSniff r) (pollRequest p (apObject a))) | None \<Rightarrow> {#})
      | None \<Rightarrow> {#})"
| "event_metrics r _ = {#}"

fun event_logs :: "canopenReceiver \<Rightarrow> event \<Rightarrow> log_item multiset" where
  "event_logs r (Dispatched now f) = log_items now r (dispatch_records r f)"
| "event_logs r (PollSent now) =
     (case rcPoller r of
        Some p \<Rightarrow> (case spActive p of
          Some a \<Rightarrow> log_items now r (frame_records (rcSniff r) (pollRequest p (apObject a))) | None \<Rightarrow> {#})
      | None \<Rightarrow> {#})"
| "event_logs r _ = {#}"

fun short :: "event \<Rightarrow> bool" where
  "short (Dispatched now f) = (length (Data f) < 2 ^ 50)"
| "short _ = True"

lemma sendPollFrame_ok:
  assumes "receiver_ok K n r" "n < 2 ^ 50"
  shows "\<exists>r' err. sendPollFrame now connSend r (pollRequest p object) = Some (r', err) \<and> receiver_ok K (Suc n) r' \<and>
    conserves r (metric_items now r (frame_points (rcSniff r) (pollRequest p object)))
      (log_items now r (frame_records (rcSniff r) (pollRequest p object)))
      (silent\<lparr>outSent := [pollRequest p object]\<rparr>) r'"
proof -
  have "length (Data (pollRequest p object)) < 2 ^ 50" by (simp add: pollRequest_def)
  from sniffFrame_ok [OF assms this, of now] show ?thesis
    by (auto simp: sendPollFrame_def conserves_def added_def metric_items_def log_items_def silent_def
        metrics.flushed_def logs.flushed_def)
qed

lemma conserves_idle:
  "rcMetricsBuilder r' = rcMetricsBuilder r \<Longrightarrow> rcLogsBuilder r' = rcLogsBuilder r \<Longrightarrow> rcCfg r' = rcCfg r \<Longrightarrow>
   rcMetricsConsumer r' = rcMetricsConsumer r \<Longrightarrow> rcLogsConsumer r' = rcLogsConsumer r \<Longrightarrow>
   outMetrics out = None \<Longrightarrow> outLogs out = None \<Longrightarrow> conserves r {#} {#} out r'"
  by (simp add: conserves_def metrics.flushed_def logs.flushed_def)

lemma step_ok:
  assumes "step connSend r ev out r'" "receiver_ok K n r" "n + 2 \<le> 2 ^ 50" "short ev"
  shows "receiver_ok K (n + 2) r' \<and> conserves r (event_metrics r ev) (event_logs r ev) out r'"
  using assms
proof cases
  case (dispatched now f)
  then show ?thesis using dispatchFrame_ok [OF assms(2,3), of f now connSend] assms(4) by auto
next
  case (poll_began p object)
  then have "receiver_ok K n r'" using assms(2) by (simp add: receiver_ok_def builders_ok_def raw_poller_ok_def)
  then show ?thesis using poll_began receiver_ok_mono [of K n r' "n + 2"] by (auto intro!: conserves_idle simp: silent_def)
next
  case (poll_sent p a now err)
  then show ?thesis
    using sendPollFrame_ok [OF assms(2), of now connSend p "apObject a"] assms(3) receiver_ok_mono [of K "Suc n" r' "n + 2"]
    by auto
next
  case (poll_ended p)
  then have "receiver_ok K n r'" using assms(2) by (simp add: receiver_ok_def builders_ok_def raw_poller_ok_def)
  then show ?thesis using poll_ended receiver_ok_mono [of K n r' "n + 2"] by (auto intro!: conserves_idle simp: silent_def)
next
  case (raw_began p t)
  then have "receiver_ok K n r'"
    using assms(2) by (auto simp: receiver_ok_def builders_ok_def raw_poller_ok_def rawBegin_def)
  then show ?thesis using raw_began receiver_ok_mono [of K n r' "n + 2"] by (auto intro!: conserves_idle simp: silent_def)
next
  case (raw_sent p t)
  then show ?thesis using assms(2) receiver_ok_mono [of K n r' "n + 2"] by (auto intro!: conserves_idle simp: silent_def)
next
  case (raw_ended p a)
  then have "receiver_ok K n r'"
    using assms(2) by (auto simp: receiver_ok_def builders_ok_def raw_poller_ok_def rawEnd_def)
  then show ?thesis using raw_ended receiver_ok_mono [of K n r' "n + 2"] by (auto intro!: conserves_idle simp: silent_def)
qed

text \<open>What a trace contributed and delivered.\<close>

definition contributed_metrics :: "trace \<Rightarrow> metric_item multiset" where
  "contributed_metrics tr = sum_list (map (\<lambda>(r, ev, out). event_metrics r ev) tr)"

definition contributed_logs :: "trace \<Rightarrow> log_item multiset" where
  "contributed_logs tr = sum_list (map (\<lambda>(r, ev, out). event_logs r ev) tr)"

definition delivered_metrics :: "trace \<Rightarrow> metric_item multiset" where
  "delivered_metrics tr = sum_list (map (\<lambda>(r, ev, out). metrics.flushed (outMetrics out)) tr)"

definition delivered_logs :: "trace \<Rightarrow> log_item multiset" where
  "delivered_logs tr = sum_list (map (\<lambda>(r, ev, out). logs.flushed (outLogs out)) tr)"

lemmas trace_defs = contributed_metrics_def contributed_logs_def delivered_metrics_def delivered_logs_def

lemma receiver_run_ok:
  assumes "runs connSend r tr r'" "receiver_ok K n r" "n + 2 * length tr \<le> 2 ^ 50" "\<forall>(r1, ev, out) \<in> set tr. short ev"
  shows "receiver_ok K (n + 2 * length tr) r' \<and>
    delivered_metrics tr + mb_items (rcMetricsBuilder r') = contributed_metrics tr + mb_items (rcMetricsBuilder r) \<and>
    delivered_logs tr + lb_items (rcLogsBuilder r') = contributed_logs tr + lb_items (rcLogsBuilder r) \<and>
    rcCfg r' = rcCfg r \<and> rcMetricsConsumer r' = rcMetricsConsumer r \<and> rcLogsConsumer r' = rcLogsConsumer r"
  using assms
proof (induction rule: runs.induct)
  case start
  then show ?case by (simp add: trace_defs)
next
  case (more tr r1 ev out r2)
  then have ih: "receiver_ok K (n + 2 * length tr) r1"
    "delivered_metrics tr + mb_items (rcMetricsBuilder r1) = contributed_metrics tr + mb_items (rcMetricsBuilder r)"
    "delivered_logs tr + lb_items (rcLogsBuilder r1) = contributed_logs tr + lb_items (rcLogsBuilder r)"
    "rcCfg r1 = rcCfg r" "rcMetricsConsumer r1 = rcMetricsConsumer r" "rcLogsConsumer r1 = rcLogsConsumer r"
    by auto
  have s: "receiver_ok K (n + 2 * length tr + 2) r2" "conserves r1 (event_metrics r1 ev) (event_logs r1 ev) out r2"
    using step_ok [OF more.hyps(2) ih(1)] more.prems by auto
  have "delivered_metrics tr + (metrics.flushed (outMetrics out) + mb_items (rcMetricsBuilder r2)) =
      event_metrics r1 ev + (contributed_metrics tr + mb_items (rcMetricsBuilder r))"
    using s(2) ih(2) by (simp add: conserves_def ac_simps)
  moreover have "delivered_logs tr + (logs.flushed (outLogs out) + lb_items (rcLogsBuilder r2)) =
      event_logs r1 ev + (contributed_logs tr + lb_items (rcLogsBuilder r))"
    using s(2) ih(3) by (simp add: conserves_def ac_simps)
  ultimately show ?case
    using s ih(4-6) by (simp add: trace_defs conserves_def algebra_simps)
qed

section \<open>The started receiver\<close>

definition launched :: "Config \<Rightarrow> bool \<Rightarrow> bool \<Rightarrow> canopenReceiver" where
  "launched c metricsConsumer logsConsumer =
     fst (Start None ((newCanopenReceiver c)\<lparr>rcMetricsConsumer := metricsConsumer, rcLogsConsumer := logsConsumer\<rparr>))"

lemma launched_ok:
  assumes "config_good K c"
  shows "receiver_ok K 0 (launched c mc lc)" "rcMetricsConsumer (launched c mc lc) = mc"
    "rcLogsConsumer (launched c mc lc) = lc" "mb_items (rcMetricsBuilder (launched c mc lc)) = {#}"
    "lb_items (rcLogsBuilder (launched c mc lc)) = {#}"
proof -
  have "rcStartOnce (newCanopenReceiver c) = False" "rcRawPoller (newCanopenReceiver c) = None"
    by (simp_all add: newCanopenReceiver_def)
  then show "receiver_ok K 0 (launched c mc lc)"
    using receiver_ok_new [OF assms]
    by (auto simp: launched_def Start_def doStart_def receiver_ok_def builders_ok_def raw_poller_ok_def
        newRawTransactionPoller_def)
  show "rcMetricsConsumer (launched c mc lc) = mc" "rcLogsConsumer (launched c mc lc) = lc"
    "mb_items (rcMetricsBuilder (launched c mc lc)) = {#}" "lb_items (rcLogsBuilder (launched c mc lc)) = {#}"
    by (simp_all add: launched_def Start_def doStart_def newCanopenReceiver_def metrics.content_fresh logs.content_fresh)
qed

lemma validated_good:
  assumes "snd (Validate c) = None" "config_bounded (fst (Validate c))" "kinds_agree K (fst (Validate c))"
  shows "config_good K (fst (Validate c))"
  using assms Validate_None [of c] by (simp add: config_good_def)

lemma sample_wired_good: "config_good sample_kinds sample_wired_config"
proof -
  have "config_wf sample_wired_config" using sample_wired_config_ok Validate_None [of sample_wired_config] by simp
  moreover have "config_bounded sample_wired_config" "kinds_agree sample_kinds sample_wired_config"
    by (auto simp: config_bounded_def kinds_agree_def all_fields_def sample_config_defs sample_kinds_def)
  ultimately show ?thesis by (simp add: config_good_def)
qed

definition sample_pdo_frame :: Frame where
  "sample_pdo_frame = \<lparr>ID = 0x185, Extended = False, Data = [0, 0, 7, 1]\<rparr>"

section \<open>Properties\<close>

text \<open>
  C5. One iteration of the dispatch loop on a frame, for any state the receiver can be in: it
  does not panic; it sends the segment request of the SDO poller, if the frame calls for one;
  it adds to the builders exactly what the sniffed request and then the frame contribute - the
  response of the active transaction if it answers that, else what the sniffer makes of it - for
  the signals that are enabled; and what it hands to the consumers with what it leaves in the
  builders is what was there and what was added. With a consumer attached nothing is left.
\<close>
theorem dispatch_exact:
  assumes "receiver_ok K n r" "n + 2 \<le> 2 ^ 50" "length (Data f) < 2 ^ 50"
  shows "\<exists>r' out. dispatchFrame now connSend r f = Some (r', out) \<and> receiver_ok K (n + 2) r' \<and>
    outSent out = (case poll_request r f of None \<Rightarrow> [] | Some q \<Rightarrow> [q]) \<and>
    conserves r (metric_items now r (dispatch_points r f)) (log_items now r (dispatch_records r f)) out r' \<and>
    (rcMetricsConsumer r \<longrightarrow> mb_items (rcMetricsBuilder r') = {#}) \<and>
    (rcLogsConsumer r \<longrightarrow> lb_items (rcLogsBuilder r') = {#})"
  using dispatchFrame_ok [OF assms, of now connSend] by blast

theorem dispatch_exact_witness:
  "\<exists>r' out. dispatchFrame 3 (\<lambda>_. None) (launched sample_wired_config True True) sample_pdo_frame = Some (r', out) \<and>
     mb_items (rcMetricsBuilder r') = {#}"
  using dispatch_exact [OF launched_ok(1) [OF sample_wired_good, of True True], of sample_pdo_frame 3 "\<lambda>_. None"]
    launched_ok(2) [OF sample_wired_good, of True True]
  by (auto simp: sample_pdo_frame_def)

text \<open>
  C3. A receiver started with a validated configuration whose offsets and lengths are below
  2^62 and whose metrics use one kind per name never panics: after any interleaving of
  dispatched frames with the steps of the polling goroutines, the next frame is dispatched and
  the next poll request is sniffed and sent. The bounds on the number of steps and on the size
  of a frame are those of a machine's memory.
\<close>
theorem receiver_never_panics:
  assumes "snd (Validate c) = None" "config_bounded (fst (Validate c))" "kinds_agree K (fst (Validate c))"
    and "runs connSend (launched (fst (Validate c)) mc lc) tr r" "length tr < 2 ^ 48" "\<forall>(r1, ev, out) \<in> set tr. short ev"
  shows "(length (Data f) < 2 ^ 50 \<longrightarrow> dispatchFrame now connSend r f \<noteq> None) \<and>
    (\<forall>p a. rcPoller r = Some p \<longrightarrow> spActive p = Some a \<longrightarrow>
       sendPollFrame now connSend r (pollRequest p (apObject a)) \<noteq> None)"
proof -
  have len: "2 * length tr + 2 \<le> 2 ^ 50" using assms(5) by simp
  have ok: "receiver_ok K (2 * length tr) r"
    using receiver_run_ok [OF assms(4) launched_ok(1) [OF validated_good [OF assms(1-3)]] _ assms(6)] len by simp
  show ?thesis
    using dispatchFrame_ok [OF ok len, of f now connSend] sendPollFrame_ok [OF ok, of now connSend] len
    by (auto dest!: spec)
qed

theorem receiver_never_panics_witness:
  "dispatchFrame 3 (\<lambda>_. None) (launched sample_wired_config True False) sample_pdo_frame \<noteq> None"
proof -
  have "config_bounded sample_wired_config" "kinds_agree sample_kinds sample_wired_config"
    using sample_wired_good by (simp_all add: config_good_def)
  then show ?thesis
    using receiver_never_panics [of sample_wired_config sample_kinds "\<lambda>_. None" True False "[]"
        "launched sample_wired_config True False" sample_pdo_frame 3] runs.start
    by (simp add: sample_wired_config_ok sample_pdo_frame_def)
qed

text \<open>
  C2. Nothing is lost and nothing is delivered twice: over any run of a receiver with both
  consumers attached, followed by a shutdown that waits for the goroutines, the batches handed
  to the consumers hold exactly the data points and records contributed by the frames
  dispatched and the requests sent, each as often as it was contributed.
\<close>
theorem delivered_exactly_once:
  assumes "snd (Validate c) = None" "config_bounded (fst (Validate c))" "kinds_agree K (fst (Validate c))"
    and "runs connSend (launched (fst (Validate c)) True True) tr r" "length tr < 2 ^ 48" "\<forall>(r1, ev, out) \<in> set tr. short ev"
    and "doShutdown None r = (r', out, err)"
  shows "err = None \<and> delivered_metrics tr + metrics.flushed (outMetrics out) = contributed_metrics tr \<and>
    delivered_logs tr + logs.flushed (outLogs out) = contributed_logs tr"
proof -
  have len: "0 + 2 * length tr \<le> 2 ^ 50" using assms(5) by simp
  note good = validated_good [OF assms(1-3)]
  note run = receiver_run_ok [OF assms(4) launched_ok(1) [OF good] len assms(6)]
  let ?r = "r\<lparr>rcCancelled := (rcCancelled r \<or> rcCancel r), rcClosed := (rcClosed r \<or> rcConn r)\<rparr>"
  obtain md r2 ld r3 where fl: "flushMetrics ?r = (md, r2)" "flushLogs r2 = (ld, r3)" by force
  have "builders_ok K ?r" using run by (simp add: receiver_ok_def builders_ok_def)
  from flush_ok [OF this fl] have "metrics.flushed md = mb_items (rcMetricsBuilder r)" "logs.flushed ld = lb_items (rcLogsBuilder r)"
    using run launched_ok(2,3) [OF good, of True True] by auto
  moreover have "out = \<lparr>outSent = [], outMetrics = md, outLogs = ld\<rparr>" "err = None"
    using assms(7) fl by (simp_all add: doShutdown_def)
  ultimately show ?thesis using run launched_ok(4,5) [OF good, of True True] by simp
qed

theorem delivered_exactly_once_witness:
  "\<exists>tr r. runs (\<lambda>_. None) (launched sample_wired_config True True) tr r \<and> length tr = 1 \<and>
     delivered_metrics tr + metrics.flushed (outMetrics (fst (snd (doShutdown None r)))) = contributed_metrics tr"
proof -
  let ?r = "launched sample_wired_config True True"
  obtain r' out where d: "dispatchFrame 3 (\<lambda>_. None) ?r sample_pdo_frame = Some (r', out)"
    using dispatchFrame_ok [OF launched_ok(1) [OF sample_wired_good, of True True], of sample_pdo_frame 3 "\<lambda>_. None"]
    by (auto simp: sample_pdo_frame_def)
  let ?tr = "[(?r, Dispatched 3 sample_pdo_frame, out)]"
  have run: "runs (\<lambda>_. None) ?r ?tr r'"
    using runs.more [OF runs.start step.dispatched [OF d]] by simp
  obtain r2 out2 err where s: "doShutdown None r' = (r2, out2, err)" by (cases "doShutdown None r'")
  have "config_bounded sample_wired_config" "kinds_agree sample_kinds sample_wired_config"
    using sample_wired_good by (simp_all add: config_good_def)
  then have "delivered_metrics ?tr + metrics.flushed (outMetrics out2) = contributed_metrics ?tr"
    using delivered_exactly_once [of sample_wired_config sample_kinds "\<lambda>_. None" ?tr r' r2 out2 err] run s
    by (simp add: sample_wired_config_ok sample_pdo_frame_def)
  then show ?thesis using run s by (intro exI [of _ ?tr] exI [of _ r']) simp
qed

text \<open>
  \<open>Start\<close> and \<open>Shutdown\<close> act once: a second \<open>Start\<close> changes nothing and returns the first
  one's error, whatever dialing would do then; a second \<open>Shutdown\<close> changes nothing, flushes
  nothing and returns no error.
\<close>
lemma start_shutdown_once:
  "Start e2 (fst (Start e1 r)) = Start e1 r \<and>
     (case Shutdown w1 r of (r1, out, err) \<Rightarrow> Shutdown w2 r1 = (r1, silent, None))"
  by (auto simp: Start_def Shutdown_def Let_def split: prod.split)

section \<open>The dispatch loop\<close>

lemma runs_prepend:
  assumes "runs connSend r1 tr r2" "step connSend r ev out r1"
  shows "runs connSend r ((r, ev, out) # tr) r2"
  using assms
proof (induction rule: runs.induct)
  case start
  then show ?case using runs.more [OF runs.start] by fastforce
next
  case (more tr r1 ev1 out1 r2)
  then show ?case using runs.more [of connSend r "(r, ev, out) # tr"] by simp
qed

text \<open>What ends the loop, and the frames received before that.\<close>

fun stops :: "iteration \<Rightarrow> bool" where
  "stops CtxDone = True"
| "stops (RecvErr ctxErr err) = (ctxErr \<noteq> None \<or> err = ErrClosed)"
| "stops (Received now f) = False"

fun received :: "iteration \<Rightarrow> (int \<times> Frame) list" where
  "received (Received now f) = [(now, f)]"
| "received it = []"

text \<open>The receive errors that are logged: not a time-out, and the loop goes on.\<close>

fun warns :: "iteration \<Rightarrow> bool" where
  "warns (RecvErr ctxErr err) = (ctxErr = None \<and> err \<noteq> DeadlineExceeded \<and> err \<noteq> ErrClosed)"
| "warns it = False"

definition before_stop :: "iteration list \<Rightarrow> iteration list" where
  "before_stop its = takeWhile (\<lambda>it. \<not> stops it) its"

lemma before_stop_simps [simp]:
  "before_stop [] = []" "before_stop (it # its) = (if stops it then [] else it # before_stop its)"
  by (simp_all add: before_stop_def)

lemma dispatchLoop_trace:
  assumes "receiver_ok K n (lsReceiver l)" "n + 2 * length its \<le> 2 ^ 50"
    and "\<forall>it \<in> set its. \<forall>(now, f) \<in> set (received it). length (Data f) < 2 ^ 50" "\<not> lsReturned l"
  shows "\<exists>l' tr. dispatchLoop connSend l its = Some l' \<and> lsReturned l' = (\<exists>it \<in> set its. stops it) \<and>
    runs connSend (lsReceiver l) tr (lsReceiver l') \<and>
    map (fst \<circ> snd) tr = map (\<lambda>(now, f). Dispatched now f) (concat (map received (before_stop its))) \<and>
    lsOutputs l' = lsOutputs l @ map (snd \<circ> snd) tr \<and>
    lsWarnings l' = lsWarnings l + length (filter warns (before_stop its))"
  using assms
proof (induction connSend l its arbitrary: n rule: dispatchLoop.induct)
  case (3 connSend l ctxErr err its)
  show ?case
  proof (cases "recvFailed ctxErr err")
    case Return
    then have "stops (RecvErr ctxErr err)" by (auto simp: recvFailed_def split: if_splits)
    then show ?thesis using Return by (auto intro: runs.start)
  next
    case (Continue warn)
    then have "\<not> stops (RecvErr ctxErr err)" "warns (RecvErr ctxErr err) = warn" by (auto simp: recvFailed_def split: if_splits)
    then show ?thesis using Continue 3(1) [OF Continue, of n] 3(2-5) by (auto simp: add.commute)
  qed
next
  case (4 connSend l now f its)
  obtain r out where d: "dispatchFrame now connSend (lsReceiver l) f = Some (r, out)" "receiver_ok K (n + 2) r"
    using dispatchFrame_ok [OF 4(2), of f now connSend] 4(3,4) by auto
  let ?l = "l\<lparr>lsReceiver := r, lsOutputs := lsOutputs l @ [out]\<rparr>"
  have sel: "lsReceiver ?l = r" "lsOutputs ?l = lsOutputs l @ [out]" "lsWarnings ?l = lsWarnings l" "lsReturned ?l = lsReturned l"
    by simp_all
  have bounds: "receiver_ok K (n + 2) r" "n + 2 + 2 * length its \<le> 2 ^ 50"
    "\<forall>it \<in> set its. \<forall>(now, f) \<in> set (received it). length (Data f) < 2 ^ 50" "\<not> lsReturned l"
    using d(2) 4(3-5) by auto
  obtain l' tr where l': "dispatchLoop connSend ?l its = Some l'" "lsReturned l' = (\<exists>it \<in> set its. stops it)"
    "runs connSend r tr (lsReceiver l')"
    "map (fst \<circ> snd) tr = map (\<lambda>(now, f). Dispatched now f) (concat (map received (before_stop its)))"
    "lsOutputs l' = (lsOutputs l @ [out]) @ map (snd \<circ> snd) tr"
    "lsWarnings l' = lsWarnings l + length (filter warns (before_stop its))"
    using 4(1) [OF d(1) refl, of "n + 2", unfolded sel] bounds by blast
  have "runs connSend (lsReceiver l) ((lsReceiver l, Dispatched now f, out) # tr) (lsReceiver l')"
    by (rule runs_prepend [OF l'(3) step.dispatched [OF d(1)]])
  then show ?case
    using d(1) l' by (intro exI [of _ l'] exI [of _ "(lsReceiver l, Dispatched now f, out) # tr"]) (simp add: comp_def)
qed (auto intro: runs.start)

text \<open>
  C19. The loop survives everything but its context's end and the closing of the connection.
  Whatever it meets - frames, time-outs, receive errors of any kind - it has returned exactly if
  one of these came, and what it did is a run whose steps are the dispatches of exactly the frames
  received before the first of these, in order, each from the receiver the one before left, with
  one emission each; it has logged one warning for each receive error that is neither; and what it
  handed to the consumers with what it left in the builders is what was there and what those
  frames contribute.
\<close>
theorem dispatchLoop_total:
  assumes "receiver_ok K n (lsReceiver l)" "n + 2 * length its \<le> 2 ^ 50"
    and "\<forall>it \<in> set its. \<forall>(now, f) \<in> set (received it). length (Data f) < 2 ^ 50" "\<not> lsReturned l"
  shows "\<exists>l' tr. dispatchLoop connSend l its = Some l' \<and> lsReturned l' = (\<exists>it \<in> set its. stops it) \<and>
    runs connSend (lsReceiver l) tr (lsReceiver l') \<and>
    map (fst \<circ> snd) tr = map (\<lambda>(now, f). Dispatched now f) (concat (map received (before_stop its))) \<and>
    lsOutputs l' = lsOutputs l @ map (snd \<circ> snd) tr \<and>
    lsWarnings l' = lsWarnings l + length (filter warns (before_stop its)) \<and>
    delivered_metrics tr + mb_items (rcMetricsBuilder (lsReceiver l')) =
      contributed_metrics tr + mb_items (rcMetricsBuilder (lsReceiver l)) \<and>
    delivered_logs tr + lb_items (rcLogsBuilder (lsReceiver l')) =
      contributed_logs tr + lb_items (rcLogsBuilder (lsReceiver l))"
proof -
  obtain l' tr where t: "dispatchLoop connSend l its = Some l'" "lsReturned l' = (\<exists>it \<in> set its. stops it)"
    "runs connSend (lsReceiver l) tr (lsReceiver l')"
    "map (fst \<circ> snd) tr = map (\<lambda>(now, f). Dispatched now f) (concat (map received (before_stop its)))"
    "lsOutputs l' = lsOutputs l @ map (snd \<circ> snd) tr"
    "lsWarnings l' = lsWarnings l + length (filter warns (before_stop its))"
    using dispatchLoop_trace [OF assms] by blast
  have "length tr = length (concat (map received (before_stop its)))"
    using arg_cong [OF t(4), of length] by simp
  also have "\<dots> \<le> length its"
  proof -
    have one: "length (received it) \<le> 1" for it by (cases it) auto
    have "length (concat (map received (before_stop js))) \<le> length js" for js
    proof (induction js)
      case (Cons j js)
      then show ?case using one [of j] by auto
    qed simp
    then show ?thesis .
  qed
  finally have len: "n + 2 * length tr \<le> 2 ^ 50" using assms(2) by linarith
  have "\<forall>ev \<in> set (map (fst \<circ> snd) tr). short ev"
    unfolding t(4) using assms(3) by (fastforce simp: before_stop_def dest: set_takeWhileD)
  then have "\<forall>(r1, ev, out) \<in> set tr. short ev" by fastforce
  from receiver_run_ok [OF t(3) assms(1) len this] show ?thesis using t by blast
qed

theorem dispatchLoop_total_witness:
  "\<exists>l' tr. dispatchLoop (\<lambda>_. None) \<lparr>lsReceiver = launched sample_wired_config True True, lsOutputs = [], lsWarnings = 0, lsReturned = False\<rparr>
      [RecvErr None (Foreign ''busy''), Received 3 sample_pdo_frame, RecvErr None DeadlineExceeded, CtxDone] = Some l' \<and>
    lsReturned l' \<and> lsWarnings l' = 1 \<and> runs (\<lambda>_. None) (launched sample_wired_config True True) tr (lsReceiver l') \<and>
    map (fst \<circ> snd) tr = [Dispatched 3 sample_pdo_frame] \<and>
    lsOutputs l' = map (snd \<circ> snd) tr"
proof -
  let ?l = "\<lparr>lsReceiver = launched sample_wired_config True True, lsOutputs = [], lsWarnings = 0, lsReturned = False\<rparr>"
  let ?its = "[RecvErr None (Foreign ''busy''), Received 3 sample_pdo_frame, RecvErr None DeadlineExceeded, CtxDone]"
  have hyps: "receiver_ok sample_kinds 0 (lsReceiver ?l)" "0 + 2 * length ?its \<le> 2 ^ 50" "\<not> lsReturned ?l"
    using launched_ok(1) [OF sample_wired_good, of True True] by simp_all
  have short: "\<forall>it \<in> set ?its. \<forall>(now, f) \<in> set (received it). length (Data f) < 2 ^ 50"
    by (simp add: sample_pdo_frame_def)
  have facts: "\<exists>it \<in> set ?its. stops it" "concat (map received (before_stop ?its)) = [(3, sample_pdo_frame)]"
    "length (filter warns (before_stop ?its)) = 1"
    by simp_all
  obtain l' tr where "dispatchLoop (\<lambda>_. None) ?l ?its = Some l'" "lsReturned l' = (\<exists>it \<in> set ?its. stops it)"
    "runs (\<lambda>_. None) (lsReceiver ?l) tr (lsReceiver l')"
    "map (fst \<circ> snd) tr = map (\<lambda>(now, f). Dispatched now f) (concat (map received (before_stop ?its)))"
    "lsOutputs l' = lsOutputs ?l @ map (snd \<circ> snd) tr"
    "lsWarnings l' = lsWarnings ?l + length (filter warns (before_stop ?its))"
    using dispatchLoop_total [OF hyps(1,2) short hyps(3), of "\<lambda>_. None"] by (elim exE conjE) (rule that)
  then show ?thesis
    unfolding facts(2,3) using facts(1) by (intro exI [of _ l'] exI [of _ tr]) (simp del: map_map)
qed

section \<open>Findings\<close>

text \<open>
  A time-out of the SocketCAN connection reaches the loop wrapped, so an idle bus is logged as
  a receive error once per \<open>read_timeout\<close>; the unwrapped one of the in-memory bus is not.
\<close>

lemma socket_timeout_warns:
  "socketRecv (Some (0 :: nat)) (\<lambda>_. None) False (Some DeadlineExceeded) f =
     Some (Inl (Wrapped ''cantransport: receive'' DeadlineExceeded))"
  "recvFailed None (Wrapped ''cantransport: receive'' DeadlineExceeded) = Continue True"
  "recvFailed None DeadlineExceeded = Continue False"
  by (simp_all add: socketRecv_def recvFailed_def)

text \<open>Without a consumer the batch of an enabled signal is kept, however long the receiver runs.\<close>

lemma unconsumed_batch_kept:
  "\<not> rcMetricsConsumer r \<Longrightarrow> flushMetrics r = (None, r)"
  by (simp add: flushMetrics_def)

end
