(* ===== verification/PolledUpload.thy ===== *)
theory PolledUpload
  imports Receiver
begin

unbundle bit_operations_syntax

section \<open>A polled upload, from the request to the consumer\<close>

text \<open>
  The receiver's parts together on one active upload: the poller sends the requests, the
  sniffer sees them and the server's answers on the same channel, the codec decodes the
  transfer and the dispatch loop hands the points to the consumer. The loop lets the poller
  handle a frame before the sniffer does, so the sniffer sees each segment request before the
  answer that caused it; the passive observer must not depend on that order.
\<close>

subsection \<open>Segment requests do not matter to the observer\<close>

definition segment_request :: "Direction \<times> bytes \<Rightarrow> bool" where
  "segment_request x \<longleftrightarrow> fst x = ClientToServer \<and> length (snd x) = 8 \<and> (snd x ! 0 = 0x60 \<or> snd x ! 0 = 0x70)"

lemma segment_request_simps [simp]:
  "\<not> segment_request (ServerToClient, d)" "\<not> segment_request (ClientToServer, 0x40 # d)"
  by (simp_all add: segment_request_def)

lemma segment_request_ignored:
  "segment_request x \<Longrightarrow> ObserveOnChannel obs k n (fst x) (snd x) = (obs, Inr None)"
  by (auto simp: segment_request_def observe_defs sdoFrameLength_def)

lemma feed_without_requests:
  "fst (feed obs k n xs) = fst (feed obs k n (filter (\<lambda>x. \<not> segment_request x) xs)) \<and>
   filter (\<lambda>r. r \<noteq> Inr None) (snd (feed obs k n xs)) =
     filter (\<lambda>r. r \<noteq> Inr None) (snd (feed obs k n (filter (\<lambda>x. \<not> segment_request x) xs)))"
  by (induction xs arbitrary: obs) (auto simp: segment_request_ignored split_beta Let_def)

lemma dialog_answers:
  "filter (\<lambda>x. \<not> segment_request x) (dialog ServerToClient t bs) = map (Pair ServerToClient) (segments t bs)"
proof (induction t bs rule: segments.induct)
  case (1 t bs)
  have "segment_request (filler ServerToClient t)"
    by (auto simp: segment_request_def filler_def toggle_bit_def)
  then show ?case
    using 1 by (auto simp: dialog.simps [of ServerToClient t bs] segments.simps [of t bs])
qed

lemma conversation_answers:
  "filter (\<lambda>x. \<not> segment_request x) (upload_conversation index subIndex size4 bs) =
     (ClientToServer, 0x40 # address index subIndex @ [0, 0, 0, 0]) #
     map (Pair ServerToClient) (upload_answer index subIndex size4 bs)"
  by (simp add: upload_conversation_def upload_answer_def dialog_answers)

text \<open>What the sniffer sees of the server's messages \<open>ds\<close> and of the requests they cause.\<close>

primrec sniffed_conversation :: "u32 \<Rightarrow> sdoPoller \<Rightarrow> bytes list \<Rightarrow> (Direction \<times> bytes) list" where
  "sniffed_conversation i p [] = []"
| "sniffed_conversation i p (d # ds) =
     (case snd (sdoHandleFrame p (server_frame i d)) of None \<Rightarrow> [] | Some q \<Rightarrow> [(ClientToServer, Data q)]) @
     (ServerToClient, d) # sniffed_conversation i (fst (sdoHandleFrame p (server_frame i d))) ds"

lemma poller_requests:
  assumes "snd (sdoHandleFrame p f) = Some q"
  shows "segment_request (ClientToServer, Data q)" "\<not> Extended q" "\<exists>a. spActive p = Some a \<and> ID q = ID (segmentRequest p a)"
  using assms
  by (auto simp: sdoHandleFrame_def Let_def segmentRequest_def segment_request_def boolByte_def split: option.splits if_splits)

lemma sniffed_answers:
  "filter (\<lambda>x. \<not> segment_request x) (sniffed_conversation i p ds) = map (Pair ServerToClient) ds"
  by (induction ds arbitrary: p)
    (auto dest: poller_requests(1) split: option.split)

lemma sniffed_upload:
  assumes "length size4 = 4"
  shows "filter (\<lambda>r. r \<noteq> Inr None) (snd (feed obs k n ((ClientToServer, 0x40 # address index subIndex @ [0, 0, 0, 0]) #
      sniffed_conversation i p (upload_answer index subIndex size4 bs)))) =
    [Inr (Some (transfer_event n ServerToClient ''upload'' index subIndex bs))]"
proof -
  let ?xs = "(ClientToServer, 0x40 # address index subIndex @ [0, 0, 0, 0]) #
      sniffed_conversation i p (upload_answer index subIndex size4 bs)"
  have "filter (\<lambda>x. \<not> segment_request x) ?xs = filter (\<lambda>x. \<not> segment_request x) (upload_conversation index subIndex size4 bs)"
    unfolding conversation_answers by (simp add: sniffed_answers)
  then have "filter (\<lambda>r. r \<noteq> Inr None) (snd (feed obs k n ?xs)) =
      filter (\<lambda>r. r \<noteq> Inr None) (snd (feed obs k n (upload_conversation index subIndex size4 bs)))"
    using feed_without_requests [of obs k n ?xs] feed_without_requests [of obs k n "upload_conversation index subIndex size4 bs"]
    by simp
  then show ?thesis using upload_reassembles [OF assms, of obs k n index subIndex bs] by auto
qed

subsection \<open>Frames in a row through the receiver\<close>

primrec sniff_points :: "Sniffer \<Rightarrow> Frame list \<Rightarrow> MetricPoint list" where
  "sniff_points s [] = []"
| "sniff_points s (f # fs) = frame_points s f @ sniff_points (next_state s f) fs"

primrec sniff_records :: "Sniffer \<Rightarrow> Frame list \<Rightarrow> LogRecord list" where
  "sniff_records s [] = []"
| "sniff_records s (f # fs) = frame_records s f @ sniff_records (next_state s f) fs"

lemma sniff_append:
  "sniff_points s (xs @ ys) = sniff_points s xs @ sniff_points (foldl next_state s xs) ys"
  "sniff_records s (xs @ ys) = sniff_records s xs @ sniff_records (foldl next_state s xs) ys"
  by (induction xs arbitrary: s) simp_all

lemma sniff_contributions:
  "all_points (contributions s (map (Pair now) fs)) = map (Pair now) (sniff_points s fs)"
  "all_records (contributions s (map (Pair now) fs)) = map (Pair now) (sniff_records s fs)"
  by (induction fs arbitrary: s)
    (simp_all add: all_points_simps all_records_simps contribution_of_def Let_def frame_points_def frame_records_def)

primrec sniffed_frames :: "sdoPoller \<Rightarrow> Frame list \<Rightarrow> Frame list" where
  "sniffed_frames p [] = []"
| "sniffed_frames p (f # fs) =
     (case snd (sdoHandleFrame p f) of None \<Rightarrow> [] | Some q \<Rightarrow> [q]) @ f # sniffed_frames (fst (sdoHandleFrame p f)) fs"

text \<open>No raw transaction is waiting for a response.\<close>

definition raw_idle :: "canopenReceiver \<Rightarrow> bool" where
  "raw_idle r \<longleftrightarrow> (\<forall>q. rcRawPoller r = Some q \<longrightarrow> rpActive q = None)"

lemma raw_idle_unclaimed: "raw_idle r \<Longrightarrow> claimed_by r f = None"
  by (simp add: raw_idle_def claimed_by_def split: option.split)

definition delivered :: "emission list \<Rightarrow> metric_item multiset" where
  "delivered outs = sum_list (map (\<lambda>out. metrics.flushed (outMetrics out)) outs)"

definition delivered_records :: "emission list \<Rightarrow> log_item multiset" where
  "delivered_records outs = sum_list (map (\<lambda>out. logs.flushed (outLogs out)) outs)"

text \<open>\<open>conserves\<close> over a sequence of emissions.\<close>

definition kept ::
  "canopenReceiver \<Rightarrow> metric_item multiset \<Rightarrow> log_item multiset \<Rightarrow> emission list \<Rightarrow> canopenReceiver \<Rightarrow> bool" where
  "kept r ms ls outs r' \<longleftrightarrow>
     delivered outs + mb_items (rcMetricsBuilder r') = ms + mb_items (rcMetricsBuilder r) \<and>
     delivered_records outs + lb_items (rcLogsBuilder r') = ls + lb_items (rcLogsBuilder r) \<and>
     rcCfg r' = rcCfg r \<and> rcMetricsConsumer r' = rcMetricsConsumer r \<and> rcLogsConsumer r' = rcLogsConsumer r"

lemma kept_Nil: "kept r {#} {#} [] r"
  by (simp add: kept_def delivered_def delivered_records_def)

lemma kept_Cons:
  assumes "conserves r ms ls out r1" "kept r1 ms' ls' outs r'"
  shows "kept r (ms + ms') (ls + ls') (out # outs) r'"
proof -
  have "delivered (out # outs) + mb_items (rcMetricsBuilder r') =
      metrics.flushed (outMetrics out) + (delivered outs + mb_items (rcMetricsBuilder r'))"
    by (simp add: delivered_def ac_simps)
  also have "\<dots> = ms' + (metrics.flushed (outMetrics out) + mb_items (rcMetricsBuilder r1))"
    using assms(2) by (simp add: kept_def ac_simps)
  finally have m: "delivered (out # outs) + mb_items (rcMetricsBuilder r') = ms + ms' + mb_items (rcMetricsBuilder r)"
    using assms(1) by (simp add: conserves_def ac_simps)
  have "delivered_records (out # outs) + lb_items (rcLogsBuilder r') =
      logs.flushed (outLogs out) + (delivered_records outs + lb_items (rcLogsBuilder r'))"
    by (simp add: delivered_records_def ac_simps)
  also have "\<dots> = ls' + (logs.flushed (outLogs out) + lb_items (rcLogsBuilder r1))"
    using assms(2) by (simp add: kept_def ac_simps)
  finally have "delivered_records (out # outs) + lb_items (rcLogsBuilder r') = ls + ls' + lb_items (rcLogsBuilder r)"
    using assms(1) by (simp add: conserves_def ac_simps)
  then show ?thesis using m assms by (simp add: kept_def conserves_def)
qed

lemma items_append:
  "metric_items now r (ps @ qs) = metric_items now r ps + metric_items now r qs"
  "log_items now r (us @ vs) = log_items now r us + log_items now r vs"
  "metric_items now r [] = {#}" "log_items now r [] = {#}"
  by (simp_all add: metric_items_def enabled_points_def log_items_def enabled_records_def)

lemma items_same_config:
  "rcCfg r1 = rcCfg r \<Longrightarrow> metric_items now r1 = metric_items now r"
  "rcCfg r1 = rcCfg r \<Longrightarrow> log_items now r1 = log_items now r"
  by (simp_all add: metric_items_def enabled_points_def log_items_def enabled_records_def fun_eq_iff)

text \<open>One frame: the request it calls for is sniffed before it.\<close>

lemma dispatchFrame_polled:
  assumes "receiver_ok K n r" "raw_idle r" "rcPoller r = Some p" "n + 2 \<le> 2 ^ 50" "length (Data f) < 2 ^ 50"
    and "sdoHandleFrame p f = (p1, req)" "pre = (case req of None \<Rightarrow> [] | Some q \<Rightarrow> [q]) @ [f]"
  shows "\<exists>r1 out. dispatchFrame now connSend r f = Some (r1, out) \<and> receiver_ok K (n + 2) r1 \<and> raw_idle r1 \<and>
    outSent out = (case req of None \<Rightarrow> [] | Some q \<Rightarrow> [q]) \<and> rcPoller r1 = Some p1 \<and> rcSniff r1 = foldl next_state (rcSniff r) pre \<and>
    conserves r (metric_items now r (sniff_points (rcSniff r) pre)) (log_items now r (sniff_records (rcSniff r) pre)) out r1 \<and>
    (rcMetricsConsumer r \<longrightarrow> mb_items (rcMetricsBuilder r1) = {#}) \<and> (rcLogsConsumer r \<longrightarrow> lb_items (rcLogsBuilder r1) = {#})"
proof -
  have claim: "claimed_by r f = None" by (rule raw_idle_unclaimed [OF assms(2)])
  have q: "poll_request r f = req" using assms(3,6) by (simp add: poll_request_def)
  have pts: "dispatch_points r f = sniff_points (rcSniff r) pre" "dispatch_records r f = sniff_records (rcSniff r) pre"
    "next_state (sniffed_request r f) f = foldl next_state (rcSniff r) pre"
    using claim q by (simp_all add: assms(7) dispatch_points_def dispatch_records_def sniffed_request_def split: option.split)
  obtain r1 out where d: "dispatchFrame now connSend r f = Some (r1, out)" "receiver_ok K (n + 2) r1"
    "outSent out = (case req of None \<Rightarrow> [] | Some q \<Rightarrow> [q])"
    "conserves r (metric_items now r (sniff_points (rcSniff r) pre)) (log_items now r (sniff_records (rcSniff r) pre)) out r1"
    "rcMetricsConsumer r \<longrightarrow> mb_items (rcMetricsBuilder r1) = {#}" "rcLogsConsumer r \<longrightarrow> lb_items (rcLogsBuilder r1) = {#}"
    "rcPoller r1 = Some p1" "rcSniff r1 = foldl next_state (rcSniff r) pre" "rcRawPoller r1 = rcRawPoller r"
    using dispatchFrame_ok [OF assms(1,4,5), of now connSend] assms(3) claim q assms(6) pts by auto
  have "raw_idle r1" using assms(2) d(9) by (simp add: raw_idle_def)
  then show ?thesis using d by blast
qed

lemma dispatchLoop_polled:
  assumes "receiver_ok K n (lsReceiver l)" "raw_idle (lsReceiver l)" "rcPoller (lsReceiver l) = Some p"
    "n + 2 * length fs \<le> 2 ^ 50" "\<forall>f \<in> set fs. length (Data f) < 2 ^ 50"
  shows "\<exists>r' outs. dispatchLoop connSend l (map (Received now) fs) = Some (l\<lparr>lsReceiver := r', lsOutputs := lsOutputs l @ outs\<rparr>) \<and>
    rcPoller r' = Some (fst (sdoHandleFrames p fs)) \<and> concat (map outSent outs) = snd (sdoHandleFrames p fs) \<and>
    kept (lsReceiver l) (metric_items now (lsReceiver l) (sniff_points (rcSniff (lsReceiver l)) (sniffed_frames p fs)))
      (log_items now (lsReceiver l) (sniff_records (rcSniff (lsReceiver l)) (sniffed_frames p fs))) outs r' \<and>
    (fs \<noteq> [] \<longrightarrow> (rcMetricsConsumer (lsReceiver l) \<longrightarrow> mb_items (rcMetricsBuilder r') = {#}) \<and>
       (rcLogsConsumer (lsReceiver l) \<longrightarrow> lb_items (rcLogsBuilder r') = {#}))"
  using assms
proof (induction fs arbitrary: l n p)
  case Nil
  have "l = l\<lparr>lsReceiver := lsReceiver l, lsOutputs := lsOutputs l\<rparr>" by simp
  then show ?case
    using Nil.prems kept_Nil by (intro exI [of _ "lsReceiver l"] exI [of _ "[]"]) (simp add: items_append)
next
  case (Cons f fs)
  let ?r = "lsReceiver l"
  obtain p1 req where h: "sdoHandleFrame p f = (p1, req)" by force
  let ?pre = "(case req of None \<Rightarrow> [] | Some q \<Rightarrow> [q]) @ [f]"
  obtain r1 out where d: "dispatchFrame now connSend ?r f = Some (r1, out)" "receiver_ok K (n + 2) r1" "raw_idle r1"
    "outSent out = (case req of None \<Rightarrow> [] | Some q \<Rightarrow> [q])" "rcPoller r1 = Some p1" "rcSniff r1 = foldl next_state (rcSniff ?r) ?pre"
    and first: "conserves ?r (metric_items now ?r (sniff_points (rcSniff ?r) ?pre)) (log_items now ?r (sniff_records (rcSniff ?r) ?pre)) out r1"
    and drained: "(rcMetricsConsumer ?r \<longrightarrow> mb_items (rcMetricsBuilder r1) = {#}) \<and> (rcLogsConsumer ?r \<longrightarrow> lb_items (rcLogsBuilder r1) = {#})"
    using dispatchFrame_polled [OF Cons.prems(1-3) _ _ h refl, of now connSend] Cons.prems(4,5) by auto
  have same: "rcCfg r1 = rcCfg ?r" "rcMetricsConsumer r1 = rcMetricsConsumer ?r" "rcLogsConsumer r1 = rcLogsConsumer ?r"
    using first by (simp_all add: conserves_def)
  let ?l = "l\<lparr>lsReceiver := r1, lsOutputs := lsOutputs l @ [out]\<rparr>"
  obtain r' outs where ih: "dispatchLoop connSend ?l (map (Received now) fs) =
      Some (?l\<lparr>lsReceiver := r', lsOutputs := (lsOutputs l @ [out]) @ outs\<rparr>)"
    "rcPoller r' = Some (fst (sdoHandleFrames p1 fs))" "concat (map outSent outs) = snd (sdoHandleFrames p1 fs)"
    "kept r1 (metric_items now r1 (sniff_points (rcSniff r1) (sniffed_frames p1 fs)))
       (log_items now r1 (sniff_records (rcSniff r1) (sniffed_frames p1 fs))) outs r'"
    "fs \<noteq> [] \<longrightarrow> (rcMetricsConsumer r1 \<longrightarrow> mb_items (rcMetricsBuilder r') = {#}) \<and>
       (rcLogsConsumer r1 \<longrightarrow> lb_items (rcLogsBuilder r') = {#})"
    using Cons.IH [where l = ?l and n = "n + 2" and p = p1] d Cons.prems(4,5) by auto
  have pre: "sniffed_frames p (f # fs) = ?pre @ sniffed_frames p1 fs" using h by simp
  have all: "kept ?r (metric_items now ?r (sniff_points (rcSniff ?r) (sniffed_frames p (f # fs))))
      (log_items now ?r (sniff_records (rcSniff ?r) (sniffed_frames p (f # fs)))) (out # outs) r'"
    using kept_Cons [OF first ih(4)] unfolding pre sniff_append items_append items_same_config [OF same(1)] d(6) .
  have "fs = [] \<longrightarrow> outs = []"
    using arg_cong [OF ih(1), of "\<lambda>x. lsOutputs (the x)"] by (cases fs) simp_all
  then have "fs = [] \<longrightarrow> mb_items (rcMetricsBuilder r') = mb_items (rcMetricsBuilder r1) \<and>
      lb_items (rcLogsBuilder r') = lb_items (rcLogsBuilder r1)"
    using ih(4) by (auto simp: kept_def delivered_def delivered_records_def items_append)
  then show ?case
    using d(1,4) drained ih(1,2,3,5) h same all
    by (intro exI [of _ r'] exI [of _ "out # outs"]) (auto simp: split_beta split: option.split)
qed

lemma sniffed_frames_conversation:
  assumes "spActive p = Some a"
  shows "sniffed_frames p (map (server_frame i) ds) =
    map (sdo_frame (ccClientToServerCobID (pollChannel p (apObject a))) i) (sniffed_conversation i p ds)"
  using assms
proof (induction ds arbitrary: p a)
  case (Cons d ds)
  obtain p1 req where h: "sdoHandleFrame p (server_frame i d) = (p1, req)" by force
  obtain a1 where a1: "spActive p1 = Some a1" "apObject a1 = apObject a" "spChannels p1 = spChannels p"
    using Cons.prems h by (auto simp: sdoHandleFrame_def Let_def finishLocked_def split: if_splits)
  have chan: "pollChannel p1 = pollChannel p" using a1(3) by (simp add: pollChannel_def fun_eq_iff)
  have req: "q = sdo_frame (ccClientToServerCobID (pollChannel p (apObject a))) i (ClientToServer, Data q)" if "req = Some q" for q
    using that h Cons.prems
    by (auto simp: sdoHandleFrame_def Let_def segmentRequest_def sdo_frame_def pollChannel_def split: option.splits if_splits)
  have "server_frame i d = sdo_frame (ccClientToServerCobID (pollChannel p (apObject a))) i (ServerToClient, d)"
    by (simp add: server_frame_def sdo_frame_def)
  then show ?case
    using Cons.IH [OF a1(1)] h req a1(2) by (cases req) (simp_all add: chan)
qed simp

lemma concat_results:
  "concat (map (result_points s) rs) = concat (map (result_points s) (filter (\<lambda>r. r \<noteq> Inr None) rs))"
  "concat (map (result_records s) rs) = concat (map (result_records s) (filter (\<lambda>r. r \<noteq> Inr None) rs))"
  by (induction rs) (auto simp: result_points_simps(1) result_records_simps(1))

subsection \<open>What the sniffer makes of the conversation\<close>

text \<open>Every frame of the server's answer is a classic frame.\<close>

lemma upload_answer_small:
  assumes "length size4 = 4" "d \<in> set (upload_answer index subIndex size4 bs)"
  shows "length d \<le> 8"
proof -
  have "(ServerToClient, d) \<in> set (filter (\<lambda>x. \<not> segment_request x) (upload_conversation index subIndex size4 bs))"
    using assms(2) unfolding conversation_answers by simp
  then show ?thesis using upload_frames_small [OF assms(1), of index subIndex bs] by fastforce
qed

lemma sniffed_conversation_directions:
  "x \<in> set (sniffed_conversation i q ds) \<Longrightarrow> fst x = ClientToServer \<or> fst x = ServerToClient"
  by (induction ds arbitrary: q) (auto split: option.splits)

text \<open>The points and the record of an upload of an object.\<close>

definition upload_event :: "SDOObjectConfig \<Rightarrow> bytes \<Rightarrow> Event" where
  "upload_event ob bs = transfer_event (ocNodeID ob) ServerToClient ''upload'' (ocIndex ob) (ocSubIndex ob) bs"

definition upload_points :: "Sniffer \<Rightarrow> SDOObjectConfig \<Rightarrow> bytes \<Rightarrow> Field list \<Rightarrow> MetricPoint list" where
  "upload_points s ob bs fs = fieldPoints (sdoResource s (upload_event ob bs)) bs fs"

definition upload_records :: "Sniffer \<Rightarrow> SDOObjectConfig \<Rightarrow> bytes \<Rightarrow> Field list \<Rightarrow> LogRecord list" where
  "upload_records s ob bs fs =
     fieldRecords (sdoResource s (upload_event ob bs)) (sdoContext (upload_event ob bs)) (sdoBody (upload_event ob bs)) bs fs"

lemma upload_results:
  assumes "sdoIndex s (object_id ob) = Some object"
  shows "result_points s (Inr (Some (upload_event ob bs))) = upload_points s ob bs (odFields object)"
    "result_records s (Inr (Some (upload_event ob bs))) = upload_records s ob bs (odFields object)"
  using assms
  by (simp_all add: result_points_simps result_records_simps sdo_object_def upload_points_def upload_records_def
      upload_event_def transfer_event_def object_id_def)

text \<open>What the request and everything sniffed while it is answered contribute.\<close>

lemma sniffed_upload_results:
  assumes "default_channel s (ocNodeID ob)" "sdoIndex s (object_id ob) = Some object" "length size4 = 4"
    and "conv = (ClientToServer, 0x40 # address (ocIndex ob) (ocSubIndex ob) @ [0, 0, 0, 0]) #
       sniffed_conversation (0x580 + ucast (ocNodeID ob)) (pollBegin p ob) (upload_answer (ocIndex ob) (ocSubIndex ob) size4 bs)"
    and "fs = map (sdo_frame (0x600 + ucast (ocNodeID ob)) (0x580 + ucast (ocNodeID ob))) conv"
  shows "sniff_points s fs = upload_points s ob bs (odFields object)"
    "sniff_records s fs = upload_records s ob bs (odFields object)"
proof -
  have "\<forall>x \<in> set conv. fst x = ClientToServer \<or> fst x = ServerToClient"
    by (auto simp: assms(4) dest: sniffed_conversation_directions)
  then have sdo_class: "\<forall>x \<in> set conv. frame_class s (sdo_frame (0x600 + ucast (ocNodeID ob)) (0x580 + ucast (ocNodeID ob)) x) =
      SdoFrame (ucast (ocNodeID ob)) (ocNodeID ob) (fst x)"
    using default_channel_class [OF assms(1)] by blast
  have feed: "filter (\<lambda>r. r \<noteq> Inr None) (snd (feed (sdo s) (ucast (ocNodeID ob)) (ocNodeID ob) conv)) = [Inr (Some (upload_event ob bs))]"
    unfolding assms(4) upload_event_def by (rule sniffed_upload [OF assms(3)])
  have "map (Pair (0 :: int)) (sniff_points s fs) = map (Pair 0) (upload_points s ob bs (odFields object))"
    "map (Pair (0 :: int)) (sniff_records s fs) = map (Pair 0) (upload_records s ob bs (odFields object))"
    using sdo_contributions [OF sdo_class, of 0] sniff_contributions [of s 0 fs]
      concat_results [of s "snd (feed (sdo s) (ucast (ocNodeID ob)) (ocNodeID ob) conv)"]
    unfolding feed by (simp_all add: assms(5) comp_def upload_results [OF assms(2)])
  then show "sniff_points s fs = upload_points s ob bs (odFields object)"
    "sniff_records s fs = upload_records s ob bs (odFields object)"
    by (metis inj_map_eq_map inj_onI prod.inject)+
qed

text \<open>The same for the frames of the poll: the request, and what the dispatch loop sniffs.\<close>

lemma polled_frames_results:
  assumes "spChannels p (ocNodeID ob) = None" "default_channel s (ocNodeID ob)"
    "sdoIndex s (object_id ob) = Some object" "length size4 = 4"
    and "fs = sniffed_frames (pollBegin p ob) (map (server_frame (0x580 + ucast (ocNodeID ob)))
        (upload_answer (ocIndex ob) (ocSubIndex ob) size4 bs))"
  shows "frame_points s (pollRequest p ob) @ sniff_points (next_state s (pollRequest p ob)) fs =
      upload_points s ob bs (odFields object)"
    "frame_records s (pollRequest p ob) @ sniff_records (next_state s (pollRequest p ob)) fs =
      upload_records s ob bs (odFields object)"
proof -
  let ?C = "0x600 + ucast (ocNodeID ob) :: u32" and ?S = "0x580 + ucast (ocNodeID ob) :: u32"
  let ?p = "pollBegin p ob" and ?ds = "upload_answer (ocIndex ob) (ocSubIndex ob) size4 bs"
  have chan: "ccClientToServerCobID (pollChannel p ob) = ?C"
    using assms(1) by (simp add: pollChannel_def)
  obtain b where "spActive ?p = Some b" "apObject b = ob" by (simp add: pollBegin_def)
  moreover have "pollChannel ?p = pollChannel p" by (simp add: pollBegin_def pollChannel_def fun_eq_iff)
  ultimately have fs: "fs = map (sdo_frame ?C ?S) (sniffed_conversation ?S ?p ?ds)"
    using sniffed_frames_conversation [of ?p b ?S ?ds] chan by (simp add: assms(5))
  have "pollRequest p ob = sdo_frame ?C ?S (ClientToServer, 0x40 # address (ocIndex ob) (ocSubIndex ob) @ [0, 0, 0, 0])"
    by (simp add: pollRequest_def sdo_frame_def chan address_def)
  then show "frame_points s (pollRequest p ob) @ sniff_points (next_state s (pollRequest p ob)) fs =
      upload_points s ob bs (odFields object)"
    "frame_records s (pollRequest p ob) @ sniff_records (next_state s (pollRequest p ob)) fs =
      upload_records s ob bs (odFields object)"
    using sniffed_upload_results [OF assms(2-4) refl refl, of p bs] by (simp_all add: fs)
qed

text \<open>The request itself: it is sent, and its points are in the builder.\<close>

lemma pollRequest_sniffed:
  assumes "receiver_ok K n r" "n < 2 ^ 50"
  shows "\<exists>mb lb. sniffFrame now (r\<lparr>rcPoller := Some (pollBegin p ob)\<rparr>) (pollRequest p ob) =
      Some (r\<lparr>rcPoller := Some (pollBegin p ob), rcSniff := next_state (rcSniff r) (pollRequest p ob),
        rcMetricsBuilder := mb, rcLogsBuilder := lb\<rparr>) \<and>
    added K now r (frame_points (rcSniff r) (pollRequest p ob)) (frame_records (rcSniff r) (pollRequest p ob)) mb lb \<and>
    receiver_ok K (Suc n) (r\<lparr>rcPoller := Some (pollBegin p ob), rcSniff := next_state (rcSniff r) (pollRequest p ob),
        rcMetricsBuilder := mb, rcLogsBuilder := lb\<rparr>)"
proof -
  have ok: "receiver_ok K n (r\<lparr>rcPoller := Some (pollBegin p ob)\<rparr>)"
    using assms(1) by (simp add: receiver_ok_def builders_ok_def raw_poller_ok_def)
  have len: "length (Data (pollRequest p ob)) < 2 ^ 50" by (simp add: pollRequest_def)
  from sniffFrame_ok [OF ok assms(2) len, of now] show ?thesis
    by (auto simp: added_def enabled_points_def enabled_records_def)
qed

section \<open>Properties\<close>

text \<open>
  C1. Active polling end to end. Whatever the receiver did before, when it polls a declared
  object on a node's default channel and a conforming server answers with a segmented upload of
  \<open>bs\<close>, the receiver does not panic, it sends exactly the segment requests with alternating
  toggles, the poll has succeeded, and each consumer that is attached has been handed what was
  pending for it and exactly what the object's fields, decoded from \<open>bs\<close>, make of the transfer,
  each once: the metrics consumer their data points, the logs consumer their one log record, as
  far as the signal is enabled.
\<close>
theorem polled_upload_delivered:
  assumes "receiver_ok K n r" "raw_idle r" "rcPoller r = Some p" "spChannels p (ocNodeID ob) = None"
    and "default_channel (rcSniff r) (ocNodeID ob)" "sdoIndex (rcSniff r) (object_id ob) = Some object"
    and "length size4 = 4" "n + 2 * length (segments False bs) + 4 < 2 ^ 50"
  shows "\<exists>r1 err r' outs a. sendPollFrame now connSend (r\<lparr>rcPoller := Some (pollBegin p ob)\<rparr>) (pollRequest p ob) = Some (r1, err) \<and>
    dispatchLoop connSend \<lparr>lsReceiver = r1, lsOutputs = [], lsWarnings = 0, lsReturned = False\<rparr>
      (map (\<lambda>d. Received now (server_frame (0x580 + ucast (ocNodeID ob)) d)) (upload_answer (ocIndex ob) (ocSubIndex ob) size4 bs)) =
      Some \<lparr>lsReceiver = r', lsOutputs = outs, lsWarnings = 0, lsReturned = False\<rparr> \<and>
    concat (map outSent outs) = alternating (toggle_request p ob) False (length (segments False bs)) \<and>
    rcPoller r' = Some (p\<lparr>spActive := Some a\<rparr>) \<and> apResult a = [\<lparr>prOk = True, prErr = None\<rparr>] \<and>
    (rcMetricsConsumer r \<longrightarrow>
       delivered outs = metric_items now r (upload_points (rcSniff r) ob bs (odFields object)) + mb_items (rcMetricsBuilder r)) \<and>
    (rcLogsConsumer r \<longrightarrow>
       delivered_records outs = log_items now r (upload_records (rcSniff r) ob bs (odFields object)) + lb_items (rcLogsBuilder r))"
proof -
  let ?p = "pollBegin p ob" and ?s = "rcSniff r" and ?req = "pollRequest p ob"
  let ?S = "0x580 + ucast (ocNodeID ob) :: u32"
  let ?ds = "upload_answer (ocIndex ob) (ocSubIndex ob) size4 bs"
  have chan: "ccServerToClientCobID (pollChannel p ob) = ?S"
    using assms(4) by (simp add: pollChannel_def)
  obtain a where a: "sdoHandleFrames ?p (map (server_frame ?S) ?ds) =
      (p\<lparr>spActive := Some a\<rparr>, alternating (toggle_request p ob) False (length (segments False bs)))"
    "apResult a = [\<lparr>prOk = True, prErr = None\<rparr>]"
    using segmented_frames [OF assms(7), of p ob bs] chan by auto
  from pollRequest_sniffed [OF assms(1), of now p ob] assms(8)
  obtain mb lb where s: "sniffFrame now (r\<lparr>rcPoller := Some ?p\<rparr>) ?req =
      Some (r\<lparr>rcPoller := Some ?p, rcSniff := next_state ?s ?req, rcMetricsBuilder := mb, rcLogsBuilder := lb\<rparr>)"
    "added K now r (frame_points ?s ?req) (frame_records ?s ?req) mb lb"
    "receiver_ok K (Suc n) (r\<lparr>rcPoller := Some ?p, rcSniff := next_state ?s ?req, rcMetricsBuilder := mb, rcLogsBuilder := lb\<rparr>)"
    by auto
  let ?r1 = "r\<lparr>rcPoller := Some ?p, rcSniff := next_state ?s ?req, rcMetricsBuilder := mb, rcLogsBuilder := lb\<rparr>"
  let ?l = "\<lparr>lsReceiver = ?r1, lsOutputs = [], lsWarnings = 0, lsReturned = False\<rparr>"
  have idle: "raw_idle ?r1" using assms(2) by (simp add: raw_idle_def)
  have "length ?ds = Suc (length (segments False bs))" by (simp add: upload_answer_def)
  then obtain r' outs where run: "dispatchLoop connSend ?l (map (Received now) (map (server_frame ?S) ?ds)) =
      Some (?l\<lparr>lsReceiver := r', lsOutputs := [] @ outs\<rparr>)"
    "rcPoller r' = Some (p\<lparr>spActive := Some a\<rparr>)"
    "concat (map outSent outs) = alternating (toggle_request p ob) False (length (segments False bs))"
    "kept ?r1 (metric_items now ?r1 (sniff_points (next_state ?s ?req) (sniffed_frames ?p (map (server_frame ?S) ?ds))))
       (log_items now ?r1 (sniff_records (next_state ?s ?req) (sniffed_frames ?p (map (server_frame ?S) ?ds)))) outs r'"
    "rcMetricsConsumer r \<longrightarrow> mb_items (rcMetricsBuilder r') = {#}" "rcLogsConsumer r \<longrightarrow> lb_items (rcLogsBuilder r') = {#}"
    using dispatchLoop_polled [where l = ?l and n = "Suc n" and p = ?p and K = K and fs = "map (server_frame ?S) ?ds"
        and now = now and connSend = connSend] s(3) idle assms(8) a(1) upload_answer_small [OF assms(7)]
    by (fastforce simp: server_frame_def upload_answer_def)
  note res = polled_frames_results [OF assms(4,5,6,7) refl, of bs]
  have "metric_items now r (frame_points ?s ?req) + mb_items (rcMetricsBuilder r) = mb_items mb"
    "log_items now r (frame_records ?s ?req) + lb_items (rcLogsBuilder r) = lb_items lb"
    using s(2) by (simp_all add: added_def metric_items_def log_items_def)
  then have "delivered outs + mb_items (rcMetricsBuilder r') =
      metric_items now r (upload_points ?s ob bs (odFields object)) + mb_items (rcMetricsBuilder r)"
    "delivered_records outs + lb_items (rcLogsBuilder r') =
      log_items now r (upload_records ?s ob bs (odFields object)) + lb_items (rcLogsBuilder r)"
    using run(4) items_same_config [of ?r1 r] unfolding res [symmetric] items_append kept_def by (simp_all add: ac_simps)
  then show ?thesis
    using s(1) run(1-3,5,6) a(2) by (auto simp: sendPollFrame_def comp_def)
qed

definition sample_polling :: canopenReceiver where
  "sample_polling = launched sample_wired_config True True"

lemma sample_polling_facts:
  "receiver_ok sample_kinds 0 sample_polling" "raw_idle sample_polling"
  "rcPoller sample_polling = Some (newSDOPoller sample_wired_config)"
  "spChannels (newSDOPoller sample_wired_config) (ocNodeID sample_wired_object) = None"
  "default_channel (rcSniff sample_polling) (ocNodeID sample_wired_object)"
  "sdoIndex (rcSniff sample_polling) (object_id sample_wired_object) = Some (buildObject sample_wired_object)"
  "cfMetricsEnabled (rcCfg sample_polling)" "cfLogsEnabled (rcCfg sample_polling)"
  "rcMetricsConsumer sample_polling" "rcLogsConsumer sample_polling"
  "mb_items (rcMetricsBuilder sample_polling) = {#}" "lb_items (rcLogsBuilder sample_polling) = {#}"
proof -
  show "receiver_ok sample_kinds 0 sample_polling" "rcMetricsConsumer sample_polling" "rcLogsConsumer sample_polling"
    "mb_items (rcMetricsBuilder sample_polling) = {#}" "lb_items (rcLogsBuilder sample_polling) = {#}"
    using launched_ok [OF sample_wired_good, of True True] by (simp_all add: sample_polling_def)
  have sniff: "rcSniff sample_polling = NewSniffer (buildSnifferConfig sample_wired_config)"
    by (simp add: sample_polling_def launched_def Start_def doStart_def newCanopenReceiver_def)
  show "raw_idle sample_polling" "rcPoller sample_polling = Some (newSDOPoller sample_wired_config)"
    "cfMetricsEnabled (rcCfg sample_polling)" "cfLogsEnabled (rcCfg sample_polling)"
    by (simp_all add: raw_idle_def sample_polling_def launched_def Start_def doStart_def newCanopenReceiver_def
        sample_config_defs newRawTransactionPoller_def)
  show "spChannels (newSDOPoller sample_wired_config) (ocNodeID sample_wired_object) = None"
    by (simp add: newSDOPoller_def sample_config_defs)
  show "default_channel (rcSniff sample_polling) (ocNodeID sample_wired_object)"
    by (simp add: default_channel_def sniff NewSniffer_def buildSnifferConfig_def sample_config_defs addPDO_def)
  show "sdoIndex (rcSniff sample_polling) (object_id sample_wired_object) = Some (buildObject sample_wired_object)"
    unfolding sniff sdoIndex_build
    by (simp add: sample_config_defs buildObject_def def_key_def object_id_def)
qed

text \<open>The field of the sample object, read from its four bytes: one point and one record.\<close>

lemma sample_upload_results:
  "length (upload_points s sample_wired_object [1, 2, 3, 4] (odFields (buildObject sample_wired_object))) = 1"
  "length (upload_records s sample_wired_object [1, 2, 3, 4] (odFields (buildObject sample_wired_object))) = 1"
proof -
  let ?fs = "odFields (buildObject sample_wired_object)"
  have "Decode [1, 2, 3, 4] Uint16 16 0 = Some (Inr (zeroValue Uint16\<lparr>vUint := le_uint [3, 4]\<rparr>))"
    by (simp add: Decode_def Valid_def BitWidth_def extractBits_def decodeRaw_def slice_def Let_def numeral_eq_Suc wrap64_def)
  then have dec: "decoded [1, 2, 3, 4] ?fs = [(buildSnifferField (sample_response_field ''state''), zeroValue Uint16\<lparr>vUint := le_uint [3, 4]\<rparr>)]"
    by (simp add: decoded_def List.map_filter_def buildObject_def sample_wired_object_def buildSnifferFields_map)
      (simp add: buildSnifferField_def sample_response_field_def)
  show "length (upload_points s sample_wired_object [1, 2, 3, 4] ?fs) = 1"
    by (simp add: upload_points_def fieldPoints_def dec) (simp add: sample_response_field_def)
  show "length (upload_records s sample_wired_object [1, 2, 3, 4] ?fs) = 1"
    by (simp add: upload_records_def fieldRecords_def logged_def dec Let_def) (simp add: sample_response_field_def)
qed

theorem polled_upload_delivered_witness:
  "\<exists>r1 err l. sendPollFrame 3 (\<lambda>_. None)
      (sample_polling\<lparr>rcPoller := Some (pollBegin (newSDOPoller sample_wired_config) sample_wired_object)\<rparr>)
      (pollRequest (newSDOPoller sample_wired_config) sample_wired_object) = Some (r1, err) \<and>
    dispatchLoop (\<lambda>_. None) \<lparr>lsReceiver = r1, lsOutputs = [], lsWarnings = 0, lsReturned = False\<rparr>
      (map (\<lambda>d. Received 3 (server_frame 0x585 d)) (upload_answer 0x1008 0 [4, 0, 0, 0] [1, 2, 3, 4])) = Some l \<and>
    size (delivered (lsOutputs l)) = 1 \<and> size (delivered_records (lsOutputs l)) = 1"
proof -
  have seg: "0 + 2 * length (segments False [1, 2, 3, 4 :: u8]) + 4 < 2 ^ 50" by (simp add: segments.simps)
  have ids: "ocNodeID sample_wired_object = 5" "ocIndex sample_wired_object = 0x1008" "ocSubIndex sample_wired_object = 0"
    by (simp_all add: sample_wired_object_def)
  have size4: "length [4, 0, 0, 0 :: u8] = 4" by simp
  from polled_upload_delivered [OF sample_polling_facts(1-6) size4 seg, of 3 "\<lambda>_. None"] show ?thesis
    using sample_polling_facts(7-12) sample_upload_results [of "rcSniff sample_polling"]
    by (auto simp: ids metric_items_def log_items_def enabled_points_def enabled_records_def)
qed

end
