(* ===== verification/Interleaving.thy ===== *)
theory Interleaving
  imports Receiver
begin

section \<open>The critical sections of the dispatch loop, interleaved\<close>

text \<open>
  \<open>step\<close> of theory Receiver takes an iteration of the dispatch loop as one step. Here the loop has a
  position in its body, between any two critical sections of an iteration the polling goroutines
  may act, and the results for whole iterations still hold: no panic, and nothing lost or repeated.
  The SDO poller handles a frame, and sniffs and sends the request this calls for, with its mutex held
  (sdo_poller.go, \<open>handleFrame\<close>), so its goroutine can neither begin nor end a poll in between.
\<close>

subsection \<open>The loop, a section at a time\<close>

text \<open>What the loop does next, with the frame it received; \<open>AtRequest\<close> holds the SDO poller's mutex.\<close>

datatype position =
    Receiving
  | AtPoller Frame
  | AtRequest Frame Frame
  | AtRaw Frame
  | AtEmit Frame nat
  | AtComplete nat
  | AtSniff Frame
  | AtMetrics
  | AtLogs

fun loopStep ::
  "int \<Rightarrow> (Frame \<Rightarrow> go_error option) \<Rightarrow> canopenReceiver \<Rightarrow> position \<Rightarrow> (canopenReceiver \<times> position \<times> emission) option" where
  "loopStep now connSend r Receiving = Some (r, Receiving, silent)"
| "loopStep now connSend r (AtPoller f) =
     (case rcPoller r of
        None \<Rightarrow> Some (r, AtRaw f, silent)
      | Some p \<Rightarrow>
          (case sdoHandleFrame p f of
             (p1, None) \<Rightarrow> Some (r\<lparr>rcPoller := Some p1\<rparr>, AtRaw f, silent)
           | (p1, Some request) \<Rightarrow> Some (r\<lparr>rcPoller := Some p1\<rparr>, AtRequest f request, silent)))"
| "loopStep now connSend r (AtRequest f request) =
     do { (r1, ignored) \<leftarrow> sendPollFrame now connSend r request; Some (r1, AtRaw f, silent\<lparr>outSent := [request]\<rparr>) }"
| "loopStep now connSend r (AtRaw f) =
     (case rcRawPoller r of
        None \<Rightarrow> Some (r, AtSniff f, silent)
      | Some p \<Rightarrow> do {
          (p1, claimed) \<leftarrow> rawClaim p f;
          Some (r\<lparr>rcRawPoller := Some p1\<rparr>, (case claimed of None \<Rightarrow> AtSniff f | Some active \<Rightarrow> AtEmit f active), silent)
        })"
| "loopStep now connSend r (AtEmit f active) =
     do {
       p \<leftarrow> rcRawPoller r;
       (ms, ls) \<leftarrow> emitRawTransaction now (rcCfg r) (arTransaction (rpHeap p ! active)) f (metricsIfEnabled r) (logsIfEnabled r);
       Some (storeBuilders r ms ls, AtComplete active, silent)
     }"
| "loopStep now connSend r (AtComplete active) =
     do { p \<leftarrow> rcRawPoller r; Some (r\<lparr>rcRawPoller := Some (rawComplete p active)\<rparr>, AtMetrics, silent) }"
| "loopStep now connSend r (AtSniff f) = do { r1 \<leftarrow> sniffFrame now r f; Some (r1, AtMetrics, silent) }"
| "loopStep now connSend r AtMetrics = (case flushMetrics r of (md, r1) \<Rightarrow> Some (r1, AtLogs, silent\<lparr>outMetrics := md\<rparr>))"
| "loopStep now connSend r AtLogs = (case flushLogs r of (ld, r1) \<Rightarrow> Some (r1, Receiving, silent\<lparr>outLogs := ld\<rparr>))"

text \<open>An event of another goroutine, and whether it must wait for a mutex the loop holds.\<close>

fun blocked :: "position \<Rightarrow> event \<Rightarrow> bool" where
  "blocked at (Dispatched now f) = True"
| "blocked (AtRequest f q) (PollBegan object) = True"
| "blocked (AtRequest f q) PollEnded = True"
| "blocked at ev = False"

datatype section_event = Arrived Frame | LoopSection int | OtherSection event

inductive section_step ::
  "(Frame \<Rightarrow> go_error option) \<Rightarrow> canopenReceiver \<times> position \<Rightarrow> section_event \<Rightarrow> emission \<Rightarrow> canopenReceiver \<times> position \<Rightarrow> bool"
  for connSend where
  arrived: "section_step connSend (r, Receiving) (Arrived f) silent (r, AtPoller f)"
| loop: "at \<noteq> Receiving \<Longrightarrow> loopStep now connSend r at = Some (r', at', out) \<Longrightarrow>
     section_step connSend (r, at) (LoopSection now) out (r', at')"
| other: "step connSend r ev out r' \<Longrightarrow> \<not> blocked at ev \<Longrightarrow>
     section_step connSend (r, at) (OtherSection ev) out (r', at)"

type_synonym section_trace = "((canopenReceiver \<times> position) \<times> section_event \<times> emission) list"

inductive section_runs ::
  "(Frame \<Rightarrow> go_error option) \<Rightarrow> canopenReceiver \<times> position \<Rightarrow> section_trace \<Rightarrow> canopenReceiver \<times> position \<Rightarrow> bool"
  for connSend x where
  start: "section_runs connSend x [] x"
| more: "section_runs connSend x tr y \<Longrightarrow> section_step connSend y ev out z \<Longrightarrow> section_runs connSend x (tr @ [(y, ev, out)]) z"

inductive_simps loop_section_simps: "section_step connSend (r, at) (LoopSection now) out (r', at')"

subsection \<open>What the sections add\<close>

fun section_points :: "canopenReceiver \<Rightarrow> position \<Rightarrow> MetricPoint list" where
  "section_points r (AtRequest f q) = frame_points (rcSniff r) q"
| "section_points r (AtSniff f) = frame_points (rcSniff r) f"
| "section_points r (AtEmit f a) =
     (case rcRawPoller r of None \<Rightarrow> [] | Some p \<Rightarrow> response_points (rcCfg r) (arTransaction (rpHeap p ! a)) f)"
| "section_points r at = []"

fun section_records :: "canopenReceiver \<Rightarrow> position \<Rightarrow> LogRecord list" where
  "section_records r (AtRequest f q) = frame_records (rcSniff r) q"
| "section_records r (AtSniff f) = frame_records (rcSniff r) f"
| "section_records r (AtEmit f a) =
     (case rcRawPoller r of None \<Rightarrow> [] | Some p \<Rightarrow> response_records (rcCfg r) (arTransaction (rpHeap p ! a)) f)"
| "section_records r at = []"

fun section_metrics :: "canopenReceiver \<times> position \<Rightarrow> section_event \<Rightarrow> metric_item multiset" where
  "section_metrics (r, at) (Arrived f) = {#}"
| "section_metrics (r, at) (LoopSection now) = metric_items now r (section_points r at)"
| "section_metrics (r, at) (OtherSection ev) = event_metrics r ev"

fun section_logs :: "canopenReceiver \<times> position \<Rightarrow> section_event \<Rightarrow> log_item multiset" where
  "section_logs (r, at) (Arrived f) = {#}"
| "section_logs (r, at) (LoopSection now) = log_items now r (section_records r at)"
| "section_logs (r, at) (OtherSection ev) = event_logs r ev"

subsection \<open>The invariant of the loop's position\<close>

definition small :: "Frame \<Rightarrow> bool" where
  "small f \<longleftrightarrow> length (Data f) < 2 ^ 50"

definition active_known :: "canopenReceiver \<Rightarrow> nat \<Rightarrow> bool" where
  "active_known r a \<longleftrightarrow> (\<exists>p. rcRawPoller r = Some p \<and> a < length (rpHeap p))"

fun position_ok :: "canopenReceiver \<Rightarrow> position \<Rightarrow> bool" where
  "position_ok r (AtPoller f) = small f"
| "position_ok r (AtRequest f q) = (small f \<and> small q)"
| "position_ok r (AtRaw f) = small f"
| "position_ok r (AtSniff f) = small f"
| "position_ok r (AtEmit f a) = (small f \<and> active_known r a)"
| "position_ok r (AtComplete a) = active_known r a"
| "position_ok r at = True"

fun small_event :: "section_event \<Rightarrow> bool" where
  "small_event (Arrived f) = small f"
| "small_event ev = True"

lemma position_ok_mono:
  "position_ok r at \<Longrightarrow> (\<And>a. active_known r a \<Longrightarrow> active_known r' a) \<Longrightarrow> position_ok r' at"
  by (cases at) auto

lemma other_keeps_active:
  assumes "step connSend r ev out r'" "\<not> blocked at ev" "active_known r a"
  shows "active_known r' a"
  using assms
  by cases (auto simp: active_known_def rawBegin_def rawEnd_def sendPollFrame_def sniffFrame_def storeBuilders_def bind_eq_Some_conv)

subsection \<open>One section\<close>

lemma emitted_response:
  assumes "receiver_ok K n r" "rcRawPoller r = Some p" "a < length (rpHeap p)" "length (Data f) < 2 ^ 50"
  shows "\<exists>ms ls mb lb. emitRawTransaction now (rcCfg r) (arTransaction (rpHeap p ! a)) f (metricsIfEnabled r) (logsIfEnabled r) = Some (ms, ls) \<and>
    storeBuilders r ms ls = r\<lparr>rcMetricsBuilder := mb, rcLogsBuilder := lb\<rparr> \<and>
    added K now r (response_points (rcCfg r) (arTransaction (rpHeap p ! a)) f)
      (response_records (rcCfg r) (arTransaction (rpHeap p ! a)) f) mb lb"
proof -
  let ?c = "rcCfg r" and ?t = "arTransaction (rpHeap p ! a)"
  let ?fs = "buildSnifferFields (rrFields (txResponse ?t))"
  have good: "config_good K ?c" "builders_ok K r" using assms(1) by (simp_all add: receiver_ok_def)
  have t: "?t \<in> set (rwTransactions (cfRaw ?c))"
    using assms(1-3) by (simp add: receiver_ok_def raw_poller_ok_def)
  have dec: "\<forall>fd \<in> set ?fs. decodable (Data f) fd"
    using decodable_bounded [OF transaction_fields(1,2) [OF good(1) t]] assms(4) by simp
  have "\<forall>q \<in> set (response_points ?c ?t f). mpKind q = K (mpName q)" using response_kinds [OF good(1) t] by blast
  from add_enabled [OF good(2) this, of now "response_records ?c ?t f"]
  obtain ms ls mb lb where e: "do { ms \<leftarrow> addPoints now (metricsIfEnabled r) (response_points ?c ?t f);
        ls \<leftarrow> addRecords now (logsIfEnabled r) (response_records ?c ?t f); Some (ms, ls) } = Some (ms, ls)"
    "added K now r (response_points ?c ?t f) (response_records ?c ?t f) mb lb"
    "storeBuilders r ms ls = r\<lparr>rcMetricsBuilder := mb, rcLogsBuilder := lb\<rparr>" by blast
  have "emitRawTransaction now ?c ?t f (metricsIfEnabled r) (logsIfEnabled r) = Some (ms, ls)"
    using e(1) unfolding emitRawTransaction_fields emitFields_spec [OF dec] response_points_def response_records_def .
  then show ?thesis using e(2,3) by blast
qed

lemma flushMetrics_ok:
  assumes "builders_ok K r" "flushMetrics r = (md, r1)"
  shows "\<exists>mb. r1 = r\<lparr>rcMetricsBuilder := mb\<rparr> \<and> builders_ok K r1 \<and>
    metrics.flushed md + mb_items mb = mb_items (rcMetricsBuilder r)"
proof -
  have good: "mb_good (rcMetricsBuilder r)" "kinds_ok K (rcMetricsBuilder r)" "lb_good (rcLogsBuilder r)"
    using assms(1) by (simp_all add: builders_ok_def)
  obtain mb where mb: "metrics.flush (rcMetricsConsumer r) (rcMetricsBuilder r) = (md, mb)" "r1 = r\<lparr>rcMetricsBuilder := mb\<rparr>"
    using assms(2) by (auto simp: flushMetrics_flush split: prod.splits)
  have "kinds_ok K mb"
    using mb(1) good(2) by (auto simp: metrics.flush_def MetricsEmit_def kinds_ok_def split: if_splits)
  then show ?thesis
    using metrics.flush_conserves [OF good(1) mb(1)] mb(2) good(3) by (auto simp: builders_ok_def)
qed

lemma flushLogs_ok:
  assumes "builders_ok K r" "flushLogs r = (ld, r1)"
  shows "\<exists>lb. r1 = r\<lparr>rcLogsBuilder := lb\<rparr> \<and> builders_ok K r1 \<and>
    logs.flushed ld + lb_items lb = lb_items (rcLogsBuilder r)"
proof -
  have good: "lb_good (rcLogsBuilder r)" using assms(1) by (simp add: builders_ok_def)
  obtain lb where lb: "logs.flush (rcLogsConsumer r) (rcLogsBuilder r) = (ld, lb)" "r1 = r\<lparr>rcLogsBuilder := lb\<rparr>"
    using assms(2) by (auto simp: flushLogs_flush split: prod.splits)
  then show ?thesis
    using logs.flush_conserves [OF good lb(1)] assms(1) by (auto simp: builders_ok_def)
qed

lemma no_items:
  "metric_items now r [] = {#}" "log_items now r [] = {#}"
  by (simp_all add: metric_items_def log_items_def enabled_points_def enabled_records_def)

text \<open>A section that touches neither builder, and one that adds to them.\<close>

lemma conserves_silent:
  "rcMetricsBuilder r' = rcMetricsBuilder r \<Longrightarrow> rcLogsBuilder r' = rcLogsBuilder r \<Longrightarrow> rcCfg r' = rcCfg r \<Longrightarrow>
   rcMetricsConsumer r' = rcMetricsConsumer r \<Longrightarrow> rcLogsConsumer r' = rcLogsConsumer r \<Longrightarrow> conserves r {#} {#} silent r'"
  by (rule conserves_idle) (simp_all add: silent_def)

lemma conserves_added:
  assumes "added K now r ps rs mb lb" "outMetrics out = None" "outLogs out = None"
    and "rcMetricsBuilder r' = mb" "rcLogsBuilder r' = lb" "rcCfg r' = rcCfg r"
    and "rcMetricsConsumer r' = rcMetricsConsumer r" "rcLogsConsumer r' = rcLogsConsumer r"
  shows "conserves r (metric_items now r ps) (log_items now r rs) out r'"
  using assms by (simp add: conserves_def added_def metric_items_def log_items_def metrics.flushed_def logs.flushed_def)

definition section_ok ::
  "(string \<Rightarrow> MetricKind) \<Rightarrow> nat \<Rightarrow> int \<Rightarrow> canopenReceiver \<Rightarrow> position \<Rightarrow> (canopenReceiver \<times> position \<times> emission) option \<Rightarrow> bool" where
  "section_ok K n now r at res \<longleftrightarrow> (\<exists>r' at' out. res = Some (r', at', out) \<and> receiver_ok K (Suc n) r' \<and> position_ok r' at' \<and>
     conserves r (metric_items now r (section_points r at)) (log_items now r (section_records r at)) out r')"

lemma section_poller:
  assumes "receiver_ok K n r" "small f"
  shows "section_ok K n now r (AtPoller f) (loopStep now connSend r (AtPoller f))"
proof -
  have ok: "receiver_ok K (Suc n) r" "receiver_ok K (Suc n) (r\<lparr>rcPoller := p\<rparr>)" for p
    using receiver_ok_mono [OF assms(1), of "Suc n"] by (simp_all add: receiver_ok_def builders_ok_def raw_poller_ok_def)
  show ?thesis
  proof (cases "rcPoller r")
    case None
    then show ?thesis using ok assms(2) by (simp add: section_ok_def no_items conserves_silent)
  next
    case (Some p)
    obtain p1 req where h: "sdoHandleFrame p f = (p1, req)" by force
    have "small q" if "req = Some q" for q
      using poll_request_length [of r f q] that Some h by (simp add: poll_request_def small_def)
    then show ?thesis
      using Some h ok assms(2) by (cases req) (simp_all add: section_ok_def no_items conserves_silent)
  qed
qed

lemma section_sniffing:
  assumes "receiver_ok K n r" "n < 2 ^ 50" "small f"
  shows "section_ok K n now r (AtSniff f) (loopStep now connSend r (AtSniff f))"
    "small g \<Longrightarrow> section_ok K n now r (AtRequest g f) (loopStep now connSend r (AtRequest g f))"
proof -
  obtain mb lb where s: "sniffFrame now r f =
      Some (r\<lparr>rcSniff := next_state (rcSniff r) f, rcMetricsBuilder := mb, rcLogsBuilder := lb\<rparr>)"
    "added K now r (frame_points (rcSniff r) f) (frame_records (rcSniff r) f) mb lb"
    "receiver_ok K (Suc n) (r\<lparr>rcSniff := next_state (rcSniff r) f, rcMetricsBuilder := mb, rcLogsBuilder := lb\<rparr>)"
    using sniffFrame_ok [OF assms(1,2), of f now] assms(3) by (auto simp: small_def)
  show "section_ok K n now r (AtSniff f) (loopStep now connSend r (AtSniff f))"
    using s conserves_added [OF s(2)] by (simp add: section_ok_def silent_def)
  show "section_ok K n now r (AtRequest g f) (loopStep now connSend r (AtRequest g f))" if "small g"
    using s conserves_added [OF s(2)] that by (simp add: section_ok_def sendPollFrame_def silent_def)
qed

lemma section_claim:
  assumes "receiver_ok K n r" "small f"
  shows "section_ok K n now r (AtRaw f) (loopStep now connSend r (AtRaw f))"
proof (cases "rcRawPoller r")
  case None
  then show ?thesis
    using assms(2) receiver_ok_mono [OF assms(1), of "Suc n"] by (simp add: section_ok_def no_items conserves_silent)
next
  case (Some p)
  have ok: "receiver_ok K (Suc n) (r\<lparr>rcRawPoller := Some (p\<lparr>rpActive := None\<rparr>)\<rparr>)" "receiver_ok K (Suc n) (r\<lparr>rcRawPoller := Some p\<rparr>)"
    using receiver_ok_mono [OF assms(1), of "Suc n"] Some by (simp_all add: receiver_ok_def builders_ok_def raw_poller_ok_def)
  show ?thesis
  proof (cases "claimed_by r f")
    case None
    then show ?thesis
      using Some claim_of(1) [OF assms(1) Some, of f] ok assms(2) by (simp add: section_ok_def no_items conserves_silent)
  next
    case t: (Some t)
    then obtain a where "rpActive p = Some a" "a < length (rpHeap p)" using claim_of(2) [OF assms(1) Some] by blast
    then show ?thesis
      using Some claim_of(1) [OF assms(1) Some, of f] t ok assms(2)
      by (simp add: section_ok_def no_items conserves_silent active_known_def)
  qed
qed

lemma section_emit:
  assumes "receiver_ok K n r" "small f" "active_known r a"
  shows "section_ok K n now r (AtEmit f a) (loopStep now connSend r (AtEmit f a))"
proof -
  obtain p where p: "rcRawPoller r = Some p" "a < length (rpHeap p)" using assms(3) by (auto simp: active_known_def)
  obtain ms ls mb lb where e: "emitRawTransaction now (rcCfg r) (arTransaction (rpHeap p ! a)) f (metricsIfEnabled r) (logsIfEnabled r) =
      Some (ms, ls)" "storeBuilders r ms ls = r\<lparr>rcMetricsBuilder := mb, rcLogsBuilder := lb\<rparr>"
    "added K now r (response_points (rcCfg r) (arTransaction (rpHeap p ! a)) f)
      (response_records (rcCfg r) (arTransaction (rpHeap p ! a)) f) mb lb"
    using emitted_response [OF assms(1) p, of f now] assms(2) by (auto simp: small_def)
  have "receiver_ok K (Suc n) (r\<lparr>rcMetricsBuilder := mb, rcLogsBuilder := lb\<rparr>)"
    using receiver_ok_mono [OF assms(1), of "Suc n"] e(3) by (simp add: receiver_ok_def builders_ok_def added_def raw_poller_ok_def)
  then show ?thesis
    using p e conserves_added [OF e(3)] by (simp add: section_ok_def active_known_def silent_def)
qed

lemma section_complete:
  assumes "receiver_ok K n r" "active_known r a"
  shows "section_ok K n now r (AtComplete a) (loopStep now connSend r (AtComplete a))"
proof -
  obtain p where p: "rcRawPoller r = Some p" "a < length (rpHeap p)" using assms(2) by (auto simp: active_known_def)
  have "rpTransactions (rawComplete p a) = rpTransactions p" "rpActive (rawComplete p a) = rpActive p"
    "length (rpHeap (rawComplete p a)) = length (rpHeap p)"
    "\<forall>x \<in> set (rpHeap (rawComplete p a)). arTransaction x \<in> arTransaction ` set (rpHeap p)"
    using p(2) by (auto simp: rawComplete_def Let_def dest!: set_update_subset_insert [THEN subsetD])
  then have "receiver_ok K (Suc n) (r\<lparr>rcRawPoller := Some (rawComplete p a)\<rparr>)"
    using receiver_ok_mono [OF assms(1), of "Suc n"] p(1) by (fastforce simp: receiver_ok_def builders_ok_def raw_poller_ok_def)
  then show ?thesis using p by (simp add: section_ok_def no_items conserves_silent)
qed

lemma section_flush:
  assumes "receiver_ok K n r"
  shows "section_ok K n now r AtMetrics (loopStep now connSend r AtMetrics)"
    "section_ok K n now r AtLogs (loopStep now connSend r AtLogs)"
proof -
  have b: "builders_ok K r" using assms by (simp add: receiver_ok_def)
  obtain md r1 ld r2 where f: "flushMetrics r = (md, r1)" "flushLogs r = (ld, r2)" by force
  have "receiver_ok K (Suc n) r1" "receiver_ok K (Suc n) r2"
    using receiver_ok_mono [OF assms, of "Suc n"] flushMetrics_ok [OF b f(1)] flushLogs_ok [OF b f(2)]
    by (auto simp: receiver_ok_def raw_poller_ok_def)
  then show "section_ok K n now r AtMetrics (loopStep now connSend r AtMetrics)"
    "section_ok K n now r AtLogs (loopStep now connSend r AtLogs)"
    using f flushMetrics_ok [OF b f(1)] flushLogs_ok [OF b f(2)]
    by (auto simp: section_ok_def no_items conserves_def silent_def metrics.flushed_def logs.flushed_def)
qed

lemma loopStep_ok:
  assumes "receiver_ok K n r" "n < 2 ^ 50" "position_ok r at" "at \<noteq> Receiving"
  shows "section_ok K n now r at (loopStep now connSend r at)"
  using assms section_flush
  by (cases at) (auto intro: section_poller section_sniffing section_claim section_emit section_complete simp del: loopStep.simps)

subsection \<open>Runs\<close>

lemma section_step_ok:
  assumes "section_step connSend (r, at) ev out (r', at')" "receiver_ok K n r" "n + 2 \<le> 2 ^ 50" "position_ok r at" "small_event ev"
  shows "receiver_ok K (n + 2) r' \<and> position_ok r' at' \<and> conserves r (section_metrics (r, at) ev) (section_logs (r, at) ev) out r'"
  using assms(1)
proof cases
  case (arrived f)
  then show ?thesis
    using assms(5) receiver_ok_mono [OF assms(2), of "n + 2"] by (simp add: conserves_silent)
next
  case (loop now)
  then show ?thesis
    using loopStep_ok [OF assms(2) _ assms(4), of now connSend] assms(3) receiver_ok_mono [of K "Suc n" r' "n + 2"]
    by (auto simp: section_ok_def)
next
  case (other ev')
  then have "short ev'" by (cases ev') simp_all
  then show ?thesis
    using step_ok [OF other(3) assms(2,3)] other position_ok_mono [OF assms(4) other_keeps_active [OF other(3,4)]] by simp
qed

text \<open>The frames that arrived, those whose content was taken up, and the one still on its way.\<close>

fun arrival :: "section_event \<Rightarrow> Frame list" where
  "arrival (Arrived f) = [f]"
| "arrival ev = []"

fun taken_up :: "position \<Rightarrow> section_event \<Rightarrow> Frame list" where
  "taken_up (AtSniff f) (LoopSection now) = [f]"
| "taken_up (AtEmit f a) (LoopSection now) = [f]"
| "taken_up at ev = []"

fun pending :: "position \<Rightarrow> Frame list" where
  "pending (AtPoller f) = [f]"
| "pending (AtRequest f q) = [f]"
| "pending (AtRaw f) = [f]"
| "pending (AtSniff f) = [f]"
| "pending (AtEmit f a) = [f]"
| "pending at = []"

definition arrivals :: "section_trace \<Rightarrow> Frame list" where
  "arrivals tr = concat (map (\<lambda>(x, ev, out). arrival ev) tr)"

definition handled :: "section_trace \<Rightarrow> Frame list" where
  "handled tr = concat (map (\<lambda>((r, at), ev, out). taken_up at ev) tr)"

lemma loopStep_pending:
  "loopStep now connSend r at = Some (r', at', out) \<Longrightarrow> pending at = taken_up at (LoopSection now) @ pending at'"
  by (cases at) (auto split: option.splits prod.splits simp: bind_eq_Some_conv)

lemma section_step_pending:
  assumes "section_step connSend (r, at) ev out (r', at')"
  shows "pending at @ arrival ev = taken_up at ev @ pending at'"
  using assms
proof cases
  case (loop now)
  then show ?thesis using loopStep_pending [OF loop(3)] by simp
qed (cases at, simp_all)

lemma handled_in_order:
  assumes "section_runs connSend x tr y"
  shows "pending (snd x) @ arrivals tr = handled tr @ pending (snd y)"
  using assms
proof (induction rule: section_runs.induct)
  case (more tr y ev out z)
  then show ?case
    using section_step_pending [of connSend "fst y" "snd y" ev out "fst z" "snd z"]
    by (cases y) (simp add: arrivals_def handled_def, metis append_assoc)
qed (simp add: arrivals_def handled_def)

definition sections_contributed :: "section_trace \<Rightarrow> metric_item multiset \<times> log_item multiset" where
  "sections_contributed tr =
     (sum_list (map (\<lambda>(x, ev, out). section_metrics x ev) tr), sum_list (map (\<lambda>(x, ev, out). section_logs x ev) tr))"

definition sections_delivered :: "section_trace \<Rightarrow> metric_item multiset \<times> log_item multiset" where
  "sections_delivered tr =
     (sum_list (map (\<lambda>(x, ev, out). metrics.flushed (outMetrics out)) tr),
      sum_list (map (\<lambda>(x, ev, out). logs.flushed (outLogs out)) tr))"

lemma section_run_ok:
  assumes "section_runs connSend x tr y" "receiver_ok K n (fst x)" "position_ok (fst x) (snd x)" "n + 2 * length tr \<le> 2 ^ 50"
    and "\<forall>(z, ev, out) \<in> set tr. small_event ev"
  shows "receiver_ok K (n + 2 * length tr) (fst y) \<and> position_ok (fst y) (snd y) \<and>
    fst (sections_delivered tr) + mb_items (rcMetricsBuilder (fst y)) =
      fst (sections_contributed tr) + mb_items (rcMetricsBuilder (fst x)) \<and>
    snd (sections_delivered tr) + lb_items (rcLogsBuilder (fst y)) =
      snd (sections_contributed tr) + lb_items (rcLogsBuilder (fst x))"
  using assms
proof (induction rule: section_runs.induct)
  case start
  then show ?case by (simp add: sections_delivered_def sections_contributed_def)
next
  case (more tr y ev out z)
  then have ih: "receiver_ok K (n + 2 * length tr) (fst y)" "position_ok (fst y) (snd y)"
    "fst (sections_delivered tr) + mb_items (rcMetricsBuilder (fst y)) =
       fst (sections_contributed tr) + mb_items (rcMetricsBuilder (fst x))"
    "snd (sections_delivered tr) + lb_items (rcLogsBuilder (fst y)) =
       snd (sections_contributed tr) + lb_items (rcLogsBuilder (fst x))"
    by auto
  have s: "receiver_ok K (n + 2 * length tr + 2) (fst z)" "position_ok (fst z) (snd z)"
    "conserves (fst y) (section_metrics y ev) (section_logs y ev) out (fst z)"
    using section_step_ok [of connSend "fst y" "snd y" ev out "fst z" "snd z" K, OF _ ih(1) _ ih(2)] more.hyps(2) more.prems
    by auto
  have "fst (sections_delivered tr) + (metrics.flushed (outMetrics out) + mb_items (rcMetricsBuilder (fst z))) =
      section_metrics y ev + (fst (sections_contributed tr) + mb_items (rcMetricsBuilder (fst x)))"
    using s(3) ih(3) by (simp add: conserves_def ac_simps)
  moreover have "snd (sections_delivered tr) + (logs.flushed (outLogs out) + lb_items (rcLogsBuilder (fst z))) =
      section_logs y ev + (snd (sections_contributed tr) + lb_items (rcLogsBuilder (fst x)))"
    using s(3) ih(4) by (simp add: conserves_def ac_simps)
  ultimately show ?case
    using s(1,2) by (simp add: sections_delivered_def sections_contributed_def ac_simps)
qed

text \<open>
  A validated receiver never panics in any interleaving of the sections, the frames that arrive
  are taken up each once and in order, and what the sections add is delivered once or still in
  the builders.
\<close>

lemma sections_never_panic:
  assumes "snd (Validate c) = None" "config_bounded (fst (Validate c))" "kinds_agree K (fst (Validate c))"
    and "section_runs connSend (launched (fst (Validate c)) mc lc, Receiving) tr (r, at)" "length tr < 2 ^ 48"
    and "\<forall>(z, ev, out) \<in> set tr. small_event ev"
  shows "loopStep now connSend r at \<noteq> None"
    "rcPoller r = Some p \<Longrightarrow> spActive p = Some a \<Longrightarrow> sendPollFrame now connSend r (pollRequest p (apObject a)) \<noteq> None"
    "arrivals tr = handled tr @ pending at"
    "fst (sections_delivered tr) + mb_items (rcMetricsBuilder r) = fst (sections_contributed tr)"
    "snd (sections_delivered tr) + lb_items (rcLogsBuilder r) = snd (sections_contributed tr)"
proof -
  note good = validated_good [OF assms(1-3)]
  have run: "receiver_ok K (2 * length tr) r \<and> position_ok r at \<and>
      fst (sections_delivered tr) + mb_items (rcMetricsBuilder r) = fst (sections_contributed tr) \<and>
      snd (sections_delivered tr) + lb_items (rcLogsBuilder r) = snd (sections_contributed tr)"
    using section_run_ok [OF assms(4) _ _ _ assms(6), of K 0] launched_ok(1,4,5) [OF good, of mc lc] assms(5) by simp
  then show "loopStep now connSend r at \<noteq> None"
    using loopStep_ok [of K "2 * length tr" r at now connSend] assms(5) by (cases "at = Receiving") (auto simp: section_ok_def)
  show "sendPollFrame now connSend r (pollRequest p (apObject a)) \<noteq> None"
    if "rcPoller r = Some p" "spActive p = Some a"
    using sendPollFrame_ok [of K "2 * length tr" r now connSend p "apObject a"] run assms(5) by auto
  show "arrivals tr = handled tr @ pending at" using handled_in_order [OF assms(4)] by simp
  show "fst (sections_delivered tr) + mb_items (rcMetricsBuilder r) = fst (sections_contributed tr)"
    "snd (sections_delivered tr) + lb_items (rcLogsBuilder r) = snd (sections_contributed tr)"
    using run by simp_all
qed

subsection \<open>An undisturbed iteration\<close>

definition joined :: "emission \<Rightarrow> emission \<Rightarrow> emission" where
  "joined x y = \<lparr>outSent = outSent x @ outSent y,
     outMetrics = (if outMetrics x = None then outMetrics y else outMetrics x),
     outLogs = (if outLogs x = None then outLogs y else outLogs x)\<rparr>"

text \<open>With nothing in between, the sections are \<open>dispatchFrame\<close>, panics included; seven are enough.\<close>

primrec undisturbed ::
  "int \<Rightarrow> (Frame \<Rightarrow> go_error option) \<Rightarrow> nat \<Rightarrow> canopenReceiver \<Rightarrow> position \<Rightarrow> (canopenReceiver \<times> position \<times> emission) option" where
  "undisturbed now connSend 0 r at = Some (r, at, silent)"
| "undisturbed now connSend (Suc k) r at =
     do {
       (r1, at1, out) \<leftarrow> loopStep now connSend r at;
       (r2, at2, rest) \<leftarrow> undisturbed now connSend k r1 at1;
       Some (r2, at2, joined out rest)
     }"

definition iteration_end :: "canopenReceiver \<Rightarrow> Frame list \<Rightarrow> canopenReceiver \<times> position \<times> emission" where
  "iteration_end r sent = (case flushMetrics r of (md, r1) \<Rightarrow> (case flushLogs r1 of (ld, r2) \<Rightarrow>
     (r2, Receiving, \<lparr>outSent = sent, outMetrics = md, outLogs = ld\<rparr>)))"

lemma joined_silent [simp]: "joined silent x = x" "joined x silent = x"
  by (cases x; simp add: joined_def silent_def)+

lemma joined_iteration_end:
  "(case iteration_end r sent of (r2, at2, rest) \<Rightarrow> Some (r2, at2, joined (silent\<lparr>outSent := qs\<rparr>) rest)) =
     Some (iteration_end r (qs @ sent))"
  by (simp add: iteration_end_def joined_def silent_def split: prod.split)

lemma undisturbed_waits: "undisturbed now connSend k r Receiving = Some (r, Receiving, silent)"
  by (induction k) simp_all

lemma undisturbed_flush: "undisturbed now connSend (Suc (Suc k)) r AtMetrics = Some (iteration_end r [])"
  by (simp add: undisturbed_waits iteration_end_def joined_def silent_def split: prod.split)

text \<open>A section that sends and emits nothing, and one that panics.\<close>

lemmas undisturbed_Suc = undisturbed.simps(2)
declare undisturbed.simps [simp del]

lemma undisturbed_quiet:
  assumes "loopStep now connSend r at = Some (r1, at1, silent)"
  shows "undisturbed now connSend (Suc k) r at = undisturbed now connSend k r1 at1"
proof (cases "undisturbed now connSend k r1 at1")
  case (Some x)
  then show ?thesis using assms by (cases x) (simp add: undisturbed_Suc)
qed (simp add: assms undisturbed_Suc)

lemma undisturbed_panics:
  "loopStep now connSend r at = None \<Longrightarrow> undisturbed now connSend (Suc k) r at = None"
  by (simp add: undisturbed_Suc)

lemma undisturbed_sniff:
  "undisturbed now connSend (Suc (Suc (Suc k))) r (AtSniff f) = map_option (\<lambda>r1. iteration_end r1 []) (sniffFrame now r f)"
proof (cases "sniffFrame now r f")
  case None
  then show ?thesis using undisturbed_panics [of now connSend r "AtSniff f"] by simp
next
  case (Some r1)
  then have "loopStep now connSend r (AtSniff f) = Some (r1, AtMetrics, silent)" by simp
  from undisturbed_quiet [OF this, of "Suc (Suc k)"] show ?thesis unfolding undisturbed_flush Some by simp
qed

lemma if_enabled_same:
  "metricsIfEnabled (r\<lparr>rcRawPoller := p\<rparr>) = metricsIfEnabled r" "logsIfEnabled (r\<lparr>rcRawPoller := p\<rparr>) = logsIfEnabled r"
  "rcRawPoller (storeBuilders r ms ls) = rcRawPoller r"
  by (simp_all add: storeBuilders_def metricsIfEnabled_def logsIfEnabled_def)

lemma storeBuilders_raw:
  "(storeBuilders (r\<lparr>rcRawPoller := p\<rparr>) ms ls)\<lparr>rcRawPoller := q\<rparr> = storeBuilders (r\<lparr>rcRawPoller := q\<rparr>) ms ls"
  by (cases ms; cases ls) (simp_all add: storeBuilders_def)

lemma storeBuilders_same: "storeBuilders r (metricsIfEnabled r) (logsIfEnabled r) = r"
  by (cases r) (simp add: storeBuilders_def metricsIfEnabled_def logsIfEnabled_def)

lemma if_enabled_stored: "storeBuilders (r\<lparr>rcRawPoller := p\<rparr>) (metricsIfEnabled r) (logsIfEnabled r) = r\<lparr>rcRawPoller := p\<rparr>"
  using storeBuilders_same [of "r\<lparr>rcRawPoller := p\<rparr>"] by (simp add: if_enabled_same(1,2))

lemma undisturbed_raw:
  "undisturbed now connSend (Suc (Suc (Suc (Suc (Suc k))))) r (AtRaw f) =
     do {
       (r1, response) \<leftarrow> dispatchRaw now r f;
       r2 \<leftarrow> (if \<not> response then sniffFrame now r1 f else Some r1);
       Some (iteration_end r2 [])
     }"
proof (cases "rcRawPoller r")
  case None
  then have "loopStep now connSend r (AtRaw f) = Some (r, AtSniff f, silent)" by simp
  from undisturbed_quiet [OF this, of "Suc (Suc (Suc (Suc k)))"] show ?thesis
    unfolding undisturbed_sniff using None by (simp add: dispatchRaw_def map_conv_bind_option comp_def)
next
  case (Some p)
  show ?thesis
  proof (cases "rawClaim p f")
    case None
    then show ?thesis
      using Some undisturbed_panics [of now connSend r "AtRaw f"] by (simp add: dispatchRaw_def rawHandleFrame_def)
  next
    case claim: (Some pc)
    obtain p1 c where pc: "pc = (p1, c)" by force
    let ?r = "r\<lparr>rcRawPoller := Some p1\<rparr>"
    show ?thesis
    proof (cases c)
      case None
      then have "loopStep now connSend r (AtRaw f) = Some (?r, AtSniff f, silent)" using Some claim pc by simp
      moreover have "dispatchRaw now r f = Some (?r, False)"
        using Some claim pc None by (simp add: dispatchRaw_def rawHandleFrame_def if_enabled_stored)
      ultimately show ?thesis
        using undisturbed_quiet [of now connSend r "AtRaw f" ?r "AtSniff f" "Suc (Suc (Suc (Suc k)))"]
        unfolding undisturbed_sniff by (cases "sniffFrame now ?r f") simp_all
    next
      case a: (Some a)
      then have s: "loopStep now connSend r (AtRaw f) = Some (?r, AtEmit f a, silent)" using Some claim pc by simp
      let ?e = "emitRawTransaction now (rcCfg r) (arTransaction (rpHeap p1 ! a)) f (metricsIfEnabled r) (logsIfEnabled r)"
      show ?thesis
      proof (cases ?e)
        case None
        then have "loopStep now connSend ?r (AtEmit f a) = None" by (simp add: if_enabled_same)
        moreover have "dispatchRaw now r f = None"
          using Some claim pc a None by (simp add: dispatchRaw_def rawHandleFrame_def)
        ultimately show ?thesis unfolding undisturbed_quiet [OF s] using undisturbed_panics by simp
      next
        case e: (Some b)
        obtain ms ls where b: "b = (ms, ls)" by force
        let ?r1 = "storeBuilders ?r ms ls" and ?r2 = "storeBuilders (r\<lparr>rcRawPoller := Some (rawComplete p1 a)\<rparr>) ms ls"
        have e1: "loopStep now connSend ?r (AtEmit f a) = Some (?r1, AtComplete a, silent)"
          using e b by (simp add: if_enabled_same)
        have e2: "loopStep now connSend ?r1 (AtComplete a) = Some (?r2, AtMetrics, silent)"
          by (simp add: if_enabled_same storeBuilders_raw)
        have "dispatchRaw now r f = Some (?r2, True)"
          using Some claim pc a e b by (simp add: dispatchRaw_def rawHandleFrame_def)
        then show ?thesis
          unfolding undisturbed_quiet [OF s] undisturbed_quiet [OF e1] undisturbed_quiet [OF e2] undisturbed_flush by simp
      qed
    qed
  qed
qed

lemma dispatchFrame_sections:
  "undisturbed now connSend 7 r (AtPoller f) = map_option (\<lambda>(r', out). (r', Receiving, out)) (dispatchFrame now connSend r f)"
proof -
  have seven: "7 = Suc (Suc (Suc (Suc (Suc (Suc (Suc 0))))))" by simp
  define rest where "rest r1 sent =
      do {
        (r2, response) \<leftarrow> dispatchRaw now r1 f;
        r3 \<leftarrow> (if \<not> response then sniffFrame now r2 f else Some r2);
        Some (iteration_end r3 sent)
      }" for r1 sent
  have spec: "map_option (\<lambda>(r', out). (r', Receiving, out)) (dispatchFrame now connSend r f) =
      do { (r1, sent) \<leftarrow> dispatchPoller now connSend r f; rest r1 sent }"
    by (simp add: dispatchFrame_def rest_def iteration_end_def map_option_bind case_prod_unfold Let_def comp_def)
  have raw: "undisturbed now connSend (Suc (Suc (Suc (Suc (Suc k))))) r1 (AtRaw f) = rest r1 []" for k r1
    unfolding undisturbed_raw rest_def ..
  show ?thesis
  proof (cases "rcPoller r")
    case None
    then have "loopStep now connSend r (AtPoller f) = Some (r, AtRaw f, silent)" by simp
    note quiet = undisturbed_quiet [OF this]
    show ?thesis unfolding spec seven quiet raw using None by (simp add: dispatchPoller_def)
  next
    case (Some p)
    obtain p1 req where h: "sdoHandleFrame p f = (p1, req)" by force
    let ?r = "r\<lparr>rcPoller := Some p1\<rparr>"
    show ?thesis
    proof (cases req)
      case None
      then have "loopStep now connSend r (AtPoller f) = Some (?r, AtRaw f, silent)" using Some h by simp
      note quiet = undisturbed_quiet [OF this]
      show ?thesis unfolding spec seven quiet raw using Some h None by (simp add: dispatchPoller_def)
    next
      case q: (Some q)
      then have s: "loopStep now connSend r (AtPoller f) = Some (?r, AtRequest f q, silent)" using Some h by simp
      show ?thesis
      proof (cases "sendPollFrame now connSend ?r q")
        case None
        then show ?thesis
          unfolding spec seven undisturbed_quiet [OF s] using Some h q by (simp add: dispatchPoller_def undisturbed_panics)
      next
        case sent: (Some x)
        obtain r1 err where x: "x = (r1, err)" by force
        have "rest r1 [q] = do { (r2, at2, out) \<leftarrow> rest r1 []; Some (r2, at2, joined (silent\<lparr>outSent := [q]\<rparr>) out) }"
          unfolding rest_def using joined_iteration_end [of "[q]" _ "[]"] by (simp add: case_prod_unfold)
        moreover have "undisturbed now connSend (Suc (Suc (Suc (Suc (Suc (Suc 0)))))) ?r (AtRequest f q) =
            do { (r2, at2, out) \<leftarrow> rest r1 []; Some (r2, at2, joined (silent\<lparr>outSent := [q]\<rparr>) out) }"
          using sent x by (subst undisturbed_Suc) (simp only: loopStep.simps raw Option.bind.simps prod.case)
        ultimately show ?thesis
          unfolding spec seven undisturbed_quiet [OF s] using Some h q sent x by (simp add: dispatchPoller_def)
      qed
    qed
  qed
qed

end
