(* ===== verification/Factory.thy ===== *)
theory Factory
  imports Receiver
begin

section \<open>factory.go: one receiver per component\<close>

text \<open>
  Models factory.go. The package variable \<open>sharedReceivers\<close> maps a component ID to a pointer,
  which is a position in the list of all receivers created. A configuration of another type
  than \<open>*Config\<close> is None. Setting a consumer makes it non-nil, or nil if the pipeline's is.
\<close>

datatype factory_error = InvalidConfigType

type_synonym instanceKey = string

record factory =
  sharedReceivers :: "instanceKey \<rightharpoonup> nat"
  receivers :: "canopenReceiver list"

definition getOrCreateReceiver :: "instanceKey \<Rightarrow> Config \<Rightarrow> factory \<Rightarrow> nat \<times> factory" where
  "getOrCreateReceiver key c st =
     (case sharedReceivers st key of
        Some r \<Rightarrow> (r, st)
      | None \<Rightarrow>
          (let r = length (receivers st)
           in (r, st\<lparr>receivers := receivers st @ [newCanopenReceiver c],
                     sharedReceivers := (sharedReceivers st)(key \<mapsto> r)\<rparr>)))"

definition createMetricsReceiver :: "instanceKey \<Rightarrow> Config option \<Rightarrow> bool \<Rightarrow> factory \<Rightarrow> (factory_error + nat) \<times> factory" where
  "createMetricsReceiver key rawCfg consumer st =
     (case rawCfg of
        None \<Rightarrow> (Inl InvalidConfigType, st)
      | Some c \<Rightarrow>
          (case getOrCreateReceiver key c st of
             (r, st1) \<Rightarrow> (Inr r, st1\<lparr>receivers := (receivers st1)[r := (receivers st1 ! r)\<lparr>rcMetricsConsumer := consumer\<rparr>]\<rparr>)))"

definition createLogsReceiver :: "instanceKey \<Rightarrow> Config option \<Rightarrow> bool \<Rightarrow> factory \<Rightarrow> (factory_error + nat) \<times> factory" where
  "createLogsReceiver key rawCfg consumer st =
     (case rawCfg of
        None \<Rightarrow> (Inl InvalidConfigType, st)
      | Some c \<Rightarrow>
          (case getOrCreateReceiver key c st of
             (r, st1) \<Rightarrow> (Inr r, st1\<lparr>receivers := (receivers st1)[r := (receivers st1 ! r)\<lparr>rcLogsConsumer := consumer\<rparr>]\<rparr>)))"

definition emptyFactory :: factory where
  "emptyFactory = \<lparr>sharedReceivers = Map.empty, receivers = []\<rparr>"

text \<open>Pointers are valid, and no two components share one.\<close>

definition factory_ok :: "factory \<Rightarrow> bool" where
  "factory_ok st \<longleftrightarrow> (\<forall>r \<in> ran (sharedReceivers st). r < length (receivers st)) \<and>
     inj_on (sharedReceivers st) (dom (sharedReceivers st))"

lemma factory_ok_empty: "factory_ok emptyFactory"
  by (simp add: factory_ok_def emptyFactory_def)

lemma getOrCreate_ok:
  assumes "factory_ok st" "getOrCreateReceiver key c st = (r, st1)"
  shows "factory_ok st1" "sharedReceivers st1 key = Some r" "r < length (receivers st1)"
    "sharedReceivers st k = Some x \<Longrightarrow> sharedReceivers st1 k = Some x \<and> receivers st1 ! x = receivers st ! x"
proof -
  have valid: "sharedReceivers st k = Some x \<Longrightarrow> x < length (receivers st)" for k x
    using assms(1) by (auto simp: factory_ok_def ran_def)
  show "factory_ok st1"
  proof (cases "sharedReceivers st key")
    case None
    then have "inj_on ((sharedReceivers st)(key \<mapsto> length (receivers st))) (dom ((sharedReceivers st)(key \<mapsto> length (receivers st))))"
      using assms(1) valid by (fastforce simp: factory_ok_def inj_on_def)
    then show ?thesis
      using assms None by (auto simp: getOrCreateReceiver_def Let_def factory_ok_def ran_def less_Suc_eq split: if_splits dest: valid)
  qed (use assms in \<open>simp add: getOrCreateReceiver_def\<close>)
  show "sharedReceivers st1 key = Some r" "r < length (receivers st1)"
    using assms(2) valid by (auto simp: getOrCreateReceiver_def Let_def split: option.splits)
  show "sharedReceivers st k = Some x \<Longrightarrow> sharedReceivers st1 k = Some x \<and> receivers st1 ! x = receivers st ! x"
    using assms(2) valid by (auto simp: getOrCreateReceiver_def Let_def nth_append split: option.splits)
qed

lemma factory_ok_update: "factory_ok st \<Longrightarrow> factory_ok (st\<lparr>receivers := (receivers st)[r := x]\<rparr>)"
  by (simp add: factory_ok_def)

section \<open>Properties\<close>

text \<open>
  C39. The two signals of a component share one receiver, and components share none: whatever
  was created before, a metrics and then a logs receiver are the same instance if and only if
  they are for the same component, each has the consumer it was given, and every receiver
  handed out before is handed out again for its component.
\<close>
theorem signals_share_receiver:
  assumes "factory_ok st" "createMetricsReceiver m (Some c) mc st = (Inr a, st1)" "createLogsReceiver l (Some d) lc st1 = (Inr b, st2)"
  shows "factory_ok st2 \<and> (a = b \<longleftrightarrow> m = l) \<and> rcMetricsConsumer (receivers st2 ! a) = mc \<and>
    rcLogsConsumer (receivers st2 ! b) = lc \<and> sharedReceivers st2 m = Some a \<and> sharedReceivers st2 l = Some b \<and>
    (\<forall>key x. sharedReceivers st key = Some x \<longrightarrow> sharedReceivers st2 key = Some x)"
proof -
  obtain s1 where 1: "getOrCreateReceiver m c st = (a, s1)"
    "st1 = s1\<lparr>receivers := (receivers s1)[a := (receivers s1 ! a)\<lparr>rcMetricsConsumer := mc\<rparr>]\<rparr>"
    using assms(2) by (auto simp: createMetricsReceiver_def split: prod.splits)
  note g1 = getOrCreate_ok [OF assms(1) 1(1)]
  have ok1: "factory_ok st1" unfolding 1(2) by (rule factory_ok_update [OF g1(1)])
  obtain s2 where 2: "getOrCreateReceiver l d st1 = (b, s2)"
    "st2 = s2\<lparr>receivers := (receivers s2)[b := (receivers s2 ! b)\<lparr>rcLogsConsumer := lc\<rparr>]\<rparr>"
    using assms(3) by (auto simp: createLogsReceiver_def split: prod.splits)
  note g2 = getOrCreate_ok [OF ok1 2(1)]
  have a1: "sharedReceivers st1 m = Some a" "rcMetricsConsumer (receivers st1 ! a) = mc"
    using g1(2,3) 1(2) by simp_all
  have a2: "sharedReceivers s2 m = Some a" "rcMetricsConsumer (receivers s2 ! a) = mc"
    using g2(4) [OF a1(1)] a1(2) by simp_all
  have inj: "a = b \<longleftrightarrow> m = l"
  proof
    assume "a = b"
    moreover have "inj_on (sharedReceivers s2) (dom (sharedReceivers s2))" using g2(1) by (simp add: factory_ok_def)
    ultimately show "m = l" using a2(1) g2(2) by (auto simp: inj_on_def dom_def)
  qed (use a2(1) g2(2) in auto)
  have "sharedReceivers st2 key = Some x" if "sharedReceivers st key = Some x" for key x
    using g1(4) [OF that] g2(4) [of key x] 1(2) 2(2) by simp
  moreover have "rcMetricsConsumer (receivers st2 ! a) = mc" "rcLogsConsumer (receivers st2 ! b) = lc"
    using a2(2) g2(3) 2(2) by (cases "a = b"; simp)+
  ultimately show ?thesis
    using inj a2(1) g2(2) factory_ok_update [OF g2(1)] 2(2) by simp
qed

theorem signals_share_receiver_witness:
  "(case createMetricsReceiver ''canopen/a'' (Some sample_wired_config) True emptyFactory of
     (r, st) \<Rightarrow> (case createLogsReceiver ''canopen/a'' (Some sample_wired_config) True st of
       (r', st') \<Rightarrow> r = Inr 0 \<and> r' = Inr 0 \<and> rcMetricsConsumer (receivers st' ! 0) \<and> rcLogsConsumer (receivers st' ! 0)))"
proof -
  obtain st1 where 1: "createMetricsReceiver ''canopen/a'' (Some sample_wired_config) True emptyFactory = (Inr 0, st1)"
    "sharedReceivers st1 ''canopen/a'' = Some 0"
    by (simp add: createMetricsReceiver_def getOrCreateReceiver_def emptyFactory_def)
  obtain st2 where 2: "createLogsReceiver ''canopen/a'' (Some sample_wired_config) True st1 = (Inr 0, st2)"
    using 1(2) by (simp add: createLogsReceiver_def getOrCreateReceiver_def)
  show ?thesis using signals_share_receiver [OF factory_ok_empty 1(1) 2] 1(1) 2 by simp
qed

section \<open>Findings\<close>

text \<open>
  A receiver stays in \<open>sharedReceivers\<close> after its shutdown: creating the component again returns
  the stopped instance, whose \<open>Start\<close> does nothing and reports the old result.
\<close>

lemma stopped_receiver_returned:
  assumes "sharedReceivers st key = Some r" "rcStartOnce (receivers st ! r)" "rcClosed (receivers st ! r)"
  shows "fst (getOrCreateReceiver key c st) = r" "Start dialErr (receivers st ! r) = (receivers st ! r, rcStartErr (receivers st ! r))"
  using assms by (simp_all add: getOrCreateReceiver_def Start_def Let_def)

text \<open>The configuration of the signal created second is ignored.\<close>

lemma second_config_ignored:
  "sharedReceivers st key = Some r \<Longrightarrow> getOrCreateReceiver key c st = getOrCreateReceiver key d st"
  by (simp add: getOrCreateReceiver_def)

end
