(* ===== verification/Publisher.thy ===== *)
theory Publisher
  imports Wiring
begin

section \<open>cmd/canopen-publisher: a simulated node\<close>

text \<open>
  Models main.go of the publisher. The flags are as parsed (a node is a Go \<open>uint\<close>, durations are
  int64 nanoseconds); the error of \<open>socketcan.Dial\<close> and the ticks are arguments. The sample of a
  PDO tick, \<open>int16(1000 * math.Sin(elapsed))\<close>, is the argument of its tick; a tick of a ticker
  that was not created cannot come and is skipped. Frames are those of the can package, as in
  Transport; errors of the transmitter are only logged.
\<close>

record flags =
  flNode :: u64
  flHeartbeatInterval :: int
  flPDOInterval :: int
  flEMCYInterval :: int

datatype tick = Done | HeartbeatTick | PDOTick "16 word" | EMCYTick

datatype publisher_end = FatalNode u64 | FatalDial go_error | TickerPanic | Publishing | ShutDown

definition padded :: "bytes \<Rightarrow> bytes" where
  "padded data = take 8 (data @ replicate 8 0)"

definition bootupFrame :: "u32 \<Rightarrow> canFrame" where
  "bootupFrame i = \<lparr>canID = 0x700 + i, canLength = 1, canData = padded [0x00], canExtended = False\<rparr>"

definition heartbeatFrame :: "u32 \<Rightarrow> canFrame" where
  "heartbeatFrame i = \<lparr>canID = 0x700 + i, canLength = 1, canData = padded [0x05], canExtended = False\<rparr>"

text \<open>\<open>PutUint16\<close> of the sample's bits.\<close>

definition pdoFrame :: "u32 \<Rightarrow> 16 word \<Rightarrow> canFrame" where
  "pdoFrame i speed =
     \<lparr>canID = 0x180 + i, canLength = 2, canData = padded [ucast speed, ucast (drop_bit 8 speed)], canExtended = False\<rparr>"

definition emcyFrame :: "u32 \<Rightarrow> canFrame" where
  "emcyFrame i = \<lparr>canID = 0x080 + i, canLength = 8, canData = padded [], canExtended = False\<rparr>"

text \<open>The loop over the ticks: the frames sent and whether it was told to stop.\<close>

fun publishLoop :: "flags \<Rightarrow> u32 \<Rightarrow> tick list \<Rightarrow> canFrame list \<times> publisher_end" where
  "publishLoop fl i [] = ([], Publishing)"
| "publishLoop fl i (Done # ticks) = ([], ShutDown)"
| "publishLoop fl i (HeartbeatTick # ticks) =
     (case publishLoop fl i ticks of (fs, e) \<Rightarrow> (heartbeatFrame i # fs, e))"
| "publishLoop fl i (PDOTick speed # ticks) =
     (case publishLoop fl i ticks of (fs, e) \<Rightarrow> (pdoFrame i speed # fs, e))"
| "publishLoop fl i (EMCYTick # ticks) =
     (case publishLoop fl i ticks of (fs, e) \<Rightarrow> (if flEMCYInterval fl > 0 then emcyFrame i # fs else fs, e))"

text \<open>\<open>main\<close>; \<open>time.NewTicker\<close> panics on an interval that is not positive.\<close>

definition publisherMain :: "flags \<Rightarrow> go_error option \<Rightarrow> tick list \<Rightarrow> canFrame list \<times> publisher_end" where
  "publisherMain fl dialErr ticks =
     (if flNode fl < 1 \<or> flNode fl > 127 then ([], FatalNode (flNode fl))
      else
        (let i = ucast (flNode fl)
         in case dialErr of
              Some err \<Rightarrow> ([], FatalDial err)
            | None \<Rightarrow>
                if flHeartbeatInterval fl \<le> 0 then ([bootupFrame i], TickerPanic)
                else if flPDOInterval fl \<le> 0 then ([bootupFrame i], TickerPanic)
                else (case publishLoop fl i ticks of (fs, e) \<Rightarrow> (bootupFrame i # fs, e))))"

section \<open>What a receiver makes of it\<close>

text \<open>The frame a receiver gets from SocketCAN.\<close>

definition arrives :: "canFrame \<Rightarrow> Frame \<Rightarrow> bool" where
  "arrives cf f \<longleftrightarrow> socketRecv (Some (0 :: nat)) (\<lambda>_. None) True None cf = Some (Inr f)"

lemma arrives_frames:
  "arrives (bootupFrame i) f \<longleftrightarrow> f = \<lparr>ID = 0x700 + i, Extended = False, Data = [0]\<rparr>"
  "arrives (heartbeatFrame i) f \<longleftrightarrow> f = \<lparr>ID = 0x700 + i, Extended = False, Data = [5]\<rparr>"
  "arrives (pdoFrame i speed) f \<longleftrightarrow>
     f = \<lparr>ID = 0x180 + i, Extended = False, Data = [ucast speed, ucast (drop_bit 8 speed)]\<rparr>"
  "arrives (emcyFrame i) f \<longleftrightarrow> f = \<lparr>ID = 0x080 + i, Extended = False, Data = replicate 8 0\<rparr>"
  by (auto simp: arrives_def socketRecv_def bootupFrame_def heartbeatFrame_def pdoFrame_def emcyFrame_def padded_def)

lemma published:
  assumes "f \<in> set (fst (publisherMain fl dialErr ticks))"
  shows "flNode fl \<noteq> 0 \<and> flNode fl \<le> 127 \<and>
    (f \<in> {bootupFrame (ucast (flNode fl)), heartbeatFrame (ucast (flNode fl)), emcyFrame (ucast (flNode fl))} \<or>
     (\<exists>speed. PDOTick speed \<in> set ticks \<and> f = pdoFrame (ucast (flNode fl)) speed))"
proof -
  have loop: "f \<in> set (fst (publishLoop fl i ticks)) \<Longrightarrow>
      f \<in> {heartbeatFrame i, emcyFrame i} \<or> (\<exists>speed. PDOTick speed \<in> set ticks \<and> f = pdoFrame i speed)" for i
    by (induction fl i ticks rule: publishLoop.induct) (auto split: prod.splits if_splits)
  show ?thesis
    using assms by (auto simp: publisherMain_def Let_def not_less split_beta split: if_splits option.splits dest!: loop)
qed

lemma unat_word16: "unat (w :: 16 word) < 65536"
proof -
  have "unat w < 2 ^ LENGTH(16)" by (rule unsigned_less)
  then show ?thesis by simp
qed

lemma le_nat_word16: "le_nat [ucast (w :: 16 word), ucast (drop_bit 8 w)] = unat w"
proof -
  have "unat (drop_bit 8 w) = unat w div 256" by (subst unat_drop_bit_eq) (simp add: drop_bit_eq_div)
  then show ?thesis
    using unat_word16 [of w] by (simp add: unsigned_ucast_eq take_bit_eq_mod)
qed

lemma speed_field: "field_value Int16 (field_nat [ucast w, ucast (drop_bit 8 w)] 0 16) = sint (w :: 16 word)"
proof -
  have "sint (of_nat (unat w) :: 16 word) = twos_complement 16 (unat w)"
    using sint_of_field [where ?'a = 16 and n = 15 and x = "unat w"] unat_word16 [of w] by simp
  then show ?thesis
    using unat_word16 [of w] unfolding field_value_def field_nat_def le_nat_word16 by simp
qed

text \<open>A sniffer whose configuration does not claim a COB-ID for something else.\<close>

definition unclaimed :: "Sniffer \<Rightarrow> u32 \<Rightarrow> bool" where
  "unclaimed s i \<longleftrightarrow> i \<notin> RawCobIDs (cfg s) \<and> PDOs (cfg s) i = None \<and> sdoByCobID s i = None"

lemma node_ids:
  assumes "n \<noteq> 0" "n \<le> (127 :: u64)"
  shows "unat (0x700 + ucast n :: u32) = 0x700 + unat n" "unat (0x080 + ucast n :: u32) = 0x080 + unat n" "unat n \<le> 127" "0 < unat n"
proof -
  have n: "unat n \<le> 127" using assms(2) by (simp add: word_le_nat_alt)
  then have "unat (ucast n :: u32) = unat n" by (simp add: unsigned_ucast_eq take_bit_eq_mod)
  then show "unat (0x700 + ucast n :: u32) = 0x700 + unat n" "unat (0x080 + ucast n :: u32) = 0x080 + unat n"
    using n by (simp_all add: unat_word_ariths)
  show "unat n \<le> 127" "0 < unat n" using n assms(1) by (simp_all add: unat_gt_0)
qed

section \<open>Properties\<close>

text \<open>
  C40. What the publisher sends is what the receiver understands: every frame it ever sends, for
  any flags and any ticks, arrives over SocketCAN as a heartbeat (boot-up or operational) or an
  error-free emergency of its node, which a sniffer classifies as such unless configured
  otherwise for that COB-ID, or as the first transmit PDO of the node for one of its ticks, which
  a sniffer hands to the PDO configured for that COB-ID, and from which the codec decodes exactly
  the tick's signed sample.
\<close>
theorem published_frames_understood:
  assumes "cf \<in> set (fst (publisherMain fl dialErr ticks))"
  shows "\<exists>f. arrives cf f \<and>
    (ID f = 0x700 + ucast (flNode fl) \<and> (Data f = [0] \<or> Data f = [5]) \<and> (unclaimed s (ID f) \<longrightarrow> frame_class s f = HeartbeatFrame (of_nat (unat (flNode fl)))) \<or>
     ID f = 0x080 + ucast (flNode fl) \<and> Data f = replicate 8 0 \<and> (unclaimed s (ID f) \<longrightarrow> frame_class s f = EmcyFrame (of_nat (unat (flNode fl)))) \<or>
     ID f = 0x180 + ucast (flNode fl) \<and>
     (\<forall>pdo. PDOs (cfg s) (ID f) = Some pdo \<longrightarrow> ID f \<notin> RawCobIDs (cfg s) \<longrightarrow> frame_class s f = PDOFrame pdo) \<and>
     (\<exists>speed v. PDOTick speed \<in> set ticks \<and> Decode (Data f) Int16 0 0 = Some (Inr v) \<and>
        f64_to_int (ApplyScale v 0 0) = Some (sint speed)))"
proof -
  let ?i = "ucast (flNode fl) :: u32"
  note p = published [OF assms]
  note ids = node_ids [OF conjunct1 [OF p] conjunct1 [OF conjunct2 [OF p]]]
  have hb: "frame_class s \<lparr>ID = 0x700 + ?i, Extended = False, Data = d\<rparr> = HeartbeatFrame (of_nat (unat (flNode fl)))"
      if "unclaimed s (0x700 + ?i)" for d
    using that ids by (simp add: unclaimed_def frame_class_def in_range_def Let_def)
  have emcy: "frame_class s \<lparr>ID = 0x080 + ?i, Extended = False, Data = d\<rparr> = EmcyFrame (of_nat (unat (flNode fl)))"
      if "unclaimed s (0x080 + ?i)" for d
    using that ids by (simp add: unclaimed_def frame_class_def in_range_def Let_def)
  have speed: "\<exists>v. Decode [ucast w, ucast (drop_bit 8 w)] Int16 0 0 = Some (Inr v) \<and> f64_to_int (ApplyScale v 0 0) = Some (sint w)"
    for w :: "16 word"
    using Decode_exact_value [of Int16 0 "[ucast w, ucast (drop_bit 8 w)]" 0] speed_field [of w]
    by (auto simp: integer_type_def BitWidth_def)
  consider "cf = bootupFrame ?i" | "cf = heartbeatFrame ?i" | "cf = emcyFrame ?i"
    | w where "PDOTick w \<in> set ticks" "cf = pdoFrame ?i w"
    using p by auto
  then show ?thesis
  proof cases
    case 1
    then show ?thesis using hb [of "[0]"] by (auto simp: arrives_frames)
  next
    case 2
    then show ?thesis using hb [of "[5]"] by (auto simp: arrives_frames)
  next
    case 3
    then show ?thesis using emcy [of "replicate 8 0"] by (auto simp: arrives_frames)
  next
    case 4
    then show ?thesis using speed [of w] by (auto simp: arrives_frames frame_class_def Let_def)
  qed
qed

definition sample_flags :: flags where
  "sample_flags = \<lparr>flNode = 5, flHeartbeatInterval = 1, flPDOInterval = 1, flEMCYInterval = 0\<rparr>"

theorem published_frames_understood_witness:
  "\<exists>f v. arrives (pdoFrame 5 (- 10)) f \<and> Decode (Data f) Int16 0 0 = Some (Inr v) \<and> f64_to_int (ApplyScale v 0 0) = Some (- 10)"
proof -
  have "pdoFrame 5 (- 10) \<in> set (fst (publisherMain sample_flags None [PDOTick (- 10), Done]))"
    by (simp add: publisherMain_def sample_flags_def Let_def)
  from published_frames_understood [OF this, of s] show ?thesis
    by (fastforce simp: arrives_frames sample_flags_def)
qed

section \<open>Findings\<close>

text \<open>An interval flag that is not positive is accepted and makes the publisher panic after its boot-up.\<close>

lemma zero_interval_panics:
  "publisherMain (sample_flags\<lparr>flPDOInterval := 0\<rparr>) None ticks = ([bootupFrame 5], TickerPanic)"
  by (simp add: publisherMain_def sample_flags_def)

end
