(* ===== verification/Spec2Isabelle.thy ===== *)
theory Spec2Isabelle
  imports PolledUpload Interleaving Factory Publisher
begin

text \<open>
  A model of the CANopen receiver for the OpenTelemetry collector and of the program that
  publishes test frames for it. File names are those of src/receiver/canopenreceiver, and of
  src/cmd/canopen-publisher for main.go.

  The program. The collector's factory (factory.go) creates one \<open>canopenReceiver\<close> per component,
  shared by its metrics and logs pipelines. The configuration (config.go) is validated first and
  turned into the sniffer's tables (\<open>buildSnifferConfig\<close>). \<open>Start\<close> opens the CAN interface
  (internal/cantransport) and starts a dispatch loop and, where something is to be polled, an SDO
  poller (sdo_poller.go) and a raw transaction poller (raw_poller.go). The loop receives frames.
  It offers each to the SDO poller, which may answer it with the request for the next segment,
  and to the raw poller, which claims the response of its active transaction; every other frame goes
  to the sniffer (internal/sniffer), which tells raw messages, PDOs, heartbeats, emergencies and SDO
  frames apart, reassembles SDO transfers (internal/sdoobserver), decodes the fields of a payload
  (internal/codec) and adds data points and log records to two batches (internal/emit), which the
  loop hands to the consumers after each frame. The requests of the SDO poller are sniffed too.

  The theories, a component each, lowest first.
    Prelude: Go's integers, byte lists, little-endian numbers and list lemmas.
    GoFloat: float64, rounded exactly as IEEE 754 says, with \<open>float64\<close> an instance of the arithmetic
      classes; it is needed because values are scaled and emitted as float64.
    GoFmt: the verbs of Sprintf that occur, and that their renderings can be read back.
    Codec: internal/codec/codec.go.
    Emit: internal/emit/metrics.go and logs.go. The locale \<open>batch_builder\<close> is what both builders
      promise (the batch is a bag of items); it is interpreted for each as \<open>metrics\<close> and \<open>logs\<close>.
    SdoObserver: internal/sdoobserver/observer.go. The locale \<open>keyed_machine\<close>, for machines with a
      state per key, is interpreted for the observer as \<open>channels\<close>.
    Transport: internal/cantransport, the in-memory bus as a step relation with all interleavings,
      and the SocketCAN connection over the can package. A \<open>Send\<close> checks whether the connection is open
      before it takes the bus's mutex, and a \<open>Close\<close> closes its connection before it does, so the two
      halves of each are separate steps (\<open>sendCheck\<close> and \<open>broadcast\<close>, \<open>closeDone\<close> and \<open>forget\<close>); \<open>fakeSend\<close>
      and \<open>fakeClose\<close> are the calls with nothing in between.
    Sniffer: internal/sniffer/sniffer.go. \<open>frame_class\<close> and \<open>contribution_of\<close> are the specification: what
      a frame is, and which points and records it contributes.
    Configuration: config.go. \<open>config_wf\<close> is the specification of \<open>Validate\<close>.
    Wiring: \<open>buildSnifferConfig\<close> of receiver.go and what validation guarantees the sniffer.
    Retry: the retry loop both pollers contain. The locale \<open>retrying\<close> and its extension \<open>capped_retry\<close>
      state what their settings must satisfy; they are interpreted in the pollers' theories, the
      former for the SDO poller (\<open>sdo_retry\<close>), whose first delay is not capped, the latter for the raw
      poller (\<open>raw_retry\<close>).
    SdoPoller: sdo_poller.go. RawPoller: raw_poller.go.
    Receiver: the rest of receiver.go: start, shutdown, the dispatch loop, and \<open>step\<close> and \<open>runs\<close>, the
      interleavings of its goroutines.
    Interleaving: the dispatch loop cut into its critical sections (\<open>loopStep\<close>), between which the
      polling goroutines may act. Undisturbed, the sections are \<open>dispatchFrame\<close>.
    PolledUpload: an upload that the receiver polls, through all of these components, to the data
      points and the log record that the consumers get.
    Factory: factory.go. Publisher: main.go, and what a receiver makes of its frames.

  State and operations. A struct is a record with its fields (prefixed to keep them apart), a method
  a function from the record and the arguments to the new record and the results, a pointer that is
  compared or shared a position in a list of all structs allocated (connections, active transactions,
  receivers). Maps that are only looked up are partial maps; maps that are listed are association
  lists. A Go error is an option or a sum over the error's constructor. A call that may panic
  returns None for the panic; where not returning is possible, None is not returning. Mutexes make the
  section they guard one step; a select that may take several ready cases returns all outcomes. An
  iteration of the dispatch loop, which enters several such sections in turn, is one step of
  \<open>runs\<close>, the relation that the receiver's properties are about: there, what a poller does between two
  sections of one iteration happens before or after the iteration. \<open>section_runs\<close> (Interleaving) lets it
  happen in between.

  What the lemmas show.
    Decoding: every in-range field of every integer type decodes to its bits; panics are exactly
      those of the overflowing bounds check.
    Batches: a builder is a bag; grouping by resource; nothing is lost when it is emitted.
    SDO transfers: whole conversations of any length are reported once, with their data; nothing
      else is; channels do not disturb each other.
    Transport: order, bounds and broadcast of the bus; round trip through SocketCAN.
    Sniffing: each frame contributes what its class says, for any state and run.
    Validation: accepted configurations are exactly the well-formed ones, and they give the sniffer
      tables without collisions, responses without ambiguity, and no panic.
    Polling: a poll ends for a stated reason, a segmented upload with its data; the retry loops end
      after the configured number of attempts and wait what they are told, and an object that is
      answered in one of them is read; schedules are round-robin.
    Receiver: an invariant of its state, kept by every step of every interleaving; every dispatch
      does what its specification says; over a whole run nothing is lost, delivered twice or fatal.
      The loop dispatches exactly the frames it receives, in order, until it is told to stop. In
      every interleaving of the critical sections nothing panics either, every frame that arrived is
      taken up once and in order, and what the sections add is delivered once or still pending
      (\<open>sections_never_panic\<close>).

  Where the code and its documents disagree, the lemmas state the code: the resources of a batch
  (metrics.go and logs.go promise one per set of attributes), the body of a record with one logged
  field (the README promises a map, it is the bare value), the first delay of the SDO poller (not
  capped), some defaults of the README, and the example configuration, which is refused.

  Bounds. Offsets and lengths of fields below 2^62 (\<open>config_bounded\<close>) keep the int arithmetic of the
  bounds check from wrapping; validation bounds them from below only. Runs are shorter than 2^48
  steps and payloads shorter than 2^50 bytes, so that the length of a reassembled transfer, in bits, fits in an
  int: a machine cannot hold more. A CAN frame carries at most eight bytes, so the second bound holds
  for every frame that SocketCAN delivers. Back-offs below 2^62 ns keep their doubling from wrapping.
  \<open>kinds_agree\<close> says that a metric name has one kind, without which a
  batch panics. There is no fuel: loops that may not end are partial functions (\<open>retryFrom\<close>,
  \<open>sdoRunFrom\<close>, \<open>rawRunFrom\<close>), and that they end, and when, is proved.

  Parameters. What is not under src/ is an argument: the socket and the can package (Transport), the
  results of dialing, receiving and sending (Receiver), the clock and the ticks of timers, whether a wait
  ran to its end, the samples of the sine (Publisher). The retry loop's world is a function from the
  number of an attempt to its outcome; \<open>poll_outcome\<close> (SdoPoller) ties an outcome to the poll it is of.

  Not modelled. The pdata library beyond the tree of a batch, severity texts, and the invalid UTF-8
  that a log body may be given; log lines (that the loop warns is counted) and the exact text of error
  messages, which are constructors with what the text prints; real time; the memory model of Go:
  the unsynchronised reads of the pollers' pointers by the dispatch loop are a finding, not a behaviour of the
  model; signal handling and flag parsing of main.go; the generated metadata package, the factory's
  registration with the collector, tests and build files.
\<close>

end
